(* ===== verification/Prelude.thy ===== *)
theory Prelude
  imports Main "HOL-Library.List_Lexorder" "HOL-Library.Char_ord"
begin

text \<open>
  Shared vocabulary of the development: the type synonyms of the modelled program, the
  collections of facts the component theories extend, and the generic lemmas on lists,
  options and strings they share.

  Python strings are \<^typ>\<open>string\<close>, a list of \<^typ>\<open>char\<close>: header values have one character per
  code point (they are Latin-1), every other string one per octet of its UTF-8 encoding, which is
  the same thing on ASCII, and timestamps, keys and path segments are ASCII where they are
  accepted at all.  Python \<open>bytes\<close> are \<^typ>\<open>string\<close> as well, one character per byte.  The order
  \<open><\<close> on strings is the lexicographic order by character code, which is the order of Python's
  \<open>str\<close> comparison and of SQLite's default \<open>BINARY\<close> collation.  The texts of JSON documents
  are lists of code points (\<open>Text\<close>).
\<close>

section \<open>Names for the model's types\<close>

type_synonym timestamp = string
type_synonym payload = string

text \<open>An instant is an aware UTC \<open>datetime\<close>: microseconds since 0001-01-01T00:00:00.\<close>

type_synonym instant = int

section \<open>Fact collections\<close>

named_theorems lookup_simps \<open>look-up after update or insert\<close>
named_theorems wp_simps \<open>weakest preconditions of programs\<close>
named_theorems frame_simps \<open>fields an operation does not write\<close>

section \<open>Errors\<close>

text \<open>
  The constraint an \<open>sqlite3.IntegrityError\<close> reports, named by the columns or the kind its
  message shows (\<open>persistence/schema.py\<close>).
\<close>

datatype violation =
    Unique_jobs_job_id
  | Unique_jobs_idempotency_key
  | Unique_attempts_attempt_id
  | Unique_attempts_job_number
  | Unique_one_started
  | Unique_obs_observation_id
  | Unique_obs_attempt_sequence
  | Unique_obs_sequence_ordinal
  | Check_failed
  | Foreign_key_failed

text \<open>
  The exceptions of the program.  \<open>PersistenceError\<close> and \<open>DatabaseCorruptionError\<close> are
  \<open>persistence/errors.py\<close>; \<open>AdapterError\<close> is any exception that escapes the HTTP adapter;
  \<open>CancelledError\<close> is asyncio's, which \<open>except Exception\<close> does not catch.  \<open>Out_of_fuel\<close> is no
  exception of the program: it marks a loop the model stopped after its fuel.
\<close>

datatype exn =
    OperationalError
  | IntegrityError violation
  | PersistenceError
  | DatabaseCorruptionError
  | ValueError
  | AssertionError
  | AdapterError
  | CancelledError
  | Out_of_fuel

text \<open>What \<open>except Exception\<close> catches.\<close>

definition is_exception :: "exn \<Rightarrow> bool" where
  "is_exception e \<longleftrightarrow> e \<noteq> CancelledError \<and> e \<noteq> Out_of_fuel"

section \<open>Results\<close>

text \<open>\<open>find_first\<close> is Python's \<open>next((x for x in xs if p(x)), None)\<close>.\<close>

fun find_first :: "('a \<Rightarrow> bool) \<Rightarrow> 'a list \<Rightarrow> 'a option" where
  "find_first p [] = None"
| "find_first p (x # xs) = (if p x then Some x else find_first p xs)"

lemma find_first_None: "find_first p xs = None \<longleftrightarrow> (\<forall>x\<in>set xs. \<not> p x)"
  by (induction xs) auto

lemma find_first_SomeD: "find_first p xs = Some x \<Longrightarrow> x \<in> set xs \<and> p x"
  by (induction xs) (auto split: if_splits)

lemma find_first_split:
  "find_first p xs = Some x \<Longrightarrow>
     \<exists>ys zs. xs = ys @ x # zs \<and> p x \<and> (\<forall>y\<in>set ys. \<not> p y)"
proof (induction xs)
  case Nil
  then show ?case by simp
next
  case (Cons y ys)
  show ?case
  proof (cases "p y")
    case True
    with Cons.prems have "y = x" by simp
    with True show ?thesis by (intro exI[of _ "[]"] exI[of _ ys]) simp
  next
    case False
    with Cons obtain us zs where "ys = us @ x # zs" "p x" "\<forall>u\<in>set us. \<not> p u" by auto
    with False show ?thesis by (intro exI[of _ "y # us"] exI[of _ zs]) simp
  qed
qed

lemma find_first_append:
  "find_first p (xs @ ys) =
     (case find_first p xs of None \<Rightarrow> find_first p ys | Some x \<Rightarrow> Some x)"
  by (induction xs) auto

lemma find_first_map_update [lookup_simps]:
  assumes "\<And>x. p (f x) = p x"
  shows "find_first p (map f xs) = map_option f (find_first p xs)"
  by (induction xs) (auto simp: assms)

lemma find_first_unique:
  assumes "x \<in> set xs" "p x" "\<And>y. y \<in> set xs \<Longrightarrow> p y \<Longrightarrow> y = x"
  shows "find_first p xs = Some x"
proof -
  from assms(1,2) have "find_first p xs \<noteq> None" by (auto simp: find_first_None)
  then obtain y where y: "find_first p xs = Some y" by auto
  from find_first_SomeD[OF y] have "y = x" by (blast intro: assms(3))
  with y show ?thesis by simp
qed

section \<open>Lexicographic order of strings\<close>

text \<open>
  Strings of equal length compare like their first difference, so a fixed-width encoding
  compares field by field.
\<close>

lemma append_less_append:
  fixes a b c d :: string
  assumes "length a = length b"
  shows "a @ c < b @ d \<longleftrightarrow> a < b \<or> a = b \<and> c < d"
  using assms
proof (induction a arbitrary: b)
  case Nil
  then show ?case by simp
next
  case (Cons x a)
  then obtain y b' where "b = y # b'" by (cases b) auto
  with Cons show ?case by auto
qed

lemma append_eq_fixed:
  "length a = length b \<Longrightarrow> a @ c = b @ d \<longleftrightarrow> a = b \<and> c = d"
  by simp

lemma max_cases:
  fixes a b :: string
  shows "max a b = a \<or> max a b = b"
  by (auto simp: max_def)

section \<open>State machines\<close>

text \<open>
  The interface of a state machine with an invariant and an order that no step goes back in.
  Whoever runs steps, of its own or of others, needs no more than these laws.
\<close>

locale state_machine =
  fixes step :: "'s \<Rightarrow> 's \<Rightarrow> bool" and ok :: "'s \<Rightarrow> bool" and le :: "'s \<Rightarrow> 's \<Rightarrow> bool"
  assumes step_ok: "step s t \<Longrightarrow> ok s \<Longrightarrow> ok t"
    and step_le: "step s t \<Longrightarrow> ok s \<Longrightarrow> le s t"
    and le_refl: "le s s"
    and le_trans: "le s t \<Longrightarrow> le t u \<Longrightarrow> le s u"
begin

lemma steps_ok: "step\<^sup>*\<^sup>* s t \<Longrightarrow> ok s \<Longrightarrow> ok t"
  by (induction rule: rtranclp_induct) (auto intro: step_ok)

lemma steps_le: "step\<^sup>*\<^sup>* s t \<Longrightarrow> ok s \<Longrightarrow> le s t"
proof (induction rule: rtranclp_induct)
  case base
  show ?case by (rule le_refl)
next
  case (step t u)
  then show ?case using step_le steps_ok le_trans by blast
qed

end

end
