(* ===== verification/Calendar.thy ===== *)
theory Calendar
  imports Prelude
begin

text \<open>
  What the program uses of Python's \<open>datetime\<close> module: the proleptic Gregorian calendar on
  day ordinals (the algorithms of the module's \<open>_ymd2ord\<close> and \<open>_ord2ymd\<close>), zero-padded
  decimal numbers, and \<open>strptime\<close> as an ordered list of successes, which is how a
  backtracking regular expression picks its match.  An instant is a number of microseconds
  since 0001-01-01T00:00:00, so \<open>datetime\<close> differences and \<open>timedelta\<close> sums are integer
  arithmetic.
\<close>

section \<open>Years, months, ordinals\<close>

definition is_leap :: "int \<Rightarrow> bool" where
  "is_leap y \<longleftrightarrow> y mod 4 = 0 \<and> (y mod 100 \<noteq> 0 \<or> y mod 400 = 0)"

definition leap_years_upto :: "int \<Rightarrow> int" where
  "leap_years_upto y = y div 4 - y div 100 + y div 400"

definition days_before_year :: "int \<Rightarrow> int" where
  "days_before_year y = (y - 1) * 365 + leap_years_upto (y - 1)"

definition month_length :: "bool \<Rightarrow> int \<Rightarrow> int" where
  "month_length leap m =
     (if m = 2 then (if leap then 29 else 28)
      else if m = 4 \<or> m = 6 \<or> m = 9 \<or> m = 11 then 30 else 31)"

definition days_before_month_common :: "int \<Rightarrow> int" where
  "days_before_month_common m =
     (if m \<le> 1 then 0 else if m = 2 then 31 else if m = 3 then 59 else if m = 4 then 90
      else if m = 5 then 120 else if m = 6 then 151 else if m = 7 then 181
      else if m = 8 then 212 else if m = 9 then 243 else if m = 10 then 273
      else if m = 11 then 304 else 334)"

definition days_before_month :: "bool \<Rightarrow> int \<Rightarrow> int" where
  "days_before_month leap m =
     days_before_month_common m + (if m > 2 \<and> leap then 1 else 0)"

definition ymd2ord :: "int \<Rightarrow> int \<Rightarrow> int \<Rightarrow> int" where
  "ymd2ord y m d = days_before_year y + days_before_month (is_leap y) m + d"

definition month_day :: "bool \<Rightarrow> int \<Rightarrow> int \<times> int" where
  "month_day leap n =
     (let month = (n + 50) div 32;
          preceding = days_before_month leap month
      in if preceding > n
         then (month - 1, n - (preceding - month_length leap (month - 1)) + 1)
         else (month, n - preceding + 1))"

definition ord2ymd :: "int \<Rightarrow> int \<times> int \<times> int" where
  "ord2ymd n =
     (let n = n - 1;
          n400 = n div 146097; n = n mod 146097;
          n100 = n div 36524; n = n mod 36524;
          n4 = n div 1461; n = n mod 1461;
          n1 = n div 365; n = n mod 365;
          year = n400 * 400 + 1 + n100 * 100 + n4 * 4 + n1
      in if n1 = 4 \<or> n100 = 4 then (year - 1, 12, 31)
         else (year, month_day (n1 = 3 \<and> (n4 \<noteq> 24 \<or> n100 = 3)) n))"

definition valid_date :: "int \<Rightarrow> int \<Rightarrow> int \<Rightarrow> bool" where
  "valid_date y m d \<longleftrightarrow>
     1 \<le> m \<and> m \<le> 12 \<and> 1 \<le> d \<and> d \<le> month_length (is_leap y) m"

subsection \<open>The two directions are inverse\<close>

lemma month_cases:
  fixes q :: int
  assumes "1 \<le> q" "q \<le> 12"
  shows "q = 1 \<or> q = 2 \<or> q = 3 \<or> q = 4 \<or> q = 5 \<or> q = 6 \<or> q = 7 \<or> q = 8
    \<or> q = 9 \<or> q = 10 \<or> q = 11 \<or> q = 12"
proof -
  from assms have "q \<in> set [1..12]" by simp
  then show ?thesis by (simp add: upto.simps)
qed

lemma month_day_correct:
  assumes "0 \<le> n" "n \<le> (if leap then 365 else 364)" "month_day leap n = (m, d)"
  shows "1 \<le> m" "m \<le> 12" "1 \<le> d" "d \<le> month_length leap m"
    "days_before_month leap m + d = n + 1"
proof -
  define q where "q = (n + 50) div 32"
  have q: "32 * q \<le> n + 50" "n + 50 < 32 * q + 32" by (simp_all add: q_def)
  have n: "n \<le> 365" "\<not> leap \<Longrightarrow> n \<le> 364" using assms(2) by (auto split: if_splits)
  with q assms(1) have "1 \<le> q" "q \<le> 12" by linarith+
  note month_cases[OF this]
  moreover have "(m, d) = (let preceding = days_before_month leap q
      in if preceding > n
         then (q - 1, n - (preceding - month_length leap (q - 1)) + 1)
         else (q, n - preceding + 1))"
    using assms(3) unfolding month_day_def Let_def q_def by (rule sym)
  ultimately have "1 \<le> m \<and> m \<le> 12 \<and> 1 \<le> d \<and> d \<le> month_length leap m
      \<and> days_before_month leap m + d = n + 1"
    using q n assms(1) unfolding Let_def
    by (elim disjE; cases leap; cases "n < days_before_month leap q")
      (simp_all add: days_before_month_def days_before_month_common_def month_length_def)
  then show "1 \<le> m" "m \<le> 12" "1 \<le> d" "d \<le> month_length leap m"
    "days_before_month leap m + d = n + 1" by simp_all
qed

lemma days_before_year_split:
  assumes "0 \<le> b" "b \<le> 3" "0 \<le> c" "c \<le> 24" "0 \<le> e" "e \<le> 3"
  shows "days_before_year (400 * a + 100 * b + 4 * c + e + 1) =
         146097 * a + 36524 * b + 1461 * c + 365 * e"
proof -
  let ?y = "400 * a + 100 * b + 4 * c + e"
  from assms have "?y div 4 = 100 * a + 25 * b + c"
    by (intro int_div_pos_eq[of _ _ _ e]) simp_all
  moreover from assms have "?y div 100 = 4 * a + b"
    by (intro int_div_pos_eq[of _ _ _ "4 * c + e"]) simp_all
  moreover from assms have "?y div 400 = a"
    by (intro int_div_pos_eq[of _ _ _ "100 * b + 4 * c + e"]) simp_all
  ultimately show ?thesis by (simp add: days_before_year_def leap_years_upto_def)
qed

lemma is_leap_split:
  assumes "0 \<le> b" "b \<le> 3" "0 \<le> c" "c \<le> 24" "0 \<le> e" "e \<le> 3"
  shows "is_leap (400 * a + 100 * b + 4 * c + e + 1) \<longleftrightarrow> e = 3 \<and> (c \<noteq> 24 \<or> b = 3)"
proof -
  let ?y = "400 * a + 100 * b + 4 * c + e + 1"
  show ?thesis
  proof (cases "e = 3")
    case False
    with assms have "?y mod 4 = e + 1"
      by (intro int_mod_pos_eq[of _ _ "100 * a + 25 * b + c"]) simp_all
    with assms False show ?thesis by (simp add: is_leap_def)
  next
    case e: True
    have m4: "?y mod 4 = 0"
      using e by (intro int_mod_pos_eq[of _ _ "100 * a + 25 * b + c + 1"]) simp_all
    show ?thesis
    proof (cases "c = 24")
      case False
      with assms e have "?y mod 100 = 4 * c + 4"
        by (intro int_mod_pos_eq[of _ _ "4 * a + b"]) simp_all
      with assms m4 e False show ?thesis by (simp add: is_leap_def)
    next
      case c: True
      have m100: "?y mod 100 = 0"
        using e c by (intro int_mod_pos_eq[of _ _ "4 * a + b + 1"]) simp_all
      have "?y mod 400 = (if b = 3 then 0 else 100 * b + 100)"
        using assms e c
        by (intro int_mod_pos_eq[of _ _ "if b = 3 then a + 1 else a"]) (simp_all split: if_splits)
      with assms m4 m100 e c show ?thesis by (simp add: is_leap_def)
    qed
  qed
qed

text \<open>The last day of a leap cycle, which the algorithm returns before the month table.\<close>

lemma last_day_parts:
  fixes r1 r2 r3 r b c e :: int
  assumes "0 \<le> r1" "r1 < 146097" "0 \<le> r2" "r2 < 36524" "0 \<le> r3" "r3 < 1461" "0 \<le> r" "r < 365"
    and "0 \<le> b" "b \<le> 4" "0 \<le> c" "c \<le> 24" "0 \<le> e" "e \<le> 4"
    and "r1 = 36524 * b + r2" "r2 = 1461 * c + r3" "r3 = 365 * e + r"
    and "e = 4 \<or> b = 4"
  shows "if b = 4 then c = 0 \<and> e = 0 \<and> r = 0 else b \<le> 3 \<and> c < 24 \<and> e = 4 \<and> r = 0"
  using assms by (cases "b = 4") auto

lemma div_bounds:
  fixes x k u q :: int
  assumes "0 \<le> x" "x < u"
  shows "0 < k \<Longrightarrow> 0 \<le> x div k" "0 < k \<and> u \<le> k * (q + 1) \<Longrightarrow> x div k \<le> q"
proof -
  show "0 < k \<Longrightarrow> 0 \<le> x div k" using assms(1) by (simp add: pos_imp_zdiv_nonneg_iff)
  assume k: "0 < k \<and> u \<le> k * (q + 1)"
  have "x div k * k \<le> x"
    using div_mult_mod_eq[of x k] pos_mod_sign[of k x] k by linarith
  also have "x < (q + 1) * k" using k assms(2) by (simp add: mult.commute)
  finally have "x div k < q + 1" using k by simp
  then show "x div k \<le> q" by simp
qed

lemma ord2ymd_correct:
  assumes "ord2ymd n = (y, m, d)"
  shows "valid_date y m d \<and> ymd2ord y m d = n"
proof -
  define k where "k = n - 1"
  define a where "a = k div 146097"
  define r1 where "r1 = k mod 146097"
  define b where "b = r1 div 36524"
  define r2 where "r2 = r1 mod 36524"
  define c where "c = r2 div 1461"
  define r3 where "r3 = r2 mod 1461"
  define e where "e = r3 div 365"
  define r where "r = r3 mod 365"
  note parts = k_def a_def r1_def b_def r2_def c_def r3_def e_def r_def
  have k: "k = 146097 * a + 36524 * b + 1461 * c + 365 * e + r"
    by (simp add: a_def r1_def b_def r2_def c_def r3_def e_def r_def algebra_simps)
  have r1: "0 \<le> r1" "r1 < 146097" by (simp_all add: r1_def)
  have r2: "0 \<le> r2" "r2 < 36524" by (simp_all add: r2_def)
  have r3: "0 \<le> r3" "r3 < 1461" by (simp_all add: r3_def)
  have r: "0 \<le> r" "r < 365" by (simp_all add: r_def)
  have bb: "0 \<le> b" "b \<le> 4" unfolding b_def by (rule div_bounds[OF r1], simp)+
  have cc: "0 \<le> c" "c \<le> 24" unfolding c_def by (rule div_bounds[OF r2], simp)+
  have ee: "0 \<le> e" "e \<le> 4" unfolding e_def by (rule div_bounds[OF r3], simp)+
  show ?thesis
  proof (cases "e = 4 \<or> b = 4")
    case True
    have ymd: "y = 400 * a + 100 * b + 4 * c + e" "m = 12" "d = 31"
      using assms True by (simp_all add: ord2ymd_def Let_def parts)
    have "r1 = 36524 * b + r2" "r2 = 1461 * c + r3" "r3 = 365 * e + r"
      by (simp_all add: b_def r2_def c_def r3_def e_def r_def)
    note parts_eq = last_day_parts[OF r1 r2 r3 r bb cc ee this True]
    define b' c' where "b' = (if b = 4 then 3 else b)" and "c' = (if b = 4 then 24 else c)"
    have split: "y = 400 * a + 100 * b' + 4 * c' + 3 + 1"
      and leap': "c' \<noteq> 24 \<or> b' = 3"
      and total: "k = 146097 * a + 36524 * b' + 1461 * c' + 365 * 3 + 365"
      and rng: "0 \<le> b'" "b' \<le> 3" "0 \<le> c'" "c' \<le> 24" using bb cc parts_eq k ymd
      by (auto simp: b'_def c'_def split: if_splits)
    have "is_leap y"
      using is_leap_split[OF rng, of 3 a] leap' by (simp add: split)
    moreover have "days_before_year y = k - 365"
      using days_before_year_split[OF rng, of 3 a] total by (simp add: split)
    ultimately show ?thesis
      using ymd by (simp add: valid_date_def ymd2ord_def month_length_def days_before_month_def
          days_before_month_common_def k_def)
  next
    case False
    with bb cc ee have rng: "0 \<le> b" "b \<le> 3" "0 \<le> c" "c \<le> 24" "0 \<le> e" "e \<le> 3" by auto
    define leap where "leap = (e = 3 \<and> (c \<noteq> 24 \<or> b = 3))"
    have y: "y = 400 * a + 100 * b + 4 * c + e + 1" and md: "month_day leap r = (m, d)"
      using assms False by (simp_all add: ord2ymd_def Let_def parts leap_def split: if_splits)
    have leap: "is_leap y = leap" using is_leap_split[OF rng] by (simp add: y leap_def)
    have "r \<le> (if leap then 365 else 364)" using r by simp
    note md' = month_day_correct[OF r(1) this md]
    have "ymd2ord y m d = n"
      unfolding ymd2ord_def leap using md'(5) k days_before_year_split[OF rng, of a]
      by (simp add: y k_def)
    with md' leap show ?thesis by (simp add: valid_date_def)
  qed
qed

lemma div_pred:
  fixes y k :: int
  assumes "0 < k"
  shows "y div k = (y - 1) div k + (if y mod k = 0 then 1 else 0)"
proof -
  define q r where "q = y div k" and "r = y mod k"
  have y: "y = k * q + r" by (simp add: q_def r_def)
  have r: "0 \<le> r" "r < k" using assms by (simp_all add: r_def)
  have "(y - 1) div k = (if r = 0 then q - 1 else q)"
  proof (cases "r = 0")
    case True
    have "y - 1 = k * (q - 1) + (k - 1)" unfolding y True right_diff_distrib by linarith
    then have "(y - 1) div k = q - 1" by (rule int_div_pos_eq) (use assms in linarith)+
    with True show ?thesis by simp
  next
    case False
    have "y - 1 = k * q + (r - 1)" unfolding y by linarith
    then have "(y - 1) div k = q" by (rule int_div_pos_eq) (use r False in linarith)+
    with False show ?thesis by simp
  qed
  then show ?thesis unfolding q_def[symmetric] r_def[symmetric] by simp
qed

lemma leap_sum:
  fixes q4 p4 q100 p100 q400 p400 :: int
  assumes "q4 = p4 + (if l4 then 1 else 0)" "q100 = p100 + (if l100 then 1 else 0)"
    "q400 = p400 + (if l400 then 1 else 0)" "l400 \<Longrightarrow> l100" "l100 \<Longrightarrow> l4"
  shows "q4 - q100 + q400 =
    p4 - p100 + p400 + (if l4 \<and> (\<not> l100 \<or> l400) then 1 else 0)"
  using assms by (cases l4; cases l100; cases l400) simp_all

lemma leap_years_upto_pred:
  "leap_years_upto y = leap_years_upto (y - 1) + (if is_leap y then 1 else 0)"
  unfolding leap_years_upto_def is_leap_def
proof (rule leap_sum[OF div_pred div_pred div_pred])
  show "y mod 400 = 0 \<Longrightarrow> y mod 100 = 0"
    using dvd_trans[of 100 400 y] by (simp add: mod_eq_0_iff_dvd)
  show "y mod 100 = 0 \<Longrightarrow> y mod 4 = 0"
    using dvd_trans[of 4 100 y] by (simp add: mod_eq_0_iff_dvd)
qed simp_all

lemma days_before_year_Suc:
  "days_before_year (y + 1) = days_before_year y + (if is_leap y then 366 else 365)"
  using leap_years_upto_pred[of y] by (simp add: days_before_year_def)

lemma days_before_year_mono: "y \<le> y' \<Longrightarrow> days_before_year y \<le> days_before_year y'"
proof (induction y' rule: int_ge_induct)
  case base
  then show ?case by simp
next
  case (step i)
  then show ?case by (simp add: days_before_year_Suc)
qed

lemma days_before_month_bounds:
  assumes "1 \<le> m" "m \<le> 12"
  shows "days_before_month leap m + month_length leap m \<le>
      (if m = 12 then (if leap then 366 else 365) else days_before_month leap (m + 1))"
    "0 \<le> days_before_month leap m"
proof -
  note month_cases[OF assms]
  then show "days_before_month leap m + month_length leap m \<le>
      (if m = 12 then (if leap then 366 else 365) else days_before_month leap (m + 1))"
    "0 \<le> days_before_month leap m"
    by (auto simp: days_before_month_def days_before_month_common_def month_length_def)
qed

lemma days_before_month_mono:
  "m \<le> m' \<Longrightarrow> days_before_month leap m \<le> days_before_month leap m'"
proof (induction m' rule: int_ge_induct)
  case base
  then show ?case by simp
next
  case (step i)
  have "days_before_month leap i \<le> days_before_month leap (i + 1)"
    by (auto simp: days_before_month_def days_before_month_common_def)
  with step show ?case by linarith
qed

lemma day_of_year_bound:
  assumes "valid_date y m d"
  shows "days_before_month (is_leap y) m + d \<le> (if is_leap y then 366 else 365)"
proof -
  have "days_before_month (is_leap y) (m + 1) \<le> (if is_leap y then 366 else 365)"
    if "m < 12"
    using that by (auto simp: days_before_month_def days_before_month_common_def)
  then show ?thesis
    using assms days_before_month_bounds[of m "is_leap y"]
    by (auto simp: valid_date_def split: if_splits)
qed

lemma ymd2ord_less:
  assumes "valid_date y m d" "valid_date y' m' d'"
    and "y < y' \<or> y = y' \<and> (m < m' \<or> m = m' \<and> d < d')"
  shows "ymd2ord y m d < ymd2ord y' m' d'"
proof (cases "y < y'")
  case True
  have "ymd2ord y m d \<le> days_before_year (y + 1)"
    using day_of_year_bound[OF assms(1)] by (simp add: ymd2ord_def days_before_year_Suc)
  also have "\<dots> \<le> days_before_year y'" using True by (simp add: days_before_year_mono)
  also have "\<dots> < ymd2ord y' m' d'"
    using assms(2) days_before_month_bounds(2)[of m' "is_leap y'"]
    by (simp add: ymd2ord_def valid_date_def)
  finally show ?thesis .
next
  case False
  with assms(3) have y: "y = y'" and c: "m < m' \<or> m = m' \<and> d < d'" by auto
  show ?thesis
  proof (cases "m < m'")
    case True
    then have "days_before_month (is_leap y) (m + 1) \<le> days_before_month (is_leap y) m'"
      by (simp add: days_before_month_mono)
    with True assms(1,2) y days_before_month_bounds(1)[of m "is_leap y"] show ?thesis
      by (simp add: ymd2ord_def valid_date_def)
  next
    case False
    with c y show ?thesis by (simp add: ymd2ord_def)
  qed
qed

lemma ymd2ord_less_iff:
  assumes "valid_date y m d" "valid_date y' m' d'"
  shows "ymd2ord y m d < ymd2ord y' m' d' \<longleftrightarrow>
         y < y' \<or> y = y' \<and> (m < m' \<or> m = m' \<and> d < d')"
proof -
  consider "y < y' \<or> y = y' \<and> (m < m' \<or> m = m' \<and> d < d')"
    | "y' < y \<or> y' = y \<and> (m' < m \<or> m' = m \<and> d' < d)" | "y = y'" "m = m'" "d = d'"
    by linarith
  then show ?thesis
  proof cases
    case 1
    with ymd2ord_less[OF assms] show ?thesis by blast
  next
    case 2
    with ymd2ord_less[OF assms(2,1)] show ?thesis by auto
  next
    case 3
    then show ?thesis by simp
  qed
qed

lemma ord2ymd_ymd2ord:
  assumes "valid_date y m d"
  shows "ord2ymd (ymd2ord y m d) = (y, m, d)"
proof -
  obtain y' m' d' where r: "ord2ymd (ymd2ord y m d) = (y', m', d')" by (metis prod_cases3)
  note ord2ymd_correct[OF r]
  with ymd2ord_less[OF assms, of y' m' d'] ymd2ord_less[OF _ assms, of y' m' d']
  have "y' = y \<and> m' = m \<and> d' = d" by (metis less_irrefl linorder_neqE)
  with r show ?thesis by simp
qed

lemma ymd2ord_inject:
  assumes "valid_date y m d" "valid_date y' m' d'"
  shows "ymd2ord y m d = ymd2ord y' m' d' \<longleftrightarrow> y = y' \<and> m = m' \<and> d = d'"
  using ord2ymd_ymd2ord[OF assms(1)] ord2ymd_ymd2ord[OF assms(2)] by (metis prod.inject)

end
