(* ===== verification/Decimal.thy ===== *)
theory Decimal
  imports Prelude
begin

text \<open>
  Decimal text of non-negative integers: \<open>str(n)\<close>, zero padding as in \<open>f"{n:06d}"\<close>, reading
  digits back as \<open>int(s)\<close> does, and the fact that padded numbers of one width compare as
  strings the way they compare as numbers.
\<close>

definition digit_char :: "int \<Rightarrow> char" where
  "digit_char d = char_of (48 + d)"

definition is_digit :: "char \<Rightarrow> bool" where
  "is_digit c \<longleftrightarrow> 48 \<le> (of_char c :: int) \<and> (of_char c :: int) \<le> 57"

definition digit_val :: "char \<Rightarrow> int" where
  "digit_val c = of_char c - 48"

function str_int :: "int \<Rightarrow> string" where
  "str_int n = (if n < 10 then [digit_char n] else str_int (n div 10) @ [digit_char (n mod 10)])"
  by pat_completeness auto
termination
  by (relation "measure nat") auto

declare str_int.simps [simp del]

definition zero_pad :: "nat \<Rightarrow> string \<Rightarrow> string" where
  "zero_pad w s = replicate (w - length s) (CHR ''0'') @ s"

definition read_digits :: "string \<Rightarrow> int" where
  "read_digits s = foldl (\<lambda>acc c. 10 * acc + digit_val c) 0 s"

fun fixed_width :: "nat \<Rightarrow> int \<Rightarrow> string" where
  "fixed_width 0 n = []"
| "fixed_width (Suc w) n = fixed_width w (n div 10) @ [digit_char (n mod 10)]"

lemma of_digit_char:
  assumes "0 \<le> d" "d < 10"
  shows "(of_char (digit_char d) :: int) = 48 + d"
proof -
  have "(of_char (char_of (48 + d) :: char) :: int) = (48 + d) mod 256" by simp
  also have "\<dots> = 48 + d" using assms by (intro mod_pos_pos_trivial) simp_all
  finally show ?thesis by (simp add: digit_char_def)
qed

lemma digit_val_digit_char [simp]: "0 \<le> d \<Longrightarrow> d < 10 \<Longrightarrow> digit_val (digit_char d) = d"
  by (simp add: digit_val_def of_digit_char)

lemma is_digit_digit_char [simp]: "0 \<le> d \<Longrightarrow> d < 10 \<Longrightarrow> is_digit (digit_char d)"
  by (simp add: is_digit_def of_digit_char)

lemma digit_val_bounds: "is_digit c \<Longrightarrow> 0 \<le> digit_val c \<and> digit_val c \<le> 9"
  by (simp add: is_digit_def digit_val_def)

lemma char_less_int: "(c :: char) < d \<longleftrightarrow> (of_char c :: int) < of_char d"
proof -
  have "(of_char c :: int) = int (of_char c)" for c by (simp add: of_nat_of_char)
  then show ?thesis by (simp add: less_char_def)
qed

lemma digit_char_less [simp]:
  "0 \<le> a \<Longrightarrow> a < 10 \<Longrightarrow> 0 \<le> b \<Longrightarrow> b < 10 \<Longrightarrow> digit_char a < digit_char b \<longleftrightarrow> a < b"
  by (simp add: char_less_int of_digit_char)

lemma digit_char_eq [simp]:
  "0 \<le> a \<Longrightarrow> a < 10 \<Longrightarrow> 0 \<le> b \<Longrightarrow> b < 10 \<Longrightarrow> digit_char a = digit_char b \<longleftrightarrow> a = b"
  by (metis digit_val_digit_char)

lemma length_fixed_width [simp]: "length (fixed_width w n) = w"
  by (induction w arbitrary: n) auto

lemma fixed_width_digits: "c \<in> set (fixed_width w n) \<Longrightarrow> is_digit c"
  by (induction w arbitrary: n) auto

lemma div_ten_bound: "(n::int) < 10 * k \<Longrightarrow> n div 10 < k"
  by (simp add: int_div_less_self div_less_iff_less_mult)

lemma div_mod_ten_eq: "(a::int) div 10 = b div 10 \<and> a mod 10 = b mod 10 \<longleftrightarrow> a = b"
  by (metis div_mult_mod_eq)

lemma div_mod_ten_less:
  fixes a b :: int
  shows "a div 10 < b div 10 \<or> a div 10 = b div 10 \<and> a mod 10 < b mod 10 \<longleftrightarrow> a < b"
proof -
  have "q < q' \<or> q = q' \<and> r < r' \<longleftrightarrow> 10 * q + r < 10 * q' + r'"
    if "0 \<le> r" "r < 10" "0 \<le> r'" "r' < 10" for q q' r r' :: int
    using that by linarith
  from this[of "a mod 10" "b mod 10" "a div 10" "b div 10"] show ?thesis by simp
qed

lemma fixed_width_eq:
  "0 \<le> a \<Longrightarrow> a < 10 ^ w \<Longrightarrow> 0 \<le> b \<Longrightarrow> b < 10 ^ w \<Longrightarrow>
     fixed_width w a = fixed_width w b \<longleftrightarrow> a = b"
proof (induction w arbitrary: a b)
  case 0
  then show ?case by simp
next
  case (Suc w)
  then have "a div 10 < 10 ^ w" "b div 10 < 10 ^ w" by (simp_all add: div_ten_bound)
  with Suc have "fixed_width (Suc w) a = fixed_width (Suc w) b \<longleftrightarrow>
      a div 10 = b div 10 \<and> a mod 10 = b mod 10" by (simp add: pos_imp_zdiv_nonneg_iff)
  then show ?case by (simp only: div_mod_ten_eq)
qed

lemma fixed_width_less:
  "0 \<le> a \<Longrightarrow> a < 10 ^ w \<Longrightarrow> 0 \<le> b \<Longrightarrow> b < 10 ^ w \<Longrightarrow>
     fixed_width w a < fixed_width w b \<longleftrightarrow> a < b"
proof (induction w arbitrary: a b)
  case 0
  then show ?case by simp
next
  case (Suc w)
  then have lt: "0 \<le> a div 10" "a div 10 < 10 ^ w" "0 \<le> b div 10" "b div 10 < 10 ^ w"
    by (simp_all add: div_ten_bound pos_imp_zdiv_nonneg_iff)
  have "fixed_width (Suc w) a < fixed_width (Suc w) b \<longleftrightarrow>
      a div 10 < b div 10 \<or> a div 10 = b div 10 \<and> a mod 10 < b mod 10"
    using Suc.IH[OF lt] fixed_width_eq[OF lt] by (simp add: append_less_append)
  then show ?case by (simp only: div_mod_ten_less)
qed

lemma fixed_width_zero: "fixed_width w 0 = replicate w (CHR ''0'')"
proof (induction w)
  case 0
  then show ?case by simp
next
  case (Suc w)
  have "digit_char 0 = CHR ''0''" by code_simp
  with Suc show ?case by (simp add: replicate_append_same)
qed

lemma zero_pad_str_int:
  "0 \<le> n \<Longrightarrow> n < 10 ^ w \<Longrightarrow> 0 < w \<Longrightarrow> zero_pad w (str_int n) = fixed_width w n"
proof (induction n arbitrary: w rule: str_int.induct)
  case (1 n)
  from "1.prems"(3) obtain v where w: "w = Suc v" by (cases w) auto
  show ?case
  proof (cases "n < 10")
    case True
    with "1.prems" have "fixed_width w n = replicate v (CHR ''0'') @ [digit_char n]"
      by (simp add: fixed_width_zero w div_pos_pos_trivial mod_pos_pos_trivial)
    with True w show ?thesis by (simp add: zero_pad_def str_int.simps[of n])
  next
    case False
    with "1.prems" w have v: "0 \<le> n div 10" "n div 10 < 10 ^ v" "0 < v"
      by (simp_all add: div_ten_bound pos_imp_zdiv_nonneg_iff) (cases v, simp_all)
    from "1.IH"[OF False this] have
      "replicate (v - length (str_int (n div 10))) (CHR ''0'') @ str_int (n div 10) =
       fixed_width v (n div 10)" by (simp add: zero_pad_def)
    with False w show ?thesis by (simp add: zero_pad_def str_int.simps[of n])
  qed
qed

lemma read_digits_append: "read_digits (s @ [c]) = 10 * read_digits s + digit_val c"
  by (simp add: read_digits_def)

lemma read_digits_nonneg: "\<forall>c\<in>set s. is_digit c \<Longrightarrow> 0 \<le> read_digits s"
proof (induction s rule: rev_induct)
  case Nil
  then show ?case by (simp add: read_digits_def)
next
  case (snoc c s)
  then show ?case using digit_val_bounds[of c] by (simp add: read_digits_append)
qed

lemma read_digits_fixed_width: "0 \<le> n \<Longrightarrow> n < 10 ^ w \<Longrightarrow> read_digits (fixed_width w n) = n"
proof (induction w arbitrary: n)
  case 0
  then show ?case by (simp add: read_digits_def)
next
  case (Suc w)
  then have "0 \<le> n div 10" "n div 10 < 10 ^ w"
    by (simp_all add: div_ten_bound pos_imp_zdiv_nonneg_iff)
  with Suc.IH show ?case by (simp add: read_digits_append)
qed

text \<open>A number without leading zeros is its own padding.\<close>

lemma str_int_fixed_width:
  "0 \<le> n \<Longrightarrow> n < 10 ^ Suc k \<Longrightarrow> k = 0 \<or> 10 ^ k \<le> n \<Longrightarrow> str_int n = fixed_width (Suc k) n"
proof (induction k arbitrary: n)
  case 0
  then show ?case by (simp add: str_int.simps[of n])
next
  case (Suc k)
  then have ge: "10 * 10 ^ k \<le> n" by simp
  have "(10::int) * 1 \<le> 10 * 10 ^ k" by (rule mult_left_mono) simp_all
  with ge have "\<not> n < 10" by linarith
  moreover have "str_int (n div 10) = fixed_width (Suc k) (n div 10)"
  proof (rule Suc.IH)
    show "n div 10 < 10 ^ Suc k" using Suc.prems(2) by (simp add: div_ten_bound)
    have "10 ^ k \<le> n div 10" using zdiv_mono1[OF ge, of 10] by simp
    then show "k = 0 \<or> 10 ^ k \<le> n div 10" by simp
  qed (use Suc.prems(1) in \<open>simp add: pos_imp_zdiv_nonneg_iff\<close>)
  ultimately show ?case by (subst str_int.simps) simp
qed

lemma length_str_int: "0 \<le> n \<Longrightarrow> n < 10 ^ k \<Longrightarrow> 0 < k \<Longrightarrow> length (str_int n) \<le> k"
proof (induction k arbitrary: n)
  case (Suc k)
  show ?case
  proof (cases "n < 10")
    case True
    then show ?thesis by (subst str_int.simps) simp
  next
    case False
    with Suc.prems have "0 < k" by (cases k) auto
    with Suc False show ?thesis by (subst str_int.simps) (auto simp: pos_imp_zdiv_nonneg_iff)
  qed
qed simp

end
