(* ===== verification/Timestamp.thy ===== *)
theory Timestamp
  imports Calendar Decimal
begin

text \<open>
  The clock module (\<open>domain/clock.py\<close>): RFC 3339 UTC timestamps with six fractional digits.
  The database stores these strings and the program compares them as strings, so the theory
  proves that on the years 1000 to 9999 they order like the instants they stand for and read
  back to them.  \<open>%Y\<close> prints no leading zeros (glibc), which is where the lower bound comes
  from; the upper bound is \<open>datetime.max\<close>.
\<close>

section \<open>The fields of a datetime\<close>

record datetime =
  dt_year :: int
  dt_month :: int
  dt_day :: int
  dt_hour :: int
  dt_minute :: int
  dt_second :: int
  dt_microsecond :: int

definition day_us :: int where
  "day_us = 86400000000"

definition fields_of :: "instant \<Rightarrow> datetime" where
  "fields_of t =
     (let (y, m, d) = ord2ymd (t div day_us + 1); r = t mod day_us
      in \<lparr>dt_year = y, dt_month = m, dt_day = d,
          dt_hour = r div 3600000000,
          dt_minute = r div 60000000 mod 60,
          dt_second = r div 1000000 mod 60,
          dt_microsecond = r mod 1000000\<rparr>)"

definition instant_of :: "datetime \<Rightarrow> instant" where
  "instant_of dt =
     (ymd2ord (dt_year dt) (dt_month dt) (dt_day dt) - 1) * day_us
     + ((dt_hour dt * 60 + dt_minute dt) * 60 + dt_second dt) * 1000000
     + dt_microsecond dt"

definition valid_time :: "datetime \<Rightarrow> bool" where
  "valid_time dt \<longleftrightarrow>
     0 \<le> dt_hour dt \<and> dt_hour dt < 24 \<and> 0 \<le> dt_minute dt \<and> dt_minute dt < 60
     \<and> 0 \<le> dt_second dt \<and> dt_second dt < 60
     \<and> 0 \<le> dt_microsecond dt \<and> dt_microsecond dt < 1000000"

definition valid_datetime :: "datetime \<Rightarrow> bool" where
  "valid_datetime dt \<longleftrightarrow>
     valid_date (dt_year dt) (dt_month dt) (dt_day dt) \<and> valid_time dt"

lemma fields_of_date:
  "ord2ymd (t div day_us + 1) = (dt_year (fields_of t), dt_month (fields_of t), dt_day (fields_of t))"
  by (simp add: fields_of_def Let_def split: prod.split)

lemma time_parts:
  fixes r :: int
  assumes "0 \<le> r" "r < day_us"
  shows "0 \<le> r div 3600000000" "r div 3600000000 < 24"
    "((r div 3600000000 * 60 + r div 60000000 mod 60) * 60 + r div 1000000 mod 60) * 1000000
      + r mod 1000000 = r"
proof -
  show "0 \<le> r div 3600000000" using assms by (simp add: pos_imp_zdiv_nonneg_iff)
  have "r div 3600000000 \<le> 23"
    by (rule div_bounds(2)[OF assms]) (simp add: day_us_def)
  then show "r div 3600000000 < 24" by simp
  have "r div 60000000 = r div 1000000 div 60" "r div 3600000000 = r div 1000000 div 60 div 60"
    by (simp_all add: zdiv_zmult2_eq[symmetric])
  then show "((r div 3600000000 * 60 + r div 60000000 mod 60) * 60 + r div 1000000 mod 60) * 1000000
      + r mod 1000000 = r" by (simp only: div_mult_mod_eq)
qed

lemma fields_of_time:
  "dt_hour (fields_of t) = t mod day_us div 3600000000"
  "dt_minute (fields_of t) = t mod day_us div 60000000 mod 60"
  "dt_second (fields_of t) = t mod day_us div 1000000 mod 60"
  "dt_microsecond (fields_of t) = t mod day_us mod 1000000"
  unfolding fields_of_def Let_def split_def by (simp_all only: datetime.select_convs)

lemma time_of_day_range: "0 \<le> t mod day_us" "t mod day_us < day_us"
  by (simp_all add: day_us_def)

lemma fields_of_valid: "valid_datetime (fields_of t)"
proof -
  have "valid_date (dt_year (fields_of t)) (dt_month (fields_of t)) (dt_day (fields_of t))"
    using ord2ymd_correct[OF fields_of_date] by blast
  moreover have "valid_time (fields_of t)"
    unfolding valid_time_def fields_of_time
    using time_parts(1,2)[OF time_of_day_range]
    by (intro conjI pos_mod_sign pos_mod_bound) simp_all
  ultimately show ?thesis by (simp add: valid_datetime_def)
qed

lemma instant_of_fields_of [simp]: "instant_of (fields_of t) = t"
proof -
  have "ymd2ord (dt_year (fields_of t)) (dt_month (fields_of t)) (dt_day (fields_of t))
      = t div day_us + 1"
    using ord2ymd_correct[OF fields_of_date] by blast
  moreover note time_parts(3)[OF time_of_day_range, of t]
  ultimately have "instant_of (fields_of t) = t div day_us * day_us + t mod day_us"
    unfolding instant_of_def fields_of_time add.assoc by (simp only: add_diff_cancel_right')
  then show ?thesis by (simp only: div_mult_mod_eq)
qed

section \<open>Order on fields\<close>

fun lex_less :: "int list \<Rightarrow> int list \<Rightarrow> bool" where
  "lex_less (x # xs) (y # ys) \<longleftrightarrow> x < y \<or> x = y \<and> lex_less xs ys"
| "lex_less _ _ \<longleftrightarrow> False"

definition field_list :: "datetime \<Rightarrow> int list" where
  "field_list dt = [dt_year dt, dt_month dt, dt_day dt, dt_hour dt, dt_minute dt,
     dt_second dt, dt_microsecond dt]"

lemma radix_less:
  fixes a b r s k :: int
  assumes "0 \<le> r" "r < k" "0 \<le> s" "s < k"
  shows "a * k + r < b * k + s \<longleftrightarrow> a < b \<or> a = b \<and> r < s"
proof -
  have lt: "x * k + u < y * k + v" if "x < y" "u < k" "0 \<le> v" for x y u v :: int
  proof -
    have "0 \<le> k" using assms by linarith
    have "x * k + u < (x + 1) * k" using that(2) by (simp add: distrib_right)
    also have "\<dots> \<le> y * k" using that(1) \<open>0 \<le> k\<close> by (intro mult_right_mono) simp_all
    finally show ?thesis using that(3) by linarith
  qed
  consider "a < b" | "a = b" | "b < a" by linarith
  then show ?thesis
  proof cases
    case 1
    with lt[of a b r s] assms show ?thesis by simp
  next
    case 2
    then show ?thesis by simp
  next
    case 3
    with lt[of b a s r] assms show ?thesis by simp
  qed
qed

lemma instant_of_less_iff:
  assumes "valid_datetime a" "valid_datetime b"
  shows "instant_of a < instant_of b \<longleftrightarrow> lex_less (field_list a) (field_list b)"
proof -
  define sec_a sec_b where "sec_a = (dt_hour a * 60 + dt_minute a) * 60 + dt_second a"
    and "sec_b = (dt_hour b * 60 + dt_minute b) * 60 + dt_second b"
  have ta: "valid_time a" and tb: "valid_time b"
    using assms by (simp_all add: valid_datetime_def)
  have sec: "0 \<le> sec_a" "sec_a < 86400" "0 \<le> sec_b" "sec_b < 86400"
    using ta tb by (simp_all add: valid_time_def sec_a_def sec_b_def)
  have us: "0 \<le> sec_a * 1000000 + dt_microsecond a" "sec_a * 1000000 + dt_microsecond a < day_us"
      "0 \<le> sec_b * 1000000 + dt_microsecond b" "sec_b * 1000000 + dt_microsecond b < day_us"
    using sec ta tb by (simp_all add: valid_time_def day_us_def)
  have "instant_of a < instant_of b \<longleftrightarrow>
      ymd2ord (dt_year a) (dt_month a) (dt_day a) < ymd2ord (dt_year b) (dt_month b) (dt_day b) \<or>
      ymd2ord (dt_year a) (dt_month a) (dt_day a) = ymd2ord (dt_year b) (dt_month b) (dt_day b) \<and>
      sec_a * 1000000 + dt_microsecond a < sec_b * 1000000 + dt_microsecond b"
    unfolding instant_of_def sec_a_def[symmetric] sec_b_def[symmetric] add.assoc
    by (subst radix_less[OF us]) simp
  moreover have "sec_a * 1000000 + dt_microsecond a < sec_b * 1000000 + dt_microsecond b \<longleftrightarrow>
      lex_less [dt_hour a, dt_minute a, dt_second a, dt_microsecond a]
        [dt_hour b, dt_minute b, dt_second b, dt_microsecond b]"
    using ta tb unfolding sec_a_def sec_b_def valid_time_def
    by (simp only: radix_less lex_less.simps) auto
  ultimately show ?thesis
    using assms ymd2ord_less_iff[of "dt_year a" "dt_month a" "dt_day a" "dt_year b" "dt_month b" "dt_day b"]
      ymd2ord_inject
    by (auto simp: field_list_def valid_datetime_def)
qed

section \<open>Formatting\<close>

text \<open>
  \<open>format_timestamp\<close>: \<open>strftime("%Y-%m-%dT%H:%M:%S.")\<close> followed by six digits of
  microseconds and \<open>Z\<close>.  An instant of the model is always aware and in UTC, so the
  \<open>tzinfo is None\<close> check and \<open>astimezone\<close> have nothing to do.
\<close>

definition two_digits :: "int \<Rightarrow> string" where
  "two_digits n = zero_pad 2 (str_int n)"

definition format_timestamp :: "instant \<Rightarrow> timestamp" where
  "format_timestamp t =
     (let dt = fields_of t
      in str_int (dt_year dt) @ ''-'' @ two_digits (dt_month dt) @ ''-''
         @ two_digits (dt_day dt) @ ''T'' @ two_digits (dt_hour dt) @ '':''
         @ two_digits (dt_minute dt) @ '':'' @ two_digits (dt_second dt) @ ''.''
         @ zero_pad 6 (str_int (dt_microsecond dt)) @ ''Z'')"

definition add_milliseconds :: "instant \<Rightarrow> int \<Rightarrow> instant" where
  "add_milliseconds t ms = t + ms * 1000"

definition representable :: "instant \<Rightarrow> bool" where
  "representable t \<longleftrightarrow> 1000 \<le> dt_year (fields_of t) \<and> dt_year (fields_of t) \<le> 9999"

definition fixed_text :: "datetime \<Rightarrow> string" where
  "fixed_text dt =
     fixed_width 4 (dt_year dt) @ ''-'' @ fixed_width 2 (dt_month dt) @ ''-''
     @ fixed_width 2 (dt_day dt) @ ''T'' @ fixed_width 2 (dt_hour dt) @ '':''
     @ fixed_width 2 (dt_minute dt) @ '':'' @ fixed_width 2 (dt_second dt) @ ''.''
     @ fixed_width 6 (dt_microsecond dt) @ ''Z''"

lemma field_ranges:
  assumes "valid_datetime dt"
  shows "1 \<le> dt_month dt" "dt_month dt \<le> 12" "1 \<le> dt_day dt" "dt_day dt \<le> 31"
    "0 \<le> dt_hour dt" "dt_hour dt \<le> 23" "0 \<le> dt_minute dt" "dt_minute dt \<le> 59"
    "0 \<le> dt_second dt" "dt_second dt \<le> 59"
    "0 \<le> dt_microsecond dt" "dt_microsecond dt \<le> 999999"
  using assms
  by (auto simp: valid_datetime_def valid_date_def valid_time_def month_length_def
      split: if_splits)

lemma two_digits_fixed: "0 \<le> n \<Longrightarrow> n < 100 \<Longrightarrow> two_digits n = fixed_width 2 n"
  by (simp add: two_digits_def zero_pad_str_int)

lemma year_digits:
  assumes "1000 \<le> y" "y \<le> 9999"
  shows "str_int y = fixed_width 4 y"
proof -
  from assms have "str_int y = fixed_width (Suc 3) y" by (intro str_int_fixed_width) simp_all
  also have "Suc 3 = 4" by simp
  finally show ?thesis .
qed

lemma format_fixed:
  assumes "representable t"
  shows "format_timestamp t = fixed_text (fields_of t)"
proof -
  note r = field_ranges[OF fields_of_valid, of t]
  have "str_int (dt_year (fields_of t)) = fixed_width 4 (dt_year (fields_of t))"
    using assms by (intro year_digits) (simp_all add: representable_def)
  moreover have "zero_pad 6 (str_int (dt_microsecond (fields_of t))) =
      fixed_width 6 (dt_microsecond (fields_of t))"
    using r by (intro zero_pad_str_int) simp_all
  ultimately show ?thesis
    using r by (simp add: format_timestamp_def fixed_text_def Let_def two_digits_fixed)
qed

lemma fixed_text_less:
  assumes "valid_datetime a" "valid_datetime b" "1000 \<le> dt_year a" "dt_year a \<le> 9999"
    "1000 \<le> dt_year b" "dt_year b \<le> 9999"
  shows "fixed_text a < fixed_text b \<longleftrightarrow> lex_less (field_list a) (field_list b)"
  using field_ranges[OF assms(1)] field_ranges[OF assms(2)] assms(3-6)
  by (simp add: fixed_text_def field_list_def append_less_append fixed_width_less
      fixed_width_eq)

text \<open>The string order of timestamps is the order of time.\<close>

lemma format_timestamp_less:
  assumes "representable a" "representable b"
  shows "format_timestamp a < format_timestamp b \<longleftrightarrow> a < b"
proof -
  have "format_timestamp a < format_timestamp b \<longleftrightarrow>
      lex_less (field_list (fields_of a)) (field_list (fields_of b))"
    using assms fields_of_valid
    by (simp add: format_fixed fixed_text_less representable_def)
  also have "\<dots> \<longleftrightarrow> instant_of (fields_of a) < instant_of (fields_of b)"
    by (simp only: instant_of_less_iff fields_of_valid)
  finally show ?thesis by simp
qed

end
