(* ===== verification/Strptime.thy ===== *)
theory Strptime
  imports Timestamp
begin

text \<open>
  Python's \<open>datetime.strptime\<close>, as far as the program uses it: a format is a list of
  directives, each directive lists the ways it can consume a prefix of the text in the order
  of the alternatives of \<open>_strptime\<close>'s regular expression, and the first way through the
  whole format is the match.  A match that leaves text over, or fields that are no date,
  raise \<open>ValueError\<close>, here \<^term>\<open>None\<close>.
\<close>

datatype directive =
    Dir_Y | Dir_m | Dir_d | Dir_H | Dir_M | Dir_S | Dir_f | Dir_a | Dir_b
  | Literal char | Blank

definition is_space :: "char \<Rightarrow> bool" where
  "is_space c \<longleftrightarrow> (let n = (of_char c :: int) in
     9 \<le> n \<and> n \<le> 13 \<or> 28 \<le> n \<and> n \<le> 32 \<or> n = 133 \<or> n = 160)"

definition lower :: "char \<Rightarrow> char" where
  "lower c = (let n = (of_char c :: int) in if 65 \<le> n \<and> n \<le> 90 then char_of (n + 32) else c)"

text \<open>Exactly two digits whose value is in a range, or exactly one.\<close>

fun two_digit :: "int \<Rightarrow> int \<Rightarrow> string \<Rightarrow> (int \<times> string) list" where
  "two_digit lo hi (a # b # rest) =
     (if is_digit a \<and> is_digit b \<and> lo \<le> 10 * digit_val a + digit_val b
         \<and> 10 * digit_val a + digit_val b \<le> hi
      then [(10 * digit_val a + digit_val b, rest)] else [])"
| "two_digit lo hi _ = []"

fun one_digit :: "int \<Rightarrow> string \<Rightarrow> (int \<times> string) list" where
  "one_digit lo (a # rest) =
     (if is_digit a \<and> lo \<le> digit_val a then [(digit_val a, rest)] else [])"
| "one_digit lo [] = []"

definition exact_digits :: "nat \<Rightarrow> string \<Rightarrow> string option" where
  "exact_digits k s =
     (if length (take k s) = k \<and> (\<forall>c\<in>set (take k s). is_digit c) then Some (take k s) else None)"

definition digit_run :: "nat \<Rightarrow> string \<Rightarrow> (string \<times> string) list" where
  "digit_run k s = (case exact_digits k s of None \<Rightarrow> [] | Some ds \<Rightarrow> [(ds, drop k s)])"

fun name_index :: "string list \<Rightarrow> int \<Rightarrow> string \<Rightarrow> (int \<times> string) list" where
  "name_index [] i s = []"
| "name_index (n # ns) i s =
     (if map lower (take (length n) s) = n then [(i, drop (length n) s)]
      else name_index ns (i + 1) s)"

definition weekday_names :: "string list" where
  "weekday_names = [''mon'', ''tue'', ''wed'', ''thu'', ''fri'', ''sat'', ''sun'']"

definition month_names :: "string list" where
  "month_names = [''jan'', ''feb'', ''mar'', ''apr'', ''may'', ''jun'', ''jul'', ''aug'',
     ''sep'', ''oct'', ''nov'', ''dec'']"

fun drop_blanks :: "string \<Rightarrow> (int \<times> string) list" where
  "drop_blanks [] = []"
| "drop_blanks (c # s) = (if is_space c then drop_blanks s @ [(0, s)] else [])"

definition fraction :: "string \<Rightarrow> int" where
  "fraction ds = read_digits (ds @ replicate (6 - length ds) (CHR ''0''))"

fun consume :: "directive \<Rightarrow> string \<Rightarrow> (int \<times> string) list" where
  "consume Dir_Y s = map (\<lambda>(ds, r). (read_digits ds, r)) (digit_run 4 s)"
| "consume Dir_m s = two_digit 1 12 s @ one_digit 1 s"
| "consume Dir_d s = two_digit 1 31 s @ one_digit 1 s
     @ (case s of CHR '' '' # s' \<Rightarrow> one_digit 1 s' | _ \<Rightarrow> [])"
| "consume Dir_H s = two_digit 0 23 s @ one_digit 0 s"
| "consume Dir_M s = two_digit 0 59 s @ one_digit 0 s"
| "consume Dir_S s = two_digit 0 61 s @ one_digit 0 s"
| "consume Dir_f s =
     map (\<lambda>(ds, r). (fraction ds, r)) (concat (map (\<lambda>k. digit_run k s) [6, 5, 4, 3, 2, 1]))"
| "consume Dir_a s = name_index weekday_names 0 s"
| "consume Dir_b s = name_index month_names 1 s"
| "consume (Literal c) s =
     (case s of [] \<Rightarrow> [] | x # r \<Rightarrow> if lower x = lower c then [(0, r)] else [])"
| "consume Blank s = drop_blanks s"

type_synonym matched = "(directive \<times> int) list"

fun match_format :: "directive list \<Rightarrow> string \<Rightarrow> (matched \<times> string) list" where
  "match_format [] s = [([], s)]"
| "match_format (d # ds) s =
     concat (map (\<lambda>(v, r). map (\<lambda>(m, r'). ((d, v) # m, r')) (match_format ds r)) (consume d s))"

definition field_or :: "int \<Rightarrow> directive \<Rightarrow> matched \<Rightarrow> int" where
  "field_or v d m = (case map_of m d of None \<Rightarrow> v | Some x \<Rightarrow> x)"

definition datetime_of_match :: "matched \<Rightarrow> datetime" where
  "datetime_of_match m =
     \<lparr>dt_year = field_or 1900 Dir_Y m,
      dt_month = field_or (field_or 1 Dir_m m) Dir_b m,
      dt_day = field_or 1 Dir_d m,
      dt_hour = field_or 0 Dir_H m,
      dt_minute = field_or 0 Dir_M m,
      dt_second = field_or 0 Dir_S m,
      dt_microsecond = field_or 0 Dir_f m\<rparr>"

definition strptime :: "directive list \<Rightarrow> string \<Rightarrow> instant option" where
  "strptime fmt s =
     (case match_format fmt s of
        [] \<Rightarrow> None
      | (m, rest) # _ \<Rightarrow>
          (let dt = datetime_of_match m
           in if rest = [] \<and> 1 \<le> dt_year dt \<and> valid_datetime dt then Some (instant_of dt)
              else None))"

section \<open>Reading timestamps\<close>

definition timestamp_format :: "directive list" where
  "timestamp_format =
     [Dir_Y, Literal (CHR ''-''), Dir_m, Literal (CHR ''-''), Dir_d, Literal (CHR ''T''),
      Dir_H, Literal (CHR '':''), Dir_M, Literal (CHR '':''), Dir_S, Literal (CHR ''.''),
      Dir_f, Literal (CHR ''Z'')]"

definition parse_timestamp :: "timestamp \<Rightarrow> instant option" where
  "parse_timestamp text = strptime timestamp_format text"

subsection \<open>Formatting and reading are inverse\<close>

text \<open>\<open>first_is xs x\<close>: the preferred success of a list of successes is \<open>x\<close>.\<close>

definition first_is :: "'a list \<Rightarrow> 'a \<Rightarrow> bool" where
  "first_is xs x \<longleftrightarrow> (\<exists>ys. xs = x # ys)"

lemma first_is_append: "first_is xs x \<Longrightarrow> first_is (xs @ ys) x"
  by (auto simp: first_is_def)

lemma first_is_match_format:
  assumes "first_is (consume d s) (v, r)" "first_is (match_format ds r) (m, r')"
  shows "first_is (match_format (d # ds) s) ((d, v) # m, r')"
  using assms by (auto simp: first_is_def)

lemma first_is_match_nil: "first_is (match_format [] s) ([], s)"
  by (simp add: first_is_def)

lemma first_is_two_digit:
  assumes "lo \<le> n" "n \<le> hi" "0 \<le> n" "n < 100"
  shows "first_is (two_digit lo hi (fixed_width 2 n @ s)) (n, s)"
proof -
  have "fixed_width 2 n = [digit_char (n div 10 mod 10), digit_char (n mod 10)]"
    by (simp add: numeral_2_eq_2)
  moreover have "n div 10 mod 10 = n div 10"
    using assms(3,4) by (intro mod_pos_pos_trivial) (simp_all add: pos_imp_zdiv_nonneg_iff div_ten_bound)
  then have "10 * (n div 10 mod 10) + n mod 10 = n" by simp
  ultimately show ?thesis using assms by (simp add: first_is_def)
qed

lemma digit_run_fixed: "digit_run w (fixed_width w n @ s) = [(fixed_width w n, s)]"
  by (simp add: digit_run_def exact_digits_def fixed_width_digits)

lemma first_is_fields:
  "0 \<le> y \<Longrightarrow> y \<le> 9999 \<Longrightarrow> first_is (consume Dir_Y (fixed_width 4 y @ s)) (y, s)"
  "1 \<le> n \<Longrightarrow> n \<le> 12 \<Longrightarrow> first_is (consume Dir_m (fixed_width 2 n @ s)) (n, s)"
  "1 \<le> n \<Longrightarrow> n \<le> 31 \<Longrightarrow> first_is (consume Dir_d (fixed_width 2 n @ s)) (n, s)"
  "0 \<le> n \<Longrightarrow> n \<le> 23 \<Longrightarrow> first_is (consume Dir_H (fixed_width 2 n @ s)) (n, s)"
  "0 \<le> n \<Longrightarrow> n \<le> 59 \<Longrightarrow> first_is (consume Dir_M (fixed_width 2 n @ s)) (n, s)"
  "0 \<le> n \<Longrightarrow> n \<le> 59 \<Longrightarrow> first_is (consume Dir_S (fixed_width 2 n @ s)) (n, s)"
  "0 \<le> n \<Longrightarrow> n \<le> 999999 \<Longrightarrow> first_is (consume Dir_f (fixed_width 6 n @ s)) (n, s)"
  "first_is (consume (Literal c) (c # s)) (0, s)"
  using first_is_two_digit[of 1 n 12 s] first_is_two_digit[of 1 n 31 s]
    first_is_two_digit[of 0 n 23 s] first_is_two_digit[of 0 n 59 s]
    first_is_two_digit[of 0 n 61 s]
  by (auto simp: first_is_append digit_run_fixed fraction_def read_digits_fixed_width
      intro!: first_is_append) (simp_all add: first_is_def)

lemma parse_fixed_text:
  assumes "valid_datetime dt" "1000 \<le> dt_year dt" "dt_year dt \<le> 9999"
  shows "parse_timestamp (fixed_text dt) = Some (instant_of dt)"
proof -
  note r = field_ranges[OF assms(1)]
  define m where "m = [(Dir_Y, dt_year dt), (Literal (CHR ''-''), 0), (Dir_m, dt_month dt),
    (Literal (CHR ''-''), 0), (Dir_d, dt_day dt), (Literal (CHR ''T''), 0),
    (Dir_H, dt_hour dt), (Literal (CHR '':''), 0), (Dir_M, dt_minute dt),
    (Literal (CHR '':''), 0), (Dir_S, dt_second dt), (Literal (CHR ''.''), 0),
    (Dir_f, dt_microsecond dt), (Literal (CHR ''Z''), 0)]"
  have "first_is (match_format timestamp_format (fixed_text dt)) (m, [])"
    unfolding timestamp_format_def fixed_text_def m_def append_Cons append_Nil
    by ((rule first_is_match_format, (rule first_is_fields; use r assms(2,3) in simp))+,
        rule first_is_match_nil)
  then have "strptime timestamp_format (fixed_text dt) =
      (let dt' = datetime_of_match m
       in if 1 \<le> dt_year dt' \<and> valid_datetime dt' then Some (instant_of dt') else None)"
    by (auto simp: strptime_def first_is_def)
  moreover have "datetime_of_match m = dt"
    by (simp add: datetime_of_match_def field_or_def m_def)
  ultimately show ?thesis using assms by (simp add: parse_timestamp_def)
qed

lemma parse_format_timestamp:
  assumes "representable t"
  shows "parse_timestamp (format_timestamp t) = Some t"
  using assms fields_of_valid
  by (simp add: format_fixed parse_fixed_text representable_def)

section \<open>What the rest of the program relies on\<close>

text \<open>
  Expiry, eligibility and the gate are compared as text.  The interface such a comparison needs:
  texts read back as the instant they were written from, and their order is the order of time.
\<close>

locale timestamp_codec =
  fixes enc :: "int \<Rightarrow> 'b::linorder" and dec :: "'b \<Rightarrow> int option" and valid :: "int \<Rightarrow> bool"
  assumes dec_enc: "valid t \<Longrightarrow> dec (enc t) = Some t"
    and enc_less: "valid a \<Longrightarrow> valid b \<Longrightarrow> enc a < enc b \<longleftrightarrow> a < b"
begin

lemma enc_eq: "valid a \<Longrightarrow> valid b \<Longrightarrow> enc a = enc b \<longleftrightarrow> a = b"
  using dec_enc by (metis option.inject)

lemma enc_le: "valid a \<Longrightarrow> valid b \<Longrightarrow> enc a \<le> enc b \<longleftrightarrow> a \<le> b"
  using enc_less[of b a] by (simp add: not_less[symmetric])

lemma enc_max: "valid a \<Longrightarrow> valid b \<Longrightarrow> max (enc a) (enc b) = enc (max a b)"
  using enc_le[of a b] by (simp add: max_def)

end

interpretation ts: timestamp_codec format_timestamp parse_timestamp representable
  by unfold_locales (simp_all add: parse_format_timestamp format_timestamp_less)

text \<open>
  C28. Timestamp texts are faithful: for the years 1000 to 9999, \<open>parse_timestamp\<close> reads back what
  \<open>format_timestamp\<close> wrote, and comparing two texts compares the instants.
\<close>

theorem timestamps_faithful:
  assumes "representable a" "representable b"
  shows "parse_timestamp (format_timestamp a) = Some a
    \<and> (format_timestamp a < format_timestamp b \<longleftrightarrow> a < b)
    \<and> (format_timestamp a = format_timestamp b \<longleftrightarrow> a = b)"
  using assms ts.dec_enc ts.enc_less ts.enc_eq by blast

lemma witness_timestamps_faithful:
  "parse_timestamp (format_timestamp 63000000000000000) = Some 63000000000000000
    \<and> format_timestamp 63000000000000000 < format_timestamp 63000000000000001"
proof -
  have "representable 63000000000000000" "representable 63000000000000001" by code_simp+
  from timestamps_faithful[OF this] show ?thesis by simp
qed

end
