(* ===== verification/Policies.thy ===== *)
theory Policies
  imports Strptime
begin

text \<open>
  The pure rules of \<open>domain/\<close>: full-jitter backoff (\<open>backoff.py\<close>), the \<open>Retry-After\<close>
  grammar (\<open>retry_after.py\<close>) and the idempotency-key grammar (\<open>idempotency_key.py\<close>).
\<close>

section \<open>Backoff\<close>

definition MAX_CAP_MS :: int where
  "MAX_CAP_MS = 30000"

definition BASE_DELAY_MS :: int where
  "BASE_DELAY_MS = 500"

definition backoff_cap_ms :: "int \<Rightarrow> int" where
  "backoff_cap_ms request_ordinal =
     min MAX_CAP_MS (BASE_DELAY_MS * 2 ^ nat (request_ordinal - 1))"

text \<open>\<open>randint\<close> is the injected random source: \<open>randint lo hi\<close> is its next draw.\<close>

definition policy_delay_ms :: "int \<Rightarrow> (int \<Rightarrow> int \<Rightarrow> int) \<Rightarrow> int" where
  "policy_delay_ms request_ordinal randint = randint 0 (backoff_cap_ms request_ordinal)"

definition effective_delay_ms :: "int \<Rightarrow> int option \<Rightarrow> int" where
  "effective_delay_ms policy_ms server_ms =
     (case server_ms of None \<Rightarrow> policy_ms | Some s \<Rightarrow> max policy_ms s)"

lemma backoff_cap_bounds: "500 \<le> backoff_cap_ms n" "backoff_cap_ms n \<le> 30000"
  by (simp_all add: backoff_cap_ms_def MAX_CAP_MS_def BASE_DELAY_MS_def)

lemma backoff_cap_mono: "m \<le> n \<Longrightarrow> backoff_cap_ms m \<le> backoff_cap_ms n"
  by (auto simp: backoff_cap_ms_def MAX_CAP_MS_def BASE_DELAY_MS_def min_le_iff_disj
      intro!: power_increasing nat_mono)

section \<open>Retry-After\<close>

definition MAX_SERVER_DELAY_MS :: int where
  "MAX_SERVER_DELAY_MS = 3600000"

datatype retry_after_diagnostic =
    Retry_after_missing | Retry_after_repeated | Retry_after_negative
  | Retry_after_malformed | Retry_after_elapsed | Retry_after_too_large

datatype retry_after_result =
    RetryAfterAccepted int
  | RetryAfterRejected retry_after_diagnostic

definition strip :: "string \<Rightarrow> string" where
  "strip s = rev (dropWhile is_space (rev (dropWhile is_space s)))"

text \<open>\<open>[0-9]+\<close> and \<open>-[0-9]+\<close>, matched against the whole value.\<close>

definition is_delta_seconds :: "string \<Rightarrow> bool" where
  "is_delta_seconds s \<longleftrightarrow> s \<noteq> [] \<and> (\<forall>c\<in>set s. is_digit c)"

definition is_negative_delta :: "string \<Rightarrow> bool" where
  "is_negative_delta s = (case s of [] \<Rightarrow> False | c # cs \<Rightarrow> c = CHR ''-'' \<and> is_delta_seconds cs)"

text \<open>
  \<open>int(value)\<close>: since 3.11 CPython refuses to convert a decimal string of more than 4300
  digits and raises \<open>ValueError\<close>.
\<close>

definition INT_MAX_STR_DIGITS :: int where
  "INT_MAX_STR_DIGITS = 4300"

definition int_of_str :: "string \<Rightarrow> exn + int" where
  "int_of_str s =
     (if INT_MAX_STR_DIGITS < int (length s) then Inl ValueError else Inr (read_digits s))"

definition accept_delay_ms :: "int \<Rightarrow> retry_after_result" where
  "accept_delay_ms delay_ms =
     (if delay_ms > MAX_SERVER_DELAY_MS then RetryAfterRejected Retry_after_too_large
      else RetryAfterAccepted delay_ms)"

subsection \<open>Binary64 arithmetic of the date branch\<close>

text \<open>
  \<open>(parsed - now).total_seconds()\<close> divides the microseconds by one million and \<open>* 1000\<close>
  multiplies, both rounded to the nearest double, ties to even.  \<open>round_double p q\<close> is the
  double nearest to the positive rational \<open>p / q\<close>, as a fraction; the magnitudes here (at most
  10000 years, at least a microsecond) are normal doubles.
\<close>

function bit_length :: "int \<Rightarrow> int" where
  "bit_length n = (if n \<le> 0 then 0 else 1 + bit_length (n div 2))"
  by pat_completeness auto
termination
  by (relation "measure nat") auto

declare bit_length.simps [simp del]

definition round_div_even :: "int \<Rightarrow> int \<Rightarrow> int" where
  "round_div_even p q =
     (let m = p div q; r = p mod q
      in if 2 * r > q \<or> 2 * r = q \<and> odd m then m + 1 else m)"

text \<open>The exponent puts the quotient between \<open>2 ^ 52\<close> and \<open>2 ^ 53\<close>.\<close>

definition double_exponent :: "int \<Rightarrow> int \<Rightarrow> int" where
  "double_exponent p q =
     (if 0 < p div q then bit_length (p div q) - 53
      else (let e = bit_length p - bit_length q - 52
            in if p * 2 ^ nat (- e) div q < 2 ^ 52 then e - 1 else e))"

definition round_double :: "int \<Rightarrow> int \<Rightarrow> int \<times> int" where
  "round_double p q =
     (let e = double_exponent p q
      in if 0 \<le> e then (round_div_even p (q * 2 ^ nat e) * 2 ^ nat e, 1)
         else (round_div_even (p * 2 ^ nat (- e)) q, 2 ^ nat (- e)))"

text \<open>\<open>math.ceil\<close> of the fraction \<open>p / q\<close>.\<close>

definition ceil_div :: "int \<Rightarrow> int \<Rightarrow> int" where
  "ceil_div p q = (p + q - 1) div q"

definition ceil_milliseconds :: "int \<Rightarrow> int" where
  "ceil_milliseconds delta_us =
     (let (p, q) = round_double delta_us 1000000;
          (p', q') = round_double (p * 1000) q
      in ceil_div p' q')"

lemma round_div_even_nonneg: "0 \<le> p \<Longrightarrow> 0 < q \<Longrightarrow> 0 \<le> round_div_even p q"
  by (simp add: round_div_even_def Let_def pos_imp_zdiv_nonneg_iff)

lemma round_double_nonneg:
  "0 \<le> p \<Longrightarrow> 0 < q \<Longrightarrow> round_double p q = (p', q') \<Longrightarrow> 0 \<le> p' \<and> 0 < q'"
  by (auto simp: round_double_def Let_def round_div_even_nonneg split: if_splits)

lemma ceil_milliseconds_nonneg:
  assumes "0 \<le> d"
  shows "0 \<le> ceil_milliseconds d"
proof -
  obtain p q where r: "round_double d 1000000 = (p, q)" by fastforce
  then have pq: "0 \<le> p * 1000" "0 < q" using round_double_nonneg[OF assms _ r] by simp_all
  obtain p' q' where r': "round_double (p * 1000) q = (p', q')" by fastforce
  then have "0 \<le> p'" "0 < q'" using round_double_nonneg[OF pq r'] by simp_all
  then show ?thesis using r r'
    by (simp add: ceil_milliseconds_def ceil_div_def pos_imp_zdiv_nonneg_iff)
qed

definition imf_fixdate_format :: "directive list" where
  "imf_fixdate_format =
     [Dir_a, Literal (CHR '',''), Blank, Dir_d, Blank, Dir_b, Blank, Dir_Y, Blank,
      Dir_H, Literal (CHR '':''), Dir_M, Literal (CHR '':''), Dir_S, Blank,
      Literal (CHR ''G''), Literal (CHR ''M''), Literal (CHR ''T'')]"

definition parse_imf_fixdate :: "string \<Rightarrow> instant \<Rightarrow> retry_after_result" where
  "parse_imf_fixdate value now =
     (case strptime imf_fixdate_format value of
        None \<Rightarrow> RetryAfterRejected Retry_after_malformed
      | Some parsed \<Rightarrow>
          (let delta = parsed - now
           in if delta \<le> 0 then RetryAfterRejected Retry_after_elapsed
              else accept_delay_ms (ceil_milliseconds delta)))"

definition parse_retry_after :: "string list \<Rightarrow> instant \<Rightarrow> exn + retry_after_result" where
  "parse_retry_after raw_values now =
     (case raw_values of
        [] \<Rightarrow> Inr (RetryAfterRejected Retry_after_missing)
      | _ # _ # _ \<Rightarrow> Inr (RetryAfterRejected Retry_after_repeated)
      | [raw] \<Rightarrow>
          (let value = strip raw
           in if is_negative_delta value then Inr (RetryAfterRejected Retry_after_negative)
              else if is_delta_seconds value then
                (case int_of_str value of
                   Inl e \<Rightarrow> Inl e
                 | Inr n \<Rightarrow> Inr (accept_delay_ms (n * 1000)))
              else Inr (parse_imf_fixdate value now)))"

lemma accept_delay_msD:
  "accept_delay_ms d = RetryAfterAccepted ms \<Longrightarrow> ms = d \<and> ms \<le> 3600000"
  by (auto simp: accept_delay_ms_def MAX_SERVER_DELAY_MS_def split: if_splits)

lemma parse_retry_after_single:
  "parse_retry_after [raw] now =
     (if is_negative_delta (strip raw) then Inr (RetryAfterRejected Retry_after_negative)
      else if is_delta_seconds (strip raw) then
        (if 4300 < int (length (strip raw)) then Inl ValueError
         else Inr (accept_delay_ms (read_digits (strip raw) * 1000)))
      else Inr (parse_imf_fixdate (strip raw) now))"
  by (simp add: parse_retry_after_def int_of_str_def INT_MAX_STR_DIGITS_def Let_def)

lemma parse_imf_fixdate_accepted:
  "parse_imf_fixdate v now = RetryAfterAccepted ms \<Longrightarrow> 0 \<le> ms \<and> ms \<le> 3600000"
  by (auto simp: parse_imf_fixdate_def Let_def split: option.splits if_splits
      dest!: accept_delay_msD intro: ceil_milliseconds_nonneg)

lemma parse_retry_after_accepted:
  assumes "parse_retry_after vs now = Inr (RetryAfterAccepted ms)"
  shows "length vs = 1 \<and> 0 \<le> ms \<and> ms \<le> 3600000"
proof -
  from assms obtain raw where vs: "vs = [raw]"
    by (auto simp: parse_retry_after_def split: list.splits)
  with assms show ?thesis
    by (auto simp: parse_retry_after_single is_delta_seconds_def read_digits_nonneg
        split: if_splits dest!: accept_delay_msD parse_imf_fixdate_accepted)
qed

lemma negative_delta_not_delta: "is_negative_delta s \<Longrightarrow> \<not> is_delta_seconds s"
  by (cases s) (auto simp: is_negative_delta_def is_delta_seconds_def is_digit_def)

lemma parse_retry_after_ValueError:
  "parse_retry_after vs now = Inl e \<longleftrightarrow>
     e = ValueError \<and> (\<exists>raw. vs = [raw] \<and> is_delta_seconds (strip raw) \<and> 4300 < int (length (strip raw)))"
proof -
  consider "vs = []" | raw where "vs = [raw]" | a b cs where "vs = a # b # cs"
    by (metis list.exhaust)
  then show ?thesis
  proof cases
    case 2
    with negative_delta_not_delta[of "strip raw"] show ?thesis
      by (auto simp: parse_retry_after_single)
  qed (simp_all add: parse_retry_after_def)
qed

section \<open>Idempotency keys\<close>

definition is_key_char :: "char \<Rightarrow> bool" where
  "is_key_char c \<longleftrightarrow>
     (let n = (of_char c :: int)
      in 65 \<le> n \<and> n \<le> 90 \<or> 97 \<le> n \<and> n \<le> 122 \<or> 48 \<le> n \<and> n \<le> 57
         \<or> c \<in> {CHR ''.'', CHR ''_'', CHR ''~'', CHR ''-''})"

definition is_accepted_key :: "string \<Rightarrow> bool" where
  "is_accepted_key value \<longleftrightarrow>
     1 \<le> length value \<and> length value \<le> 128 \<and> (\<forall>c\<in>set value. is_key_char c)"

text \<open>\<open>generate_key\<close>: \<open>token_hex(16)\<close> is 32 lower-case hexadecimal digits, here the argument.\<close>

definition generate_key :: "string \<Rightarrow> string" where
  "generate_key token_hex = ''job_'' @ token_hex"

definition is_token_hex :: "string \<Rightarrow> bool" where
  "is_token_hex s \<longleftrightarrow> length s = 32 \<and> (\<forall>c\<in>set s. is_digit c \<or> c \<in> set ''abcdef'')"

lemma is_key_char_digit: "is_digit c \<Longrightarrow> is_key_char c"
  by (simp add: is_digit_def is_key_char_def Let_def)

lemma is_key_char_constants:
  "list_all is_key_char ''abcdef''" "list_all is_key_char ''job_''"
  by code_simp+

lemma generate_key_accepted:
  assumes "is_token_hex s"
  shows "is_accepted_key (generate_key s)"
proof -
  have "\<forall>c\<in>set s. is_key_char c"
    using assms is_key_char_constants(1) is_key_char_digit
    unfolding is_token_hex_def list_all_iff by blast
  moreover have "\<forall>c\<in>set ''job_''. is_key_char c"
    using is_key_char_constants(2) unfolding list_all_iff .
  ultimately have "\<forall>c\<in>set (''job_'' @ s). is_key_char c"
    unfolding set_append by blast
  then show ?thesis
    using assms unfolding is_accepted_key_def generate_key_def is_token_hex_def by simp
qed

end
