(* ===== verification/Store.thy ===== *)
theory Store
  imports Policies
begin

text \<open>
  The database: the four tables of \<open>persistence/schema.py\<close>, their constraints, and the SQL
  statements of \<open>persistence/transactions.py\<close> and \<open>persistence/rate_limit_gate.py\<close> as
  functions on a \<open>database\<close>.  A table is the list of its rows in insertion order.  A statement
  that violates a constraint returns the \<^typ>\<open>violation\<close> SQLite reports: CHECK constraints
  first, then the unique indexes from the newest to the oldest, then the foreign keys.
\<close>

section \<open>Rows\<close>

datatype job_state =
    PENDING | SUBMITTING | RETRY_SCHEDULED | SUCCEEDED | FAILED_PERMANENT | AMBIGUOUS
  | Other_job_state string

datatype attempt_state =
    A_STARTED | A_SUCCEEDED | A_RETRYABLE_FAILURE | A_PERMANENT_FAILURE | A_AMBIGUOUS
  | Other_attempt_state string

datatype request_operation = SUBMISSION | RECONCILIATION

datatype certainty = NOT_SENT | MAYBE_SENT

record job_row =
  job_id :: string
  idempotency_key :: string
  payload_canonical :: payload
  jstate :: job_state
  created_at :: timestamp
  updated_at :: timestamp

record attempt_row =
  attempt_id :: string
  attempt_job_id :: string
  attempt_number :: int
  astate :: attempt_state
  started_at :: timestamp
  completed_at :: "timestamp option"
  http_status :: "int option"
  remote_request_id :: "string option"
  error_category :: "string option"
  retry_after_ms :: "int option"
  owner_token :: "string option"
  fencing_generation :: int
  lease_expires_at :: "timestamp option"

record observation_row =
  observation_id :: string
  observed_attempt_id :: string
  sequence_id :: string
  sequence_number :: int
  operation :: request_operation
  request_ordinal :: int
  observed_at :: timestamp
  dispatch_certainty :: "certainty option"
  evidence_category :: "string option"
  observed_http_status :: "int option"
  observed_remote_request_id :: "string option"
  observed_retry_after_ms :: "int option"
  retry_after_diagnostic :: "retry_after_diagnostic option"
  observed_fencing_generation :: int
  is_late :: bool
  consumed_at :: "timestamp option"

record gate_row =
  not_before :: timestamp
  gate_updated_at :: timestamp

text \<open>The gate table has at most the row with \<open>singleton_id = 1\<close>.\<close>

record database =
  jobs :: "job_row list"
  submission_attempts :: "attempt_row list"
  attempt_observations :: "observation_row list"
  service_rate_limit_gate :: "gate_row option"

text \<open>The database \<open>ensure_schema\<close> creates.\<close>

definition empty_database :: database where
  "empty_database = \<lparr>jobs = [], submission_attempts = [], attempt_observations = [],
     service_rate_limit_gate = None\<rparr>"

section \<open>CHECK constraints\<close>

definition job_checks :: "job_row \<Rightarrow> bool" where
  "job_checks r \<longleftrightarrow>
     jstate r \<in> {PENDING, SUBMITTING, RETRY_SCHEDULED, SUCCEEDED, FAILED_PERMANENT, AMBIGUOUS}
     \<and> int (length (payload_canonical r)) \<le> 1048576
     \<and> updated_at r \<ge> created_at r"

definition attempt_checks :: "attempt_row \<Rightarrow> bool" where
  "attempt_checks r \<longleftrightarrow>
     attempt_number r > 0
     \<and> astate r \<in> {A_STARTED, A_SUCCEEDED, A_RETRYABLE_FAILURE, A_PERMANENT_FAILURE, A_AMBIGUOUS}
     \<and> (case retry_after_ms r of None \<Rightarrow> True | Some ms \<Rightarrow> ms \<ge> 0)
     \<and> fencing_generation r > 0
     \<and> (astate r = A_STARTED \<and> completed_at r = None
          \<and> owner_token r \<noteq> None \<and> lease_expires_at r \<noteq> None
        \<or> astate r \<noteq> A_STARTED \<and> completed_at r \<noteq> None
          \<and> owner_token r = None \<and> lease_expires_at r = None)
     \<and> (case completed_at r of None \<Rightarrow> True | Some t \<Rightarrow> t \<ge> started_at r)"

definition observation_checks :: "observation_row \<Rightarrow> bool" where
  "observation_checks r \<longleftrightarrow>
     sequence_number r > 0
     \<and> request_ordinal r > 0
     \<and> (case observed_http_status r of None \<Rightarrow> True | Some s \<Rightarrow> 100 \<le> s \<and> s \<le> 599)
     \<and> (case observed_retry_after_ms r of None \<Rightarrow> True | Some ms \<Rightarrow> ms \<ge> 0)
     \<and> observed_fencing_generation r > 0"

section \<open>Statements\<close>

text \<open>Single-row results of \<open>SELECT ... WHERE <unique column> = ?\<close>.\<close>

definition find_job_by_key :: "database \<Rightarrow> string \<Rightarrow> job_row option" where
  "find_job_by_key d key = find_first (\<lambda>r. idempotency_key r = key) (jobs d)"

definition select_job :: "database \<Rightarrow> string \<Rightarrow> job_row option" where
  "select_job d jid = find_first (\<lambda>r. job_id r = jid) (jobs d)"

definition select_attempt :: "database \<Rightarrow> string \<Rightarrow> attempt_row option" where
  "select_attempt d aid = find_first (\<lambda>r. attempt_id r = aid) (submission_attempts d)"

definition attempts_of :: "database \<Rightarrow> string \<Rightarrow> attempt_row list" where
  "attempts_of d jid = filter (\<lambda>r. attempt_job_id r = jid) (submission_attempts d)"

text \<open>\<open>ORDER BY attempt_number DESC LIMIT 1\<close>.\<close>

fun latest_of :: "attempt_row list \<Rightarrow> attempt_row option" where
  "latest_of [] = None"
| "latest_of (r # rs) =
     (case latest_of rs of
        None \<Rightarrow> Some r
      | Some s \<Rightarrow> if attempt_number r < attempt_number s then Some s else Some r)"

definition select_latest_attempt :: "database \<Rightarrow> string \<Rightarrow> attempt_row option" where
  "select_latest_attempt d jid = latest_of (attempts_of d jid)"

definition find_successful_attempt :: "database \<Rightarrow> string \<Rightarrow> attempt_row option" where
  "find_successful_attempt d jid =
     (case filter (\<lambda>r. attempt_job_id r = jid \<and> astate r = A_SUCCEEDED) (submission_attempts d) of
        [r] \<Rightarrow> Some r
      | _ \<Rightarrow> None)"

text \<open>\<open>SELECT COALESCE(MAX(sequence_number), 0) + 1\<close>; every stored number is positive.\<close>

definition next_sequence_number :: "database \<Rightarrow> string \<Rightarrow> int" where
  "next_sequence_number d aid =
     foldr max (map sequence_number
       (filter (\<lambda>r. observed_attempt_id r = aid) (attempt_observations d))) 0 + 1"

definition read_gate_not_before :: "database \<Rightarrow> timestamp option" where
  "read_gate_not_before d = map_option not_before (service_rate_limit_gate d)"

definition advance_gate :: "timestamp \<Rightarrow> timestamp \<Rightarrow> database \<Rightarrow> database" where
  "advance_gate candidate now d =
     d\<lparr>service_rate_limit_gate := Some
        \<lparr>not_before = (case service_rate_limit_gate d of
            None \<Rightarrow> candidate
          | Some g \<Rightarrow> max (not_before g) candidate),
         gate_updated_at = now\<rparr>\<rparr>"

definition insert_job_row :: "job_row \<Rightarrow> database \<Rightarrow> violation + database" where
  "insert_job_row r d =
     (if \<not> job_checks r then Inl Check_failed
      else if idempotency_key r \<in> set (map idempotency_key (jobs d))
        then Inl Unique_jobs_idempotency_key
      else if job_id r \<in> set (map job_id (jobs d)) then Inl Unique_jobs_job_id
      else Inr (d\<lparr>jobs := jobs d @ [r]\<rparr>))"

definition insert_attempt_row :: "attempt_row \<Rightarrow> database \<Rightarrow> violation + database" where
  "insert_attempt_row r d =
     (if \<not> attempt_checks r then Inl Check_failed
      else if astate r = A_STARTED
          \<and> list_ex (\<lambda>s. astate s = A_STARTED \<and> attempt_job_id s = attempt_job_id r)
              (submission_attempts d) then Inl Unique_one_started
      else if list_ex (\<lambda>s. attempt_job_id s = attempt_job_id r
              \<and> attempt_number s = attempt_number r) (submission_attempts d)
        then Inl Unique_attempts_job_number
      else if attempt_id r \<in> set (map attempt_id (submission_attempts d))
        then Inl Unique_attempts_attempt_id
      else if attempt_job_id r \<notin> set (map job_id (jobs d)) then Inl Foreign_key_failed
      else Inr (d\<lparr>submission_attempts := submission_attempts d @ [r]\<rparr>))"

definition insert_observation_row :: "observation_row \<Rightarrow> database \<Rightarrow> violation + database" where
  "insert_observation_row r d =
     (if \<not> observation_checks r then Inl Check_failed
      else if list_ex (\<lambda>s. sequence_id s = sequence_id r
              \<and> request_ordinal s = request_ordinal r) (attempt_observations d)
        then Inl Unique_obs_sequence_ordinal
      else if list_ex (\<lambda>s. observed_attempt_id s = observed_attempt_id r
              \<and> sequence_number s = sequence_number r) (attempt_observations d)
        then Inl Unique_obs_attempt_sequence
      else if observation_id r \<in> set (map observation_id (attempt_observations d))
        then Inl Unique_obs_observation_id
      else if observed_attempt_id r \<notin> set (map attempt_id (submission_attempts d))
        then Inl Foreign_key_failed
      else Inr (d\<lparr>attempt_observations := attempt_observations d @ [r]\<rparr>))"

text \<open>
  \<open>UPDATE ... WHERE <primary key> = ?\<close>.  No statement of the program writes a key column or
  moves a row into the partial index of \<open>STARTED\<close> rows, so only a CHECK can fail.
\<close>

definition update_job :: "string \<Rightarrow> (job_row \<Rightarrow> job_row) \<Rightarrow> database \<Rightarrow> violation + database" where
  "update_job jid f d =
     (if list_ex (\<lambda>r. job_id r = jid \<and> \<not> job_checks (f r)) (jobs d) then Inl Check_failed
      else Inr (d\<lparr>jobs := map (\<lambda>r. if job_id r = jid then f r else r) (jobs d)\<rparr>))"

definition update_attempt ::
  "string \<Rightarrow> (attempt_row \<Rightarrow> attempt_row) \<Rightarrow> database \<Rightarrow> violation + database" where
  "update_attempt aid f d =
     (if list_ex (\<lambda>r. attempt_id r = aid \<and> \<not> attempt_checks (f r)) (submission_attempts d)
      then Inl Check_failed
      else Inr (d\<lparr>submission_attempts :=
        map (\<lambda>r. if attempt_id r = aid then f r else r) (submission_attempts d)\<rparr>))"

definition update_observation ::
  "string \<Rightarrow> (observation_row \<Rightarrow> observation_row) \<Rightarrow> database \<Rightarrow> database" where
  "update_observation oid f d =
     d\<lparr>attempt_observations :=
        map (\<lambda>r. if observation_id r = oid then f r else r) (attempt_observations d)\<rparr>"

text \<open>\<open>UPDATE jobs SET state = ?, updated_at = ?\<close>.\<close>

definition with_job_state :: "job_state \<Rightarrow> timestamp \<Rightarrow> job_row \<Rightarrow> job_row" where
  "with_job_state s now r = r\<lparr>jstate := s, updated_at := now\<rparr>"

text \<open>The row updates of the statements that end an attempt, renew a lease or claim it.\<close>

definition with_success :: "timestamp \<Rightarrow> int option \<Rightarrow> string option \<Rightarrow> attempt_row \<Rightarrow> attempt_row" where
  "with_success now status rid r =
     r\<lparr>astate := A_SUCCEEDED, completed_at := Some now, http_status := status,
       remote_request_id := rid, owner_token := None, lease_expires_at := None\<rparr>"

definition with_permanent :: "timestamp \<Rightarrow> int option \<Rightarrow> string option \<Rightarrow> attempt_row \<Rightarrow> attempt_row" where
  "with_permanent now status cat r =
     r\<lparr>astate := A_PERMANENT_FAILURE, completed_at := Some now, http_status := status,
       error_category := cat, owner_token := None, lease_expires_at := None\<rparr>"

definition with_conflict :: "timestamp \<Rightarrow> attempt_row \<Rightarrow> attempt_row" where
  "with_conflict now r =
     r\<lparr>astate := A_PERMANENT_FAILURE, completed_at := Some now,
       error_category := Some ''idempotency_conflict'', owner_token := None,
       lease_expires_at := None\<rparr>"

definition with_retryable ::
  "timestamp \<Rightarrow> int option \<Rightarrow> string option \<Rightarrow> int \<Rightarrow> attempt_row \<Rightarrow> attempt_row" where
  "with_retryable now status cat delay r =
     r\<lparr>astate := A_RETRYABLE_FAILURE, completed_at := Some now, http_status := status,
       error_category := cat, retry_after_ms := Some delay, owner_token := None,
       lease_expires_at := None\<rparr>"

definition with_ambiguous :: "timestamp \<Rightarrow> string \<Rightarrow> attempt_row \<Rightarrow> attempt_row" where
  "with_ambiguous now cat r =
     r\<lparr>astate := A_AMBIGUOUS, completed_at := Some now, error_category := Some cat,
       owner_token := None, lease_expires_at := None\<rparr>"

definition with_lease :: "timestamp \<Rightarrow> attempt_row \<Rightarrow> attempt_row" where
  "with_lease expires r = r\<lparr>lease_expires_at := Some expires\<rparr>"

definition with_claim :: "string \<Rightarrow> int \<Rightarrow> timestamp \<Rightarrow> attempt_row \<Rightarrow> attempt_row" where
  "with_claim token gen expires r =
     r\<lparr>owner_token := Some token, fencing_generation := gen, lease_expires_at := Some expires\<rparr>"

definition with_consumed :: "timestamp \<Rightarrow> observation_row \<Rightarrow> observation_row" where
  "with_consumed now r = r\<lparr>consumed_at := Some now\<rparr>"

text \<open>Which column names an \<open>IntegrityError\<close> message contains.\<close>

definition mentions_job_id :: "violation \<Rightarrow> bool" where
  "mentions_job_id v \<longleftrightarrow> v = Unique_jobs_job_id"

definition mentions_attempt_id :: "violation \<Rightarrow> bool" where
  "mentions_attempt_id v \<longleftrightarrow>
     v = Unique_attempts_attempt_id \<or> v = Unique_obs_attempt_sequence"

definition mentions_observation_id :: "violation \<Rightarrow> bool" where
  "mentions_observation_id v \<longleftrightarrow> v = Unique_obs_observation_id"

definition mentions_sequence_id :: "violation \<Rightarrow> bool" where
  "mentions_sequence_id v \<longleftrightarrow> v = Unique_obs_sequence_ordinal"

end
