(* ===== verification/Outcomes.thy ===== *)
theory Outcomes
  imports Store
begin

text \<open>
  What an HTTP adapter reports (\<open>external/client.py\<close>, \<open>external/reconcile.py\<close>) and how
  \<open>application/classification.py\<close> turns it into the evidence the durable state machine acts on.
\<close>

section \<open>Adapter outcomes\<close>

text \<open>
  The \<open>SubmitHttpOutcome\<close> and \<open>ReconcileHttpOutcome\<close> unions, their constructors named after
  the source's classes.  The \<open>reason\<close> texts are only rendered and are left out.
\<close>

datatype submit_http_outcome =
    SubmitHttpSuccess (success_status: int) (success_rid: string)
  | SubmitHttpValidationRejected
  | SubmitHttpIdempotencyConflict
  | SubmitHttpRateLimited (rate_limited_values: "string list")
  | SubmitHttpServerError (server_error_status: int)
  | SubmitHttpProtocolUncertain
  | SubmitHttpTransportFailure (dispatch_may_have_begun: bool)

datatype reconcile_http_outcome =
    ReconcileMatch int string
  | ReconcileConflict
  | ReconcileNotFound
  | ReconcileRateLimited "string list"
  | ReconcileServerError int
  | ReconcileProtocolUncertain
  | ReconcileTransportFailure

text \<open>\<open>getattr(outcome, "http_status", None)\<close> and the match's remote request id.\<close>

fun reconcile_http_status :: "reconcile_http_outcome \<Rightarrow> int option" where
  "reconcile_http_status (ReconcileMatch s _) = Some s"
| "reconcile_http_status ReconcileConflict = Some 200"
| "reconcile_http_status ReconcileNotFound = Some 404"
| "reconcile_http_status (ReconcileRateLimited _) = Some 429"
| "reconcile_http_status (ReconcileServerError s) = Some s"
| "reconcile_http_status ReconcileProtocolUncertain = None"
| "reconcile_http_status ReconcileTransportFailure = None"

fun reconcile_remote_request_id :: "reconcile_http_outcome \<Rightarrow> string option" where
  "reconcile_remote_request_id (ReconcileMatch _ rid) = Some rid"
| "reconcile_remote_request_id _ = None"

section \<open>Evidence\<close>

datatype submission_disposition =
  Succeeded | Permanent_failure | Retryable_failure | Retained

record submission_evidence =
  disposition :: submission_disposition
  ev_http_status :: "int option"
  ev_remote_request_id :: "string option"
  ev_error_category :: "string option"
  retry_after_values :: "string list"

datatype reconciliation_disposition = Matched | Conflict | Not_found | Retryable

record reconciliation_evidence =
  rdisposition :: reconciliation_disposition
  rev_error_category :: "string option"
  rev_retry_after_values :: "string list"

definition evidence ::
  "submission_disposition \<Rightarrow> int option \<Rightarrow> string option \<Rightarrow> string option \<Rightarrow> string list
   \<Rightarrow> submission_evidence" where
  "evidence disp status rid cat vals =
     \<lparr>disposition = disp, ev_http_status = status, ev_remote_request_id = rid,
      ev_error_category = cat, retry_after_values = vals\<rparr>"

fun classify_submission_outcome :: "submit_http_outcome \<Rightarrow> submission_evidence" where
  "classify_submission_outcome (SubmitHttpSuccess status rid) =
     evidence Succeeded (Some status) (Some rid) None []"
| "classify_submission_outcome SubmitHttpValidationRejected =
     evidence Permanent_failure (Some 400) None (Some ''validation_rejected'') []"
| "classify_submission_outcome SubmitHttpIdempotencyConflict =
     evidence Permanent_failure (Some 409) None (Some ''idempotency_conflict'') []"
| "classify_submission_outcome (SubmitHttpRateLimited vals) =
     evidence Retryable_failure (Some 429) None (Some ''rate_limited'') vals"
| "classify_submission_outcome (SubmitHttpTransportFailure may_have_begun) =
     (if \<not> may_have_begun
      then evidence Retryable_failure None None (Some ''transport_not_sent'') []
      else evidence Retained None None (Some ''transport_maybe_sent'') [])"
| "classify_submission_outcome (SubmitHttpServerError status) =
     evidence Retained (Some status) None (Some ''server_uncertain'') []"
| "classify_submission_outcome SubmitHttpProtocolUncertain =
     evidence Retained None None (Some ''protocol_uncertain'') []"

definition reconciliation_evidence_of ::
  "reconciliation_disposition \<Rightarrow> string option \<Rightarrow> string list \<Rightarrow> reconciliation_evidence" where
  "reconciliation_evidence_of disp cat vals =
     \<lparr>rdisposition = disp, rev_error_category = cat, rev_retry_after_values = vals\<rparr>"

fun classify_reconciliation_outcome :: "reconcile_http_outcome \<Rightarrow> reconciliation_evidence" where
  "classify_reconciliation_outcome (ReconcileMatch _ _) =
     reconciliation_evidence_of Matched None []"
| "classify_reconciliation_outcome ReconcileConflict =
     reconciliation_evidence_of Conflict (Some ''idempotency_conflict'') []"
| "classify_reconciliation_outcome ReconcileNotFound =
     reconciliation_evidence_of Not_found (Some ''reconciliation_not_found'') []"
| "classify_reconciliation_outcome (ReconcileRateLimited vals) =
     reconciliation_evidence_of Retryable (Some ''rate_limited'') vals"
| "classify_reconciliation_outcome (ReconcileServerError _) =
     reconciliation_evidence_of Retryable (Some ''server_uncertain'') []"
| "classify_reconciliation_outcome ReconcileTransportFailure =
     reconciliation_evidence_of Retryable (Some ''transport_maybe_sent'') []"
| "classify_reconciliation_outcome ReconcileProtocolUncertain =
     reconciliation_evidence_of Retryable (Some ''protocol_uncertain'') []"

text \<open>
  What the adapters promise of an outcome: a success is a 200 or 201 and a matching
  reconciliation a 200 (\<open>client.py\<close>, \<open>reconcile.py\<close>), and a server error a 5xx.
\<close>

fun submit_outcome_ok :: "submit_http_outcome \<Rightarrow> bool" where
  "submit_outcome_ok (SubmitHttpSuccess s _) \<longleftrightarrow> s \<in> {200, 201}"
| "submit_outcome_ok (SubmitHttpServerError s) \<longleftrightarrow> 500 \<le> s \<and> s \<le> 599"
| "submit_outcome_ok _ \<longleftrightarrow> True"

fun reconcile_outcome_ok :: "reconcile_http_outcome \<Rightarrow> bool" where
  "reconcile_outcome_ok (ReconcileMatch s _) \<longleftrightarrow> s = 200"
| "reconcile_outcome_ok (ReconcileServerError s) \<longleftrightarrow> 500 \<le> s \<and> s \<le> 599"
| "reconcile_outcome_ok _ \<longleftrightarrow> True"

definition evidence_ok :: "submission_evidence \<Rightarrow> bool" where
  "evidence_ok ev \<longleftrightarrow>
     (disposition ev = Succeeded \<longrightarrow>
        ev_http_status ev \<in> {Some 200, Some 201} \<and> ev_remote_request_id ev \<noteq> None)"

lemma evidence_sel [simp]:
  "disposition (evidence d s r c v) = d"
  "ev_http_status (evidence d s r c v) = s"
  "ev_remote_request_id (evidence d s r c v) = r"
  "ev_error_category (evidence d s r c v) = c"
  "retry_after_values (evidence d s r c v) = v"
  by (simp_all add: evidence_def)

lemma reconciliation_evidence_sel [simp]:
  "rdisposition (reconciliation_evidence_of d c v) = d"
  "rev_error_category (reconciliation_evidence_of d c v) = c"
  "rev_retry_after_values (reconciliation_evidence_of d c v) = v"
  by (simp_all add: reconciliation_evidence_of_def)

lemma classified_evidence_ok: "submit_outcome_ok out \<Longrightarrow> evidence_ok (classify_submission_outcome out)"
  by (cases out) (auto simp: evidence_ok_def)

end
