(* ===== verification/Effects.thy ===== *)
theory Effects
  imports Outcomes
begin

text \<open>
  The world the program runs in and the sequencing of its effects.

  A \<open>prog\<close> maps a world to a result, an exception or a value, and the world after it.  What
  the environment answers (the clock, the identifier and key generators, the random source,
  the HTTP adapters, which SQL statement fails, what other processes commit) is fixed by the
  \<open>env\<close> record, one answer per call; the world counts the calls.  The durable database and the
  transaction this connection has open are separate fields: a statement of the transaction
  changes only the latter, \<open>COMMIT\<close> installs it, \<open>ROLLBACK\<close> drops it.

  Loops that the code does not bound (identifier and key collisions, the reauthorization loop)
  take their fuel from the environment and raise \<^const>\<open>Out_of_fuel\<close> when it runs out.
\<close>

section \<open>The environment\<close>

text \<open>
  A statement succeeds, fails with the transaction still open (a lock, a busy database), or
  fails after SQLite has rolled the transaction back (a full disk, an I/O error).
\<close>

datatype fault = Ok_stmt | Fails | Fails_rolled_back

record env =
  clock_at :: "nat \<Rightarrow> instant"
  id_at :: "nat \<Rightarrow> string"
  key_at :: "nat \<Rightarrow> string"
  rand_at :: "nat \<Rightarrow> int \<Rightarrow> int \<Rightarrow> int"
  fault_at :: "nat \<Rightarrow> fault"
  others_at :: "nat \<Rightarrow> database \<Rightarrow> database"
  post_at :: "nat \<Rightarrow> exn + submit_http_outcome"
  get_at :: "nat \<Rightarrow> exn + reconcile_http_outcome"
  cancel_at :: "nat \<Rightarrow> bool"
  recanonicalize :: "payload \<Rightarrow> payload option"
  digest_of :: "payload \<Rightarrow> string"
  lease_seconds :: int
  fuel :: nat

text \<open>
  What the outside observes of a run: a POST with its key and payload, the durable database as
  this connection last saw it and the durable database at the moment the request goes out, a
  reconciliation GET with its key, and the sleeps in microseconds.
\<close>

datatype event =
    Posted string payload database database
  | Got string
  | Slept int

record world =
  the_env :: env
  clock_n :: nat
  id_n :: nat
  key_n :: nat
  rand_n :: nat
  stmt_n :: nat
  txn_n :: nat
  post_n :: nat
  get_n :: nat
  renew_n :: nat
  durable :: database
  open_tx :: "database option"
  slept_us :: int
  trace :: "event list"

definition initial_world :: "env \<Rightarrow> database \<Rightarrow> world" where
  "initial_world e d = \<lparr>the_env = e, clock_n = 0, id_n = 0, key_n = 0, rand_n = 0, stmt_n = 0,
     txn_n = 0, post_n = 0, get_n = 0, renew_n = 0, durable = d, open_tx = None, slept_us = 0,
     trace = []\<rparr>"

section \<open>Programs\<close>

type_synonym 'a prog = "world \<Rightarrow> (exn + 'a) \<times> world"

definition ret :: "'a \<Rightarrow> 'a prog" where
  "ret a w = (Inr a, w)"

definition raise :: "exn \<Rightarrow> 'a prog" where
  "raise e w = (Inl e, w)"

definition bind :: "'a prog \<Rightarrow> ('a \<Rightarrow> 'b prog) \<Rightarrow> 'b prog" where
  "bind p f w = (case p w of (Inl e, w') \<Rightarrow> (Inl e, w') | (Inr a, w') \<Rightarrow> f a w')"

definition thn :: "'a prog \<Rightarrow> 'b prog \<Rightarrow> 'b prog" where
  "thn p q = bind p (\<lambda>_. q)"

definition try_except :: "'a prog \<Rightarrow> (exn \<Rightarrow> 'a prog) \<Rightarrow> 'a prog" where
  "try_except p h w = (case p w of (Inl e, w') \<Rightarrow> h e w' | (Inr a, w') \<Rightarrow> (Inr a, w'))"

text \<open>\<open>except Exception: h\<close>, which lets cancellation through.\<close>

definition except_exception :: "'a prog \<Rightarrow> 'a prog \<Rightarrow> 'a prog" where
  "except_exception p h = try_except p (\<lambda>e. if is_exception e then h else raise e)"

definition asserting :: "bool \<Rightarrow> unit prog" where
  "asserting b = (if b then ret () else raise AssertionError)"

definition with_fuel :: "(nat \<Rightarrow> 'a prog) \<Rightarrow> 'a prog" where
  "with_fuel f w = f (fuel (the_env w)) w"

definition asks :: "(env \<Rightarrow> 'a) \<Rightarrow> 'a prog" where
  "asks f w = (Inr (f (the_env w)), w)"

section \<open>Injected sources\<close>

definition clock_now :: "instant prog" where
  "clock_now w = (Inr (clock_at (the_env w) (clock_n w)), w\<lparr>clock_n := Suc (clock_n w)\<rparr>)"

definition id_generator :: "string prog" where
  "id_generator w = (Inr (id_at (the_env w) (id_n w)), w\<lparr>id_n := Suc (id_n w)\<rparr>)"

definition key_generator :: "string prog" where
  "key_generator w = (Inr (key_at (the_env w) (key_n w)), w\<lparr>key_n := Suc (key_n w)\<rparr>)"

text \<open>\<open>policy_delay_ms(n, random_source)\<close>: one draw from the random source.\<close>

definition draw_policy_delay :: "int \<Rightarrow> int prog" where
  "draw_policy_delay n w =
     (Inr (policy_delay_ms n (rand_at (the_env w) (rand_n w))), w\<lparr>rand_n := Suc (rand_n w)\<rparr>)"

definition sleep :: "int \<Rightarrow> unit prog" where
  "sleep us w = (Inr (), w\<lparr>slept_us := slept_us w + us, trace := trace w @ [Slept us]\<rparr>)"

text \<open>
  While this connection has no transaction open, the other processes commit what they like; an
  open one was begun \<open>IMMEDIATE\<close> and holds the write lock.  Every effect outside a transaction
  that depends on the database or is observed with it is preceded by such commits.
\<close>

definition others_commit :: "world \<Rightarrow> world" where
  "others_commit w =
     (case open_tx w of
        None \<Rightarrow> w\<lparr>durable := others_at (the_env w) (txn_n w) (durable w), txn_n := Suc (txn_n w)\<rparr>
      | Some _ \<Rightarrow> w)"

text \<open>
  \<open>external_client.submit_job\<close> and \<open>external_reconcile.reconcile_job\<close>.  Nothing holds the write
  lock between the commit of the lease renewal and the request: another process may have claimed
  the attempt when the request goes out.
\<close>

definition submit_job :: "string \<Rightarrow> payload \<Rightarrow> submit_http_outcome prog" where
  "submit_job key bytes w =
     (let w1 = others_commit w
      in (post_at (the_env w) (post_n w),
          w1\<lparr>post_n := Suc (post_n w), trace := trace w @ [Posted key bytes (durable w) (durable w1)]\<rparr>))"

definition reconcile_job :: "string \<Rightarrow> reconcile_http_outcome prog" where
  "reconcile_job key w =
     (let w1 = others_commit w
      in (get_at (the_env w) (get_n w), w1\<lparr>get_n := Suc (get_n w), trace := trace w @ [Got key]\<rparr>))"

text \<open>Whether cancellation arrives while the next lease renewal before a dispatch is awaited.\<close>

definition cancelled_at_renewal :: "bool prog" where
  "cancelled_at_renewal w =
     (Inr (cancel_at (the_env w) (renew_n w)), w\<lparr>renew_n := Suc (renew_n w)\<rparr>)"

section \<open>SQL\<close>

definition next_stmt :: "world \<Rightarrow> world" where
  "next_stmt w = w\<lparr>stmt_n := Suc (stmt_n w)\<rparr>"

definition stmt_fault :: "world \<Rightarrow> fault" where
  "stmt_fault w = fault_at (the_env w) (stmt_n w)"

definition current_db :: "world \<Rightarrow> database" where
  "current_db w = (case open_tx w of None \<Rightarrow> durable w | Some d \<Rightarrow> d)"

text \<open>A reading statement; outside a transaction it sees what was committed until then.\<close>

definition select :: "(database \<Rightarrow> 'a) \<Rightarrow> 'a prog" where
  "select q w =
     (let w1 = next_stmt (others_commit w)
      in case stmt_fault w of
           Ok_stmt \<Rightarrow> (Inr (q (current_db w1)), w1)
         | Fails \<Rightarrow> (Inl OperationalError, w1)
         | Fails_rolled_back \<Rightarrow> (Inl OperationalError, w1\<lparr>open_tx := None\<rparr>))"

text \<open>A writing statement; outside a transaction it commits by itself.\<close>

definition execute :: "(database \<Rightarrow> violation + database) \<Rightarrow> unit prog" where
  "execute f w =
     (let w1 = next_stmt (others_commit w)
      in case stmt_fault w of
           Ok_stmt \<Rightarrow>
             (case f (current_db w1) of
                Inl v \<Rightarrow> (Inl (IntegrityError v), w1)
              | Inr d \<Rightarrow>
                  (Inr (),
                   (case open_tx w of
                      None \<Rightarrow> w1\<lparr>durable := d\<rparr>
                    | Some _ \<Rightarrow> w1\<lparr>open_tx := Some d\<rparr>)))
         | Fails \<Rightarrow> (Inl OperationalError, w1)
         | Fails_rolled_back \<Rightarrow> (Inl OperationalError, w1\<lparr>open_tx := None\<rparr>))"

text \<open>
  \<open>_begin_immediate\<close>: takes the write lock, so that what other processes committed before it
  is visible and nothing else changes until the transaction ends.  A \<open>BEGIN\<close> inside an open
  transaction is an \<open>OperationalError\<close> of SQLite's.
\<close>

definition begin_immediate :: "unit prog" where
  "begin_immediate w =
     (if open_tx w = None \<and> stmt_fault w = Ok_stmt
      then let w1 = next_stmt (others_commit w) in (Inr (), w1\<lparr>open_tx := Some (durable w1)\<rparr>)
      else (Inl PersistenceError, next_stmt w))"

definition commit :: "unit prog" where
  "commit w =
     (case open_tx w of
        None \<Rightarrow> (Inl OperationalError, next_stmt w)
      | Some d \<Rightarrow>
          (case stmt_fault w of
             Ok_stmt \<Rightarrow> (Inr (), (next_stmt w)\<lparr>durable := d, open_tx := None\<rparr>)
           | Fails \<Rightarrow> (Inl OperationalError, next_stmt w)
           | Fails_rolled_back \<Rightarrow> (Inl OperationalError, (next_stmt w)\<lparr>open_tx := None\<rparr>)))"

text \<open>\<open>ROLLBACK\<close> without a transaction is an \<open>OperationalError\<close> too.\<close>

definition rollback :: "unit prog" where
  "rollback w =
     (case open_tx w of
        None \<Rightarrow> (Inl OperationalError, next_stmt w)
      | Some _ \<Rightarrow> (Inr (), (next_stmt w)\<lparr>open_tx := None\<rparr>))"

text \<open>
  \<open>except sqlite3.OperationalError: conn.execute("ROLLBACK"); raise PersistenceError\<close>.  Any
  other exception, an \<open>IntegrityError\<close> in particular, passes without a rollback.
\<close>

definition rolling_back :: "'a prog \<Rightarrow> 'a prog" where
  "rolling_back p =
     try_except p
       (\<lambda>e. if e = OperationalError then thn rollback (raise PersistenceError) else raise e)"

section \<open>Weakest preconditions\<close>

text \<open>
  \<open>wp p Q E w\<close>: run from \<open>w\<close>, \<open>p\<close> ends with a value and a world in \<open>Q\<close> or an exception and
  a world in \<open>E\<close>.  A program is a function, so this is also what it does not do.
\<close>

definition wp :: "'a prog \<Rightarrow> ('a \<Rightarrow> world \<Rightarrow> bool) \<Rightarrow> (exn \<Rightarrow> world \<Rightarrow> bool) \<Rightarrow> world \<Rightarrow> bool" where
  "wp p Q E w = (case p w of (Inl e, w') \<Rightarrow> E e w' | (Inr a, w') \<Rightarrow> Q a w')"

lemma wp_ret [wp_simps]: "wp (ret a) Q E w = Q a w"
  by (simp add: wp_def ret_def)

lemma wp_raise [wp_simps]: "wp (raise e) Q E w = E e w"
  by (simp add: wp_def raise_def)

lemma wp_bind [wp_simps]: "wp (bind p f) Q E w = wp p (\<lambda>a. wp (f a) Q E) E w"
  by (simp add: wp_def bind_def split: prod.split sum.split)

lemma wp_bind_fun: "wp (bind p f) Q E = wp p (\<lambda>a. wp (f a) Q E) E"
  by (rule ext) (rule wp_bind)

lemma wp_thn [wp_simps]: "wp (thn p q) Q E w = wp p (\<lambda>_. wp q Q E) E w"
  by (simp add: thn_def wp_bind)

lemma wp_try_except [wp_simps]: "wp (try_except p h) Q E w = wp p Q (\<lambda>e. wp (h e) Q E) w"
  by (simp add: wp_def try_except_def split: prod.split sum.split)

lemma wp_if [wp_simps]: "wp (if b then p else q) Q E w = (if b then wp p Q E w else wp q Q E w)"
  by simp

lemma wp_except_exception [wp_simps]:
  "wp (except_exception p h) Q E w =
     wp p Q (\<lambda>e w'. if is_exception e then wp h Q E w' else E e w') w"
  by (auto simp: except_exception_def wp_def try_except_def raise_def split: prod.split sum.split)

lemma wp_asserting [wp_simps]: "wp (asserting b) Q E w = (if b then Q () w else E AssertionError w)"
  by (simp add: asserting_def wp_ret wp_raise)

lemma wp_with_fuel [wp_simps]: "wp (with_fuel f) Q E w = wp (f (fuel (the_env w))) Q E w"
  by (simp add: wp_def with_fuel_def)

lemma wp_asks [wp_simps]: "wp (asks f) Q E w = Q (f (the_env w)) w"
  by (simp add: wp_def asks_def)

lemma wp_sources [wp_simps]:
  "wp clock_now Qi E w = Qi (clock_at (the_env w) (clock_n w)) (w\<lparr>clock_n := Suc (clock_n w)\<rparr>)"
  "wp id_generator Q E w = Q (id_at (the_env w) (id_n w)) (w\<lparr>id_n := Suc (id_n w)\<rparr>)"
  "wp key_generator Q E w = Q (key_at (the_env w) (key_n w)) (w\<lparr>key_n := Suc (key_n w)\<rparr>)"
  "wp (draw_policy_delay n) Qd E w =
     Qd (policy_delay_ms n (rand_at (the_env w) (rand_n w))) (w\<lparr>rand_n := Suc (rand_n w)\<rparr>)"
  "wp (sleep us) Qu E w =
     Qu () (w\<lparr>slept_us := slept_us w + us, trace := trace w @ [Slept us]\<rparr>)"
  "wp cancelled_at_renewal Qb E w =
     Qb (cancel_at (the_env w) (renew_n w)) (w\<lparr>renew_n := Suc (renew_n w)\<rparr>)"
  by (simp_all add: wp_def clock_now_def id_generator_def key_generator_def draw_policy_delay_def
      sleep_def cancelled_at_renewal_def)

lemma wp_submit_job [wp_simps]:
  "wp (submit_job key bytes) Q E w =
     (let w1 = others_commit w;
          w' = w1\<lparr>post_n := Suc (post_n w), trace := trace w @ [Posted key bytes (durable w) (durable w1)]\<rparr>
      in case post_at (the_env w) (post_n w) of Inl e \<Rightarrow> E e w' | Inr out \<Rightarrow> Q out w')"
  by (simp add: wp_def submit_job_def Let_def)

lemma wp_reconcile_job [wp_simps]:
  "wp (reconcile_job key) Q E w =
     (let w' = (others_commit w)\<lparr>get_n := Suc (get_n w), trace := trace w @ [Got key]\<rparr>
      in case get_at (the_env w) (get_n w) of Inl e \<Rightarrow> E e w' | Inr out \<Rightarrow> Q out w')"
  by (simp add: wp_def reconcile_job_def Let_def)

lemma wp_select [wp_simps]:
  "wp (select q) Q E w =
     (let w1 = next_stmt (others_commit w)
      in case stmt_fault w of
           Ok_stmt \<Rightarrow> Q (q (current_db w1)) w1
         | Fails \<Rightarrow> E OperationalError w1
         | Fails_rolled_back \<Rightarrow> E OperationalError (w1\<lparr>open_tx := None\<rparr>))"
  by (simp add: wp_def select_def Let_def split: fault.split)

lemma wp_execute [wp_simps]:
  "wp (execute f) Q E w =
     (let w1 = next_stmt (others_commit w)
      in case stmt_fault w of
           Ok_stmt \<Rightarrow>
             (case f (current_db w1) of
                Inl v \<Rightarrow> E (IntegrityError v) w1
              | Inr d \<Rightarrow> Q () (case open_tx w of
                    None \<Rightarrow> w1\<lparr>durable := d\<rparr>
                  | Some _ \<Rightarrow> w1\<lparr>open_tx := Some d\<rparr>))
         | Fails \<Rightarrow> E OperationalError w1
         | Fails_rolled_back \<Rightarrow> E OperationalError (w1\<lparr>open_tx := None\<rparr>))"
  by (simp add: wp_def execute_def Let_def split: fault.split sum.split)

lemma wp_begin_immediate [wp_simps]:
  "wp begin_immediate Q E w =
     (if open_tx w = None \<and> stmt_fault w = Ok_stmt
      then let d = others_at (the_env w) (txn_n w) (durable w)
           in Q () ((next_stmt w)\<lparr>durable := d, open_tx := Some d, txn_n := Suc (txn_n w)\<rparr>)
      else E PersistenceError (next_stmt w))"
  by (cases w) (auto simp: wp_def begin_immediate_def others_commit_def next_stmt_def stmt_fault_def Let_def)

lemma wp_commit [wp_simps]:
  "wp commit Q E w =
     (case open_tx w of
        None \<Rightarrow> E OperationalError (next_stmt w)
      | Some d \<Rightarrow>
          (case stmt_fault w of
             Ok_stmt \<Rightarrow> Q () ((next_stmt w)\<lparr>durable := d, open_tx := None\<rparr>)
           | Fails \<Rightarrow> E OperationalError (next_stmt w)
           | Fails_rolled_back \<Rightarrow> E OperationalError ((next_stmt w)\<lparr>open_tx := None\<rparr>)))"
  by (simp add: wp_def commit_def split: option.split fault.split)

lemma wp_rollback [wp_simps]:
  "wp rollback Q E w =
     (case open_tx w of
        None \<Rightarrow> E OperationalError (next_stmt w)
      | Some _ \<Rightarrow> Q () ((next_stmt w)\<lparr>open_tx := None\<rparr>))"
  by (simp add: wp_def rollback_def split: option.split)

lemma wp_rolling_back [wp_simps]:
  "wp (rolling_back p) Q E w =
     wp p Q (\<lambda>e w'. if e = OperationalError
       then wp rollback (\<lambda>_. E PersistenceError) E w' else E e w') w"
  by (auto simp: rolling_back_def wp_def try_except_def thn_def bind_def raise_def
      split: prod.split sum.split)

lemma wp_mono:
  "wp p Q E w \<Longrightarrow> (\<And>a w'. Q a w' \<Longrightarrow> Q' a w') \<Longrightarrow> (\<And>e w'. E e w' \<Longrightarrow> E' e w') \<Longrightarrow> wp p Q' E' w"
  by (simp add: wp_def split: prod.splits sum.splits)

lemma wp_conj: "wp p Q E w \<Longrightarrow> wp p Q' E' w \<Longrightarrow>
    wp p (\<lambda>a w'. Q a w' \<and> Q' a w') (\<lambda>e w'. E e w' \<and> E' e w') w"
  by (simp add: wp_def split: prod.splits sum.splits)

lemma wpD:
  "wp p Q E w \<Longrightarrow> p w = (r, w') \<Longrightarrow> (case r of Inl e \<Rightarrow> E e w' | Inr a \<Rightarrow> Q a w')"
  by (simp add: wp_def split: prod.splits sum.splits)

text \<open>An open transaction keeps the others out; outside of one only the durable database moves.\<close>

lemma others_wait [simp]: "open_tx w = Some d \<Longrightarrow> others_commit w = w"
  by (simp add: others_commit_def)

lemma others_commit_fields [simp]:
  "the_env (others_commit w) = the_env w" "open_tx (others_commit w) = open_tx w"
  "clock_n (others_commit w) = clock_n w" "id_n (others_commit w) = id_n w"
  "key_n (others_commit w) = key_n w" "rand_n (others_commit w) = rand_n w"
  "post_n (others_commit w) = post_n w" "get_n (others_commit w) = get_n w"
  "renew_n (others_commit w) = renew_n w" "stmt_n (others_commit w) = stmt_n w"
  "slept_us (others_commit w) = slept_us w" "trace (others_commit w) = trace w"
  by (simp_all add: others_commit_def split: option.split)

lemma next_stmt_fields [simp]:
  "the_env (next_stmt w) = the_env w" "durable (next_stmt w) = durable w"
  "open_tx (next_stmt w) = open_tx w" "clock_n (next_stmt w) = clock_n w"
  "id_n (next_stmt w) = id_n w" "key_n (next_stmt w) = key_n w" "rand_n (next_stmt w) = rand_n w"
  "txn_n (next_stmt w) = txn_n w" "post_n (next_stmt w) = post_n w" "get_n (next_stmt w) = get_n w"
  "slept_us (next_stmt w) = slept_us w" "trace (next_stmt w) = trace w"
  "renew_n (next_stmt w) = renew_n w" "stmt_n (next_stmt w) = Suc (stmt_n w)"
  by (simp_all add: next_stmt_def)

end
