(* ===== verification/Authorization.thy ===== *)
theory Authorization
  imports Effects
begin

text \<open>
  The transactions of \<open>persistence/transactions.py\<close> that run before a side effect: resolving a
  key to a Job and authorizing or deferring its next attempt, renewing a lease, claiming an
  expired attempt.  Each is one \<open>BEGIN IMMEDIATE\<close> transaction, statement by statement.
\<close>

definition LEASE_SECONDS :: int where
  "LEASE_SECONDS = 60"

definition INITIAL_FENCING_GENERATION :: int where
  "INITIAL_FENCING_GENERATION = 1"

definition MAX_SUBMISSION_ATTEMPTS :: int where
  "MAX_SUBMISSION_ATTEMPTS = 3"

datatype pre_side_effect_result =
    ReadyToSubmit job_row attempt_row string
  | AlreadyCompleted job_row attempt_row
  | IdempotencyConflict
  | NotYetEligible job_row timestamp
  | JobInProgress job_row
  | RecoveryCandidate job_row attempt_row
  | TerminalFailedPermanent job_row attempt_row
  | TerminalAmbiguous job_row attempt_row

datatype lease_renewal_result = LeaseRenewed timestamp | LeaseLost

datatype claim_result = ClaimSucceeded job_row attempt_row | ClaimRejected

section \<open>Helpers\<close>

definition later_of :: "timestamp option \<Rightarrow> timestamp option \<Rightarrow> timestamp option" where
  "later_of a b =
     (case a of None \<Rightarrow> b | Some x \<Rightarrow> (case b of None \<Rightarrow> a | Some y \<Rightarrow> Some (max x y)))"

definition after_now :: "timestamp option \<Rightarrow> timestamp \<Rightarrow> bool" where
  "after_now t now = (case t of None \<Rightarrow> False | Some x \<Rightarrow> x > now)"

text \<open>\<open>parse_timestamp\<close> raises \<open>ValueError\<close> on text it cannot read.\<close>

definition parsed_timestamp :: "timestamp \<Rightarrow> instant prog" where
  "parsed_timestamp t =
     (case parse_timestamp t of None \<Rightarrow> raise ValueError | Some i \<Rightarrow> ret i)"

definition owns_active_attempt ::
  "job_row option \<Rightarrow> attempt_row option \<Rightarrow> string \<Rightarrow> int \<Rightarrow> timestamp \<Rightarrow> bool" where
  "owns_active_attempt job attempt invocation_token generation now =
     (case job of None \<Rightarrow> False | Some j \<Rightarrow>
        (case attempt of None \<Rightarrow> False | Some a \<Rightarrow>
           jstate j = SUBMITTING
           \<and> astate a = A_STARTED
           \<and> owner_token a = Some invocation_token
           \<and> fencing_generation a = generation
           \<and> after_now (lease_expires_at a) now))"

text \<open>
  \<open>_verify_payload_canonical\<close>: \<open>recanonicalize\<close> stands for \<open>parse_job_entry\<close> followed by
  \<open>canonicalize\<close> (the \<open>json\<close> and \<open>rfc8785\<close> packages), \<^term>\<open>None\<close> for a validation error.
\<close>

definition verify_payload_canonical :: "payload \<Rightarrow> unit prog" where
  "verify_payload_canonical bytes =
     bind (asks recanonicalize)
       (\<lambda>canonical. if canonical bytes = Some bytes then ret () else raise DatabaseCorruptionError)"

definition success_evidence_ok :: "attempt_row \<Rightarrow> bool" where
  "success_evidence_ok a \<longleftrightarrow>
     http_status a \<in> {Some 200, Some 201} \<and> remote_request_id a \<noteq> None"

definition verify_attempt_success_evidence :: "attempt_row \<Rightarrow> unit prog" where
  "verify_attempt_success_evidence a =
     (if success_evidence_ok a then ret () else raise DatabaseCorruptionError)"

text \<open>\<open>conn.execute("ROLLBACK"); raise DatabaseCorruptionError(...)\<close>.\<close>

definition corrupted :: "'a prog" where
  "corrupted = thn rollback (raise DatabaseCorruptionError)"

text \<open>\<open>except DatabaseCorruptionError: conn.execute("ROLLBACK"); raise\<close>.\<close>

definition rollback_if_corrupted :: "'a prog \<Rightarrow> 'a prog" where
  "rollback_if_corrupted p =
     try_except p (\<lambda>e. if e = DatabaseCorruptionError then corrupted else raise e)"

section \<open>Inserting a Job and starting an attempt\<close>

fun insert_job :: "nat \<Rightarrow> job_row \<Rightarrow> job_row prog" where
  "insert_job 0 r = raise Out_of_fuel"
| "insert_job (Suc n) r =
     try_except (thn (execute (insert_job_row r)) (ret r))
       (\<lambda>e. case e of
          IntegrityError v \<Rightarrow>
            if mentions_job_id v
            then bind id_generator (\<lambda>jid. insert_job n (r\<lparr>job_id := jid\<rparr>))
            else raise e
        | _ \<Rightarrow> raise e)"

fun insert_attempt :: "nat \<Rightarrow> attempt_row \<Rightarrow> attempt_row prog" where
  "insert_attempt 0 r = raise Out_of_fuel"
| "insert_attempt (Suc n) r =
     try_except (thn (execute (insert_attempt_row r)) (ret r))
       (\<lambda>e. case e of
          IntegrityError v \<Rightarrow>
            if mentions_attempt_id v
            then bind id_generator (\<lambda>aid. insert_attempt n (r\<lparr>attempt_id := aid\<rparr>))
            else raise e
        | _ \<Rightarrow> raise e)"

definition new_job :: "string \<Rightarrow> string \<Rightarrow> payload \<Rightarrow> timestamp \<Rightarrow> job_row" where
  "new_job jid key bytes now =
     \<lparr>job_id = jid, idempotency_key = key, payload_canonical = bytes, jstate = PENDING,
      created_at = now, updated_at = now\<rparr>"

definition new_attempt ::
  "string \<Rightarrow> string \<Rightarrow> int \<Rightarrow> timestamp \<Rightarrow> string \<Rightarrow> timestamp \<Rightarrow> attempt_row" where
  "new_attempt aid jid number now token expires =
     \<lparr>attempt_id = aid, attempt_job_id = jid, attempt_number = number, astate = A_STARTED,
      started_at = now, completed_at = None, http_status = None, remote_request_id = None,
      error_category = None, retry_after_ms = None, owner_token = Some token,
      fencing_generation = INITIAL_FENCING_GENERATION, lease_expires_at = Some expires\<rparr>"

definition start_attempt :: "job_row \<Rightarrow> int \<Rightarrow> int \<Rightarrow> string \<Rightarrow> timestamp \<Rightarrow> attempt_row prog" where
  "start_attempt job number lease token now =
     bind id_generator (\<lambda>aid.
     bind clock_now (\<lambda>t.
     bind (with_fuel (\<lambda>n. insert_attempt n
            (new_attempt aid (job_id job) number now token
              (format_timestamp (add_milliseconds t (lease * 1000)))))) (\<lambda>attempt.
     thn (execute (update_job (job_id job) (with_job_state SUBMITTING now)))
     (ret attempt))))"

definition authorize_or_defer ::
  "job_row \<Rightarrow> int \<Rightarrow> timestamp \<Rightarrow> string \<Rightarrow> int \<Rightarrow> timestamp option
   \<Rightarrow> pre_side_effect_result prog" where
  "authorize_or_defer job number now token lease job_eligible_at =
     bind (select read_gate_not_before) (\<lambda>gate_not_before.
     case later_of job_eligible_at gate_not_before of
       Some effective \<Rightarrow>
         if effective > now then thn commit (ret (NotYetEligible job effective))
         else
           bind (start_attempt job number lease token now) (\<lambda>attempt.
           thn commit (ret (ReadyToSubmit (with_job_state SUBMITTING now job) attempt token)))
     | None \<Rightarrow>
         bind (start_attempt job number lease token now) (\<lambda>attempt.
         thn commit (ret (ReadyToSubmit (with_job_state SUBMITTING now job) attempt token))))"

section \<open>Routing an existing Job\<close>

definition formatted_now :: "timestamp prog" where
  "formatted_now = bind clock_now (\<lambda>t. ret (format_timestamp t))"

definition route_succeeded :: "job_row \<Rightarrow> pre_side_effect_result prog" where
  "route_succeeded job =
     bind (select (\<lambda>d. find_successful_attempt d (job_id job))) (\<lambda>found.
     case found of
       None \<Rightarrow> corrupted
     | Some attempt \<Rightarrow>
         thn (rollback_if_corrupted (verify_attempt_success_evidence attempt))
         (thn commit (ret (AlreadyCompleted job attempt))))"

definition route_retry_scheduled :: "job_row \<Rightarrow> string \<Rightarrow> int \<Rightarrow> pre_side_effect_result prog" where
  "route_retry_scheduled job token lease =
     bind (select (\<lambda>d. select_latest_attempt d (job_id job))) (\<lambda>found.
     case found of
       None \<Rightarrow> corrupted
     | Some latest \<Rightarrow>
         (case (completed_at latest, retry_after_ms latest) of
            (Some completed, Some delay) \<Rightarrow>
              if astate latest \<noteq> A_RETRYABLE_FAILURE then corrupted
              else
                bind formatted_now (\<lambda>now.
                bind (parsed_timestamp completed) (\<lambda>t.
                authorize_or_defer job (attempt_number latest + 1) now token lease
                  (Some (format_timestamp (add_milliseconds t delay)))))
          | _ \<Rightarrow> corrupted))"

definition route_submitting :: "job_row \<Rightarrow> pre_side_effect_result prog" where
  "route_submitting job =
     bind (select (\<lambda>d. select_latest_attempt d (job_id job))) (\<lambda>found.
     case found of
       None \<Rightarrow> corrupted
     | Some latest \<Rightarrow>
         if astate latest \<noteq> A_STARTED then corrupted
         else
           bind formatted_now (\<lambda>now.
           if after_now (lease_expires_at latest) now
           then thn commit (ret (JobInProgress job))
           else thn commit (ret (RecoveryCandidate job latest))))"

definition route_terminal ::
  "job_row \<Rightarrow> attempt_state set \<Rightarrow> (job_row \<Rightarrow> attempt_row \<Rightarrow> pre_side_effect_result)
   \<Rightarrow> pre_side_effect_result prog" where
  "route_terminal job states result =
     bind (select (\<lambda>d. select_latest_attempt d (job_id job))) (\<lambda>found.
     case found of
       None \<Rightarrow> corrupted
     | Some latest \<Rightarrow>
         if astate latest \<notin> states then corrupted
         else thn commit (ret (result job latest)))"

definition route_existing_job :: "job_row \<Rightarrow> string \<Rightarrow> int \<Rightarrow> pre_side_effect_result prog" where
  "route_existing_job job token lease =
     (case jstate job of
        SUCCEEDED \<Rightarrow> route_succeeded job
      | PENDING \<Rightarrow>
          bind formatted_now (\<lambda>now. authorize_or_defer job 1 now token lease None)
      | RETRY_SCHEDULED \<Rightarrow> route_retry_scheduled job token lease
      | SUBMITTING \<Rightarrow> route_submitting job
      | FAILED_PERMANENT \<Rightarrow>
          route_terminal job {A_PERMANENT_FAILURE, A_RETRYABLE_FAILURE} TerminalFailedPermanent
      | AMBIGUOUS \<Rightarrow> route_terminal job {A_AMBIGUOUS} TerminalAmbiguous
      | Other_job_state _ \<Rightarrow> corrupted)"

section \<open>The pre-side-effect transaction\<close>

text \<open>One pass of the loop after \<open>BEGIN\<close>; \<^term>\<open>None\<close> is \<open>continue\<close>.\<close>

definition create_job ::
  "string \<Rightarrow> payload \<Rightarrow> string \<Rightarrow> int \<Rightarrow> pre_side_effect_result option prog" where
  "create_job key bytes token lease =
     bind formatted_now (\<lambda>now.
     bind id_generator (\<lambda>jid.
     bind (try_except
            (bind (with_fuel (\<lambda>n. insert_job n (new_job jid key bytes now))) (\<lambda>r. ret (Some r)))
            (\<lambda>e. case e of IntegrityError _ \<Rightarrow> thn rollback (ret None) | _ \<Rightarrow> raise e))
       (\<lambda>inserted. case inserted of
          None \<Rightarrow> ret None
        | Some job \<Rightarrow>
            bind (authorize_or_defer job 1 now token lease None) (\<lambda>r. ret (Some r)))))"

definition use_existing_job ::
  "job_row \<Rightarrow> payload \<Rightarrow> string \<Rightarrow> int \<Rightarrow> pre_side_effect_result prog" where
  "use_existing_job existing bytes token lease =
     thn (rollback_if_corrupted (verify_payload_canonical (payload_canonical existing)))
     (if payload_canonical existing \<noteq> bytes then thn commit (ret IdempotencyConflict)
      else route_existing_job existing token lease)"

definition pre_side_effect_pass ::
  "string option \<Rightarrow> string \<Rightarrow> payload \<Rightarrow> string \<Rightarrow> int \<Rightarrow> pre_side_effect_result option prog" where
  "pre_side_effect_pass supplied_key key bytes token lease =
     bind (select (\<lambda>d. find_job_by_key d key)) (\<lambda>found.
     case found of
       None \<Rightarrow> create_job key bytes token lease
     | Some existing \<Rightarrow>
         if supplied_key = None then thn rollback (ret None)
         else bind (use_existing_job existing bytes token lease) (\<lambda>r. ret (Some r)))"

fun run_pre_side_effect_transaction ::
  "nat \<Rightarrow> string option \<Rightarrow> payload \<Rightarrow> string \<Rightarrow> int \<Rightarrow> pre_side_effect_result prog" where
  "run_pre_side_effect_transaction 0 supplied_key bytes token lease = raise Out_of_fuel"
| "run_pre_side_effect_transaction (Suc n) supplied_key bytes token lease =
     bind (case supplied_key of Some k \<Rightarrow> ret k | None \<Rightarrow> key_generator) (\<lambda>key.
     thn begin_immediate
     (bind (rolling_back (pre_side_effect_pass supplied_key key bytes token lease)) (\<lambda>r.
      case r of
        None \<Rightarrow> run_pre_side_effect_transaction n supplied_key bytes token lease
      | Some result \<Rightarrow> ret result)))"

section \<open>Leases\<close>

definition renew_lease ::
  "string \<Rightarrow> string \<Rightarrow> string \<Rightarrow> int \<Rightarrow> int \<Rightarrow> lease_renewal_result prog" where
  "renew_lease jid aid token generation lease =
     thn begin_immediate (rolling_back
     (bind (select (\<lambda>d. select_job d jid)) (\<lambda>job.
      bind (select (\<lambda>d. select_attempt d aid)) (\<lambda>attempt.
      bind clock_now (\<lambda>now_instant.
      if \<not> owns_active_attempt job attempt token generation (format_timestamp now_instant)
      then thn rollback (ret LeaseLost)
      else
        let expires = format_timestamp (add_milliseconds now_instant (lease * 1000))
        in thn (execute (update_attempt aid (with_lease expires)))
           (thn commit (ret (LeaseRenewed expires))))))))"

definition claimable ::
  "job_row \<Rightarrow> attempt_row \<Rightarrow> string option \<Rightarrow> int \<Rightarrow> timestamp option \<Rightarrow> timestamp \<Rightarrow> bool" where
  "claimable job attempt captured_token captured_generation captured_expires now \<longleftrightarrow>
     jstate job = SUBMITTING
     \<and> astate attempt = A_STARTED
     \<and> owner_token attempt = captured_token
     \<and> fencing_generation attempt = captured_generation
     \<and> lease_expires_at attempt = captured_expires
     \<and> lease_expires_at attempt \<noteq> None
     \<and> \<not> after_now (lease_expires_at attempt) now"

definition claim_expired_attempt ::
  "string \<Rightarrow> string \<Rightarrow> string option \<Rightarrow> int \<Rightarrow> timestamp option \<Rightarrow> string \<Rightarrow> int
   \<Rightarrow> claim_result prog" where
  "claim_expired_attempt jid aid captured_token captured_generation captured_expires new_token lease =
     thn begin_immediate (rolling_back
     (bind (select (\<lambda>d. select_job d jid)) (\<lambda>job.
      bind (select (\<lambda>d. select_attempt d aid)) (\<lambda>attempt.
      bind clock_now (\<lambda>now_instant.
      case (job, attempt) of
        (Some j, Some a) \<Rightarrow>
          if \<not> claimable j a captured_token captured_generation captured_expires
                (format_timestamp now_instant)
          then thn rollback (ret ClaimRejected)
          else
            let generation = fencing_generation a + 1;
                expires = format_timestamp (add_milliseconds now_instant (lease * 1000))
            in thn (execute (update_attempt aid (with_claim new_token generation expires)))
               (thn commit (ret (ClaimSucceeded j (with_claim new_token generation expires a))))
      | _ \<Rightarrow> thn rollback (ret ClaimRejected))))))"

end
