(* ===== verification/Recording.thy ===== *)
theory Recording
  imports Authorization
begin

text \<open>
  The transactions of \<open>persistence/transactions.py\<close> that record what a side effect showed:
  finalizing a submission, authorizing and recording reconciliation, appending observations,
  and consuming the late evidence of a stale owner.
\<close>

datatype submission_record_result =
    SubmissionFinalized job_row attempt_row
  | SubmissionRetryScheduled job_row attempt_row
  | SubmissionRetained job_row attempt_row
  | PostSideEffectFailure

datatype reconciliation_authorization =
    ReconciliationAuthorized
  | ReconciliationDeferred timestamp
  | ReconciliationOwnershipLost

datatype record_disposition = R_matched | R_conflict | R_not_found | R_inconclusive

datatype reconciliation_record_result =
    ReconciliationFinalized job_row attempt_row
  | ReconciliationPostFailure

datatype late_evidence_result =
    LateEvidenceConsumed job_row attempt_row
  | NoActionableLateEvidence
  | LatePostFailure

section \<open>Observations\<close>

text \<open>
  The insert loops retry with fresh identifiers when the message names a generated column.
  \<open>insert_fresh_observation\<close> is the loop of \<open>_insert_submission_observation\<close> and
  \<open>append_late_observation\<close>, which draw both identifiers again, the observation's first;
  \<open>insert_observation\<close> is the loop of \<open>append_observation\<close>, whose sequence id is given.
\<close>

fun insert_fresh_observation :: "nat \<Rightarrow> observation_row \<Rightarrow> string prog" where
  "insert_fresh_observation 0 r = raise Out_of_fuel"
| "insert_fresh_observation (Suc n) r =
     try_except (thn (execute (insert_observation_row r)) (ret (observation_id r)))
       (\<lambda>e. case e of
          IntegrityError v \<Rightarrow>
            if mentions_observation_id v \<or> mentions_sequence_id v
            then bind id_generator (\<lambda>oid. bind id_generator (\<lambda>sid.
                 insert_fresh_observation n (r\<lparr>observation_id := oid, sequence_id := sid\<rparr>)))
            else raise e
        | _ \<Rightarrow> raise e)"

fun insert_observation :: "nat \<Rightarrow> observation_row \<Rightarrow> string prog" where
  "insert_observation 0 r = raise Out_of_fuel"
| "insert_observation (Suc n) r =
     try_except (thn (execute (insert_observation_row r)) (ret (observation_id r)))
       (\<lambda>e. case e of
          IntegrityError v \<Rightarrow>
            if mentions_observation_id v
            then bind id_generator (\<lambda>oid. insert_observation n (r\<lparr>observation_id := oid\<rparr>))
            else raise e
        | _ \<Rightarrow> raise e)"

definition observation ::
  "string \<Rightarrow> string \<Rightarrow> string \<Rightarrow> int \<Rightarrow> request_operation \<Rightarrow> int \<Rightarrow> timestamp \<Rightarrow> certainty option
   \<Rightarrow> string option \<Rightarrow> int option \<Rightarrow> string option \<Rightarrow> int option \<Rightarrow> retry_after_diagnostic option
   \<Rightarrow> int \<Rightarrow> bool \<Rightarrow> observation_row" where
  "observation oid aid sid seq op ordinal at cert cat status rid delay diag generation late =
     \<lparr>observation_id = oid, observed_attempt_id = aid, sequence_id = sid, sequence_number = seq,
      operation = op, request_ordinal = ordinal, observed_at = at, dispatch_certainty = cert,
      evidence_category = cat, observed_http_status = status, observed_remote_request_id = rid,
      observed_retry_after_ms = delay, retry_after_diagnostic = diag,
      observed_fencing_generation = generation, is_late = late, consumed_at = None\<rparr>"

definition insert_submission_observation ::
  "string \<Rightarrow> timestamp \<Rightarrow> int \<Rightarrow> certainty option \<Rightarrow> string option \<Rightarrow> int option \<Rightarrow> string option
   \<Rightarrow> int option \<Rightarrow> retry_after_diagnostic option \<Rightarrow> unit prog" where
  "insert_submission_observation aid at generation cert cat status rid delay diag =
     bind (select (\<lambda>d. next_sequence_number d aid)) (\<lambda>seq.
     bind id_generator (\<lambda>sid.
     bind id_generator (\<lambda>oid.
     thn (with_fuel (\<lambda>n. insert_fresh_observation n
            (observation oid aid sid seq SUBMISSION 1 at cert cat status rid delay diag
               generation False)))
     (ret ()))))"

definition append_observation ::
  "string \<Rightarrow> string \<Rightarrow> int \<Rightarrow> request_operation \<Rightarrow> int \<Rightarrow> string option \<Rightarrow> certainty option
   \<Rightarrow> int option \<Rightarrow> string option \<Rightarrow> int option \<Rightarrow> retry_after_diagnostic option \<Rightarrow> string prog" where
  "append_observation aid sid ordinal op generation cat cert status rid delay diag =
     thn begin_immediate (rolling_back
     (bind formatted_now (\<lambda>now.
      bind (select (\<lambda>d. next_sequence_number d aid)) (\<lambda>seq.
      bind id_generator (\<lambda>oid.
      bind (with_fuel (\<lambda>n. insert_observation n
             (observation oid aid sid seq op ordinal now cert cat status rid delay diag
                generation False))) (\<lambda>oid.
      thn commit (ret oid)))))))"

definition append_late_observation ::
  "string \<Rightarrow> int \<Rightarrow> string \<Rightarrow> request_operation \<Rightarrow> int option \<Rightarrow> string option \<Rightarrow> int option
   \<Rightarrow> retry_after_diagnostic option \<Rightarrow> string prog" where
  "append_late_observation aid generation cat op status rid delay diag =
     thn begin_immediate (rolling_back
     (bind formatted_now (\<lambda>now.
      bind (select (\<lambda>d. next_sequence_number d aid)) (\<lambda>seq.
      bind id_generator (\<lambda>sid.
      bind id_generator (\<lambda>oid.
      bind (with_fuel (\<lambda>n. insert_fresh_observation n
             (observation oid aid sid seq op 1 now None (Some cat) status rid delay diag
                generation True))) (\<lambda>oid.
      thn commit (ret oid))))))))"

section \<open>Finalizing a submission\<close>

definition certainty_of :: "submission_evidence \<Rightarrow> certainty option" where
  "certainty_of ev =
     (if ev_error_category ev = Some ''transport_not_sent'' then Some NOT_SENT
      else if disposition ev = Retained then Some MAYBE_SENT
      else None)"

definition server_delay_of :: "retry_after_result \<Rightarrow> int option" where
  "server_delay_of parsed =
     (case parsed of RetryAfterAccepted ms \<Rightarrow> Some ms | RetryAfterRejected _ \<Rightarrow> None)"

definition diagnostic_of :: "retry_after_result \<Rightarrow> retry_after_diagnostic option" where
  "diagnostic_of parsed =
     (case parsed of RetryAfterAccepted _ \<Rightarrow> None | RetryAfterRejected diag \<Rightarrow> Some diag)"

definition parsed_retry_after :: "string list \<Rightarrow> instant \<Rightarrow> retry_after_result prog" where
  "parsed_retry_after values now =
     (case parse_retry_after values now of Inl e \<Rightarrow> raise e | Inr r \<Rightarrow> ret r)"

text \<open>The two \<open>UPDATE\<close>s and the \<open>COMMIT\<close> that end an attempt and move its Job.\<close>

definition complete ::
  "string \<Rightarrow> (attempt_row \<Rightarrow> attempt_row) \<Rightarrow> string \<Rightarrow> job_state \<Rightarrow> timestamp \<Rightarrow> unit prog" where
  "complete aid change jid s now =
     thn (execute (update_attempt aid change))
     (thn (execute (update_job jid (with_job_state s now)))
     commit)"

definition finalize_succeeded ::
  "job_row \<Rightarrow> attempt_row \<Rightarrow> string \<Rightarrow> string \<Rightarrow> int \<Rightarrow> timestamp \<Rightarrow> submission_evidence
   \<Rightarrow> submission_record_result prog" where
  "finalize_succeeded job attempt jid aid generation now ev =
     (let change = with_success now (ev_http_status ev) (ev_remote_request_id ev)
      in thn (insert_submission_observation aid now generation (certainty_of ev) None
                (ev_http_status ev) (ev_remote_request_id ev) None None)
         (thn (complete aid change jid SUCCEEDED now)
         (ret (SubmissionFinalized (with_job_state SUCCEEDED now job) (change attempt)))))"

definition finalize_permanent ::
  "job_row \<Rightarrow> attempt_row \<Rightarrow> string \<Rightarrow> string \<Rightarrow> int \<Rightarrow> timestamp \<Rightarrow> submission_evidence
   \<Rightarrow> submission_record_result prog" where
  "finalize_permanent job attempt jid aid generation now ev =
     (let change = with_permanent now (ev_http_status ev) (ev_error_category ev)
      in thn (insert_submission_observation aid now generation (certainty_of ev)
                (ev_error_category ev) (ev_http_status ev) None None None)
         (thn (complete aid change jid FAILED_PERMANENT now)
         (ret (SubmissionFinalized (with_job_state FAILED_PERMANENT now job) (change attempt)))))"

definition retry_job_state :: "int \<Rightarrow> job_state" where
  "retry_job_state number =
     (if number < MAX_SUBMISSION_ATTEMPTS then RETRY_SCHEDULED else FAILED_PERMANENT)"

definition finalize_retryable ::
  "job_row \<Rightarrow> attempt_row \<Rightarrow> string \<Rightarrow> string \<Rightarrow> int \<Rightarrow> int \<Rightarrow> instant \<Rightarrow> submission_evidence
   \<Rightarrow> submission_record_result prog" where
  "finalize_retryable job attempt jid aid number generation now_instant ev =
     (let now = format_timestamp now_instant in
      bind (parsed_retry_after (retry_after_values ev) now_instant) (\<lambda>parsed.
      bind (draw_policy_delay number) (\<lambda>policy_ms.
      let delay_ms = effective_delay_ms policy_ms (server_delay_of parsed);
          change = with_retryable now (ev_http_status ev) (ev_error_category ev) delay_ms;
          job' = with_job_state (retry_job_state number) now job
      in thn (if ev_error_category ev = Some ''rate_limited''
              then execute (\<lambda>d. Inr (advance_gate
                     (format_timestamp (add_milliseconds now_instant delay_ms)) now d))
              else ret ())
         (thn (insert_submission_observation aid now generation (certainty_of ev)
                 (ev_error_category ev) (ev_http_status ev) None (Some delay_ms)
                 (diagnostic_of parsed))
         (thn (complete aid change jid (retry_job_state number) now)
         (if number < MAX_SUBMISSION_ATTEMPTS
          then ret (SubmissionRetryScheduled job' (change attempt))
          else ret (SubmissionFinalized job' (change attempt))))))))"

definition finalize_retained ::
  "job_row \<Rightarrow> attempt_row \<Rightarrow> string \<Rightarrow> int \<Rightarrow> timestamp \<Rightarrow> submission_evidence
   \<Rightarrow> submission_record_result prog" where
  "finalize_retained job attempt aid generation now ev =
     thn (insert_submission_observation aid now generation (certainty_of ev)
            (ev_error_category ev) (ev_http_status ev) None None None)
     (thn commit (ret (SubmissionRetained job attempt)))"

definition finalize_submission_attempt ::
  "string \<Rightarrow> string \<Rightarrow> int \<Rightarrow> string \<Rightarrow> int \<Rightarrow> submission_evidence
   \<Rightarrow> submission_record_result prog" where
  "finalize_submission_attempt jid aid number token generation ev =
     thn begin_immediate (rolling_back
     (bind (select (\<lambda>d. select_job d jid)) (\<lambda>job.
      bind (select (\<lambda>d. select_attempt d aid)) (\<lambda>attempt.
      bind clock_now (\<lambda>now_instant.
      let now = format_timestamp now_instant in
      if \<not> owns_active_attempt job attempt token generation now
      then thn rollback (ret PostSideEffectFailure)
      else case (job, attempt) of
        (Some j, Some a) \<Rightarrow>
          (case disposition ev of
             Succeeded \<Rightarrow> finalize_succeeded j a jid aid generation now ev
           | Permanent_failure \<Rightarrow> finalize_permanent j a jid aid generation now ev
           | Retryable_failure \<Rightarrow> finalize_retryable j a jid aid number generation now_instant ev
           | Retained \<Rightarrow> finalize_retained j a aid generation now ev)
      | _ \<Rightarrow> raise AssertionError)))))"

section \<open>Reconciliation\<close>

definition authorize_reconciliation_request ::
  "string \<Rightarrow> string \<Rightarrow> string \<Rightarrow> int \<Rightarrow> int \<Rightarrow> timestamp option
   \<Rightarrow> reconciliation_authorization prog" where
  "authorize_reconciliation_request jid aid token generation lease earliest =
     thn begin_immediate (rolling_back
     (bind (select (\<lambda>d. select_job d jid)) (\<lambda>job.
      bind (select (\<lambda>d. select_attempt d aid)) (\<lambda>attempt.
      bind clock_now (\<lambda>now_instant.
      let now = format_timestamp now_instant;
          renewed =
            thn (execute (update_attempt aid
                  (with_lease (format_timestamp (add_milliseconds now_instant (lease * 1000))))))
            (thn commit (ret ReconciliationAuthorized))
      in if \<not> owns_active_attempt job attempt token generation now
      then thn rollback (ret ReconciliationOwnershipLost)
      else
        bind (select read_gate_not_before) (\<lambda>gate_not_before.
        case later_of earliest gate_not_before of
          Some effective \<Rightarrow>
            if effective > now then thn commit (ret (ReconciliationDeferred effective))
            else renewed
        | None \<Rightarrow> renewed))))))"

definition advance_gate_for_reconciliation_rate_limit :: "int \<Rightarrow> unit prog" where
  "advance_gate_for_reconciliation_rate_limit delay_ms =
     thn begin_immediate (rolling_back
     (bind clock_now (\<lambda>now_instant.
      thn (execute (\<lambda>d. Inr (advance_gate
             (format_timestamp (add_milliseconds now_instant delay_ms))
             (format_timestamp now_instant) d)))
      commit)))"

definition record_change :: "record_disposition \<Rightarrow> timestamp \<Rightarrow> int option \<Rightarrow> string option
   \<Rightarrow> attempt_row \<Rightarrow> attempt_row" where
  "record_change disp now status rid =
     (case disp of
        R_matched \<Rightarrow> with_success now status rid
      | R_conflict \<Rightarrow> with_conflict now
      | R_not_found \<Rightarrow> with_ambiguous now ''reconciliation_not_found''
      | R_inconclusive \<Rightarrow> with_ambiguous now ''reconciliation_inconclusive'')"

definition record_state :: "record_disposition \<Rightarrow> job_state" where
  "record_state disp =
     (case disp of
        R_matched \<Rightarrow> SUCCEEDED
      | R_conflict \<Rightarrow> FAILED_PERMANENT
      | R_not_found \<Rightarrow> AMBIGUOUS
      | R_inconclusive \<Rightarrow> AMBIGUOUS)"

definition record_reconciliation_result ::
  "string \<Rightarrow> string \<Rightarrow> string \<Rightarrow> int \<Rightarrow> record_disposition \<Rightarrow> int option \<Rightarrow> string option
   \<Rightarrow> reconciliation_record_result prog" where
  "record_reconciliation_result jid aid token generation disp status rid =
     thn begin_immediate (rolling_back
     (bind (select (\<lambda>d. select_job d jid)) (\<lambda>job.
      bind (select (\<lambda>d. select_attempt d aid)) (\<lambda>attempt.
      bind formatted_now (\<lambda>now.
      if \<not> owns_active_attempt job attempt token generation now
      then thn rollback (ret ReconciliationPostFailure)
      else case (job, attempt) of
        (Some j, Some a) \<Rightarrow>
          thn (complete aid (record_change disp now status rid) jid (record_state disp) now)
          (ret (ReconciliationFinalized (with_job_state (record_state disp) now j)
             (record_change disp now status rid a)))
      | _ \<Rightarrow> raise AssertionError)))))"

section \<open>Late evidence\<close>

definition late_permanent_status :: "string \<Rightarrow> int option" where
  "late_permanent_status cat =
     (if cat = ''validation_rejected'' then Some 400
      else if cat = ''idempotency_conflict'' then Some 409
      else None)"

definition is_actionable_late_evidence :: "string option \<Rightarrow> int option \<Rightarrow> string option \<Rightarrow> bool" where
  "is_actionable_late_evidence cat status rid =
     (case cat of
        None \<Rightarrow> False
      | Some c \<Rightarrow>
          if c = ''processed'' then rid \<noteq> None \<and> status \<in> {Some 200, Some 201}
          else if late_permanent_status c \<noteq> None then status = late_permanent_status c
          else if c = ''rate_limited'' then status = Some 429
          else False)"

definition actionable_row :: "observation_row \<Rightarrow> bool" where
  "actionable_row r =
     is_actionable_late_evidence (evidence_category r) (observed_http_status r)
       (observed_remote_request_id r)"

definition unconsumed_late_rows :: "database \<Rightarrow> string \<Rightarrow> observation_row list" where
  "unconsumed_late_rows d aid =
     sort_key sequence_number
       (filter (\<lambda>r. observed_attempt_id r = aid \<and> is_late r \<and> consumed_at r = None)
         (attempt_observations d))"

definition act_on_late_evidence ::
  "job_row \<Rightarrow> attempt_row \<Rightarrow> string \<Rightarrow> string \<Rightarrow> instant \<Rightarrow> observation_row
   \<Rightarrow> late_evidence_result prog" where
  "act_on_late_evidence job attempt jid aid now_instant row =
     (let now = format_timestamp now_instant;
          cat = evidence_category row;
          status = observed_http_status row
      in if cat = Some ''processed'' then
           let change = with_success now status (observed_remote_request_id row)
           in thn (complete aid change jid SUCCEEDED now)
              (ret (LateEvidenceConsumed (with_job_state SUCCEEDED now job) (change attempt)))
         else if cat = Some ''rate_limited'' then
           bind (draw_policy_delay (attempt_number attempt)) (\<lambda>policy_ms.
           let delay_ms = effective_delay_ms policy_ms (observed_retry_after_ms row);
               s = retry_job_state (attempt_number attempt);
               change = with_retryable now status (Some ''rate_limited'') delay_ms
           in thn (execute (\<lambda>d. Inr (advance_gate
                     (format_timestamp (add_milliseconds now_instant delay_ms)) now d)))
              (thn (complete aid change jid s now)
              (ret (LateEvidenceConsumed (with_job_state s now job) (change attempt)))))
         else
           let change = with_permanent now status cat
           in thn (complete aid change jid FAILED_PERMANENT now)
              (ret (LateEvidenceConsumed (with_job_state FAILED_PERMANENT now job)
                (change attempt))))"

definition consume_late_observations ::
  "string \<Rightarrow> string \<Rightarrow> string \<Rightarrow> int \<Rightarrow> late_evidence_result prog" where
  "consume_late_observations jid aid token generation =
     thn begin_immediate (rolling_back
     (bind (select (\<lambda>d. select_job d jid)) (\<lambda>job.
      bind (select (\<lambda>d. select_attempt d aid)) (\<lambda>attempt.
      bind clock_now (\<lambda>now_instant.
      if \<not> owns_active_attempt job attempt token generation (format_timestamp now_instant)
      then thn rollback (ret LatePostFailure)
      else case (job, attempt) of
        (Some j, Some a) \<Rightarrow>
          bind (select (\<lambda>d. unconsumed_late_rows d aid)) (\<lambda>rows.
          case find_first actionable_row rows of
            None \<Rightarrow> thn commit (ret NoActionableLateEvidence)
          | Some row \<Rightarrow>
              thn (execute (\<lambda>d. Inr (update_observation (observation_id row)
                     (with_consumed (format_timestamp now_instant)) d)))
              (act_on_late_evidence j a jid aid now_instant row))
      | _ \<Rightarrow> raise AssertionError)))))"

end
