(* ===== verification/Lifecycle.thy ===== *)
theory Lifecycle
  imports Recording
begin

text \<open>
  The durable state machine the transactions implement: a step relation on databases, the
  well-formedness of a database, and its preservation by every step.

  A transaction is a sequence of steps committed together.  The steps say what may change and
  under which condition; \<open>Refinement\<close> proves that the transactions do nothing else.
\<close>

section \<open>Well-formed databases\<close>

text \<open>What the schema enforces: the CHECK constraints, the keys, the foreign keys.\<close>

definition rows_ok :: "database \<Rightarrow> bool" where
  "rows_ok d \<longleftrightarrow>
     (\<forall>r\<in>set (jobs d). job_checks r)
     \<and> (\<forall>r\<in>set (submission_attempts d). attempt_checks r)
     \<and> (\<forall>r\<in>set (attempt_observations d). observation_checks r)"

definition keys_ok :: "database \<Rightarrow> bool" where
  "keys_ok d \<longleftrightarrow>
     distinct (map job_id (jobs d))
     \<and> distinct (map idempotency_key (jobs d))
     \<and> distinct (map attempt_id (submission_attempts d))
     \<and> distinct (map observation_id (attempt_observations d))
     \<and> distinct (map (\<lambda>r. (observed_attempt_id r, sequence_number r)) (attempt_observations d))
     \<and> distinct (map (\<lambda>r. (sequence_id r, request_ordinal r)) (attempt_observations d))"

definition references_ok :: "database \<Rightarrow> bool" where
  "references_ok d \<longleftrightarrow>
     (\<forall>r\<in>set (submission_attempts d). attempt_job_id r \<in> set (map job_id (jobs d)))
     \<and> (\<forall>r\<in>set (attempt_observations d).
          observed_attempt_id r \<in> set (map attempt_id (submission_attempts d)))"

text \<open>
  What the schema cannot express (ADR-006): a Job's attempts are numbered from one without
  gaps, at most three, every one but the last failed retryably, and the last one fits the
  Job's state.
\<close>

definition last_fits :: "job_state \<Rightarrow> attempt_row list \<Rightarrow> bool" where
  "last_fits s as =
     (case s of
        PENDING \<Rightarrow> as = []
      | SUBMITTING \<Rightarrow> as \<noteq> [] \<and> astate (last as) = A_STARTED
      | RETRY_SCHEDULED \<Rightarrow> as \<noteq> [] \<and> astate (last as) = A_RETRYABLE_FAILURE
          \<and> retry_after_ms (last as) \<noteq> None \<and> length as < 3
      | SUCCEEDED \<Rightarrow> as \<noteq> [] \<and> astate (last as) = A_SUCCEEDED \<and> success_evidence_ok (last as)
      | FAILED_PERMANENT \<Rightarrow> as \<noteq> []
          \<and> (astate (last as) = A_PERMANENT_FAILURE
             \<or> astate (last as) = A_RETRYABLE_FAILURE \<and> length as = 3)
      | AMBIGUOUS \<Rightarrow> as \<noteq> [] \<and> astate (last as) = A_AMBIGUOUS
      | Other_job_state _ \<Rightarrow> False)"

definition job_shape :: "job_row \<Rightarrow> attempt_row list \<Rightarrow> bool" where
  "job_shape j as \<longleftrightarrow>
     map attempt_number as = [1..int (length as)]
     \<and> length as \<le> 3
     \<and> (\<forall>a\<in>set (butlast as). astate a = A_RETRYABLE_FAILURE)
     \<and> last_fits (jstate j) as"

definition shapes_ok :: "database \<Rightarrow> bool" where
  "shapes_ok d \<longleftrightarrow> (\<forall>j\<in>set (jobs d). job_shape j (attempts_of d (job_id j)))"

definition db_ok :: "database \<Rightarrow> bool" where
  "db_ok d \<longleftrightarrow> rows_ok d \<and> keys_ok d \<and> references_ok d \<and> shapes_ok d"

lemma db_okD:
  assumes "db_ok d"
  shows "rows_ok d" "keys_ok d" "references_ok d" "shapes_ok d"
  using assms by (simp_all add: db_ok_def)

lemma empty_database_ok: "db_ok empty_database"
  by (simp add: db_ok_def rows_ok_def keys_ok_def references_ok_def shapes_ok_def
      empty_database_def)

section \<open>Steps\<close>

text \<open>The next attempt a Job may start: the first of a pending one, the next of a scheduled one.\<close>

definition startable :: "database \<Rightarrow> job_row \<Rightarrow> int \<Rightarrow> bool" where
  "startable d j number \<longleftrightarrow>
     jstate j = PENDING \<and> number = 1
     \<or> jstate j = RETRY_SCHEDULED
       \<and> (case select_latest_attempt d (job_id j) of
            None \<Rightarrow> False
          | Some l \<Rightarrow> astate l = A_RETRYABLE_FAILURE \<and> number = attempt_number l + 1)"

text \<open>The active attempt of a Job.\<close>

definition active :: "database \<Rightarrow> string \<Rightarrow> string \<Rightarrow> job_row \<Rightarrow> attempt_row \<Rightarrow> bool" where
  "active d jid aid j a \<longleftrightarrow>
     select_job d jid = Some j \<and> select_attempt d aid = Some a
     \<and> attempt_job_id a = jid \<and> jstate j = SUBMITTING \<and> astate a = A_STARTED"

text \<open>How an active attempt may end, and the state its Job moves to.\<close>

inductive ending :: "attempt_row \<Rightarrow> (attempt_row \<Rightarrow> attempt_row) \<Rightarrow> job_state \<Rightarrow> bool" where
  ending_success:
    "status \<in> {Some 200, Some 201} \<Longrightarrow> rid \<noteq> None \<Longrightarrow> ending a (with_success now status rid) SUCCEEDED"
| ending_permanent: "ending a (with_permanent now status cat) FAILED_PERMANENT"
| ending_conflict: "ending a (with_conflict now) FAILED_PERMANENT"
| ending_retryable:
    "ending a (with_retryable now status cat delay) (retry_job_state (attempt_number a))"
| ending_ambiguous: "ending a (with_ambiguous now cat) AMBIGUOUS"

inductive db_step :: "database \<Rightarrow> database \<Rightarrow> bool" where
  step_create:
    "insert_job_row (new_job jid key bytes now) d = Inr d' \<Longrightarrow> db_step d d'"
| step_start:
    "select_job d jid = Some j \<Longrightarrow> startable d j number \<Longrightarrow>
     insert_attempt_row (new_attempt aid jid number now token expires) d = Inr d1 \<Longrightarrow>
     update_job jid (with_job_state SUBMITTING now) d1 = Inr d' \<Longrightarrow> db_step d d'"
| step_renew:
    "select_attempt d aid = Some a \<Longrightarrow> astate a = A_STARTED \<Longrightarrow>
     update_attempt aid (with_lease expires) d = Inr d' \<Longrightarrow> db_step d d'"
| step_claim:
    "select_attempt d aid = Some a \<Longrightarrow> astate a = A_STARTED \<Longrightarrow>
     update_attempt aid (with_claim token (fencing_generation a + 1) expires) d = Inr d' \<Longrightarrow>
     db_step d d'"
| step_end:
    "active d jid aid j a \<Longrightarrow> ending a change s \<Longrightarrow>
     update_attempt aid change d = Inr d1 \<Longrightarrow>
     update_job jid (with_job_state s now) d1 = Inr d' \<Longrightarrow> db_step d d'"
| step_observe: "insert_observation_row r d = Inr d' \<Longrightarrow> db_step d d'"
| step_consume:
    "r \<in> set (attempt_observations d) \<Longrightarrow> is_late r \<Longrightarrow> consumed_at r = None \<Longrightarrow>
     db_step d (update_observation (observation_id r) (with_consumed now) d)"
| step_gate: "db_step d (advance_gate candidate now d)"

abbreviation db_steps :: "database \<Rightarrow> database \<Rightarrow> bool" where
  "db_steps \<equiv> db_step\<^sup>*\<^sup>*"

inductive_cases db_stepE: "db_step d d'"

section \<open>Statements and lookups\<close>

lemma insert_job_rowD:
  assumes "insert_job_row r d = Inr d'"
  shows "d' = d\<lparr>jobs := jobs d @ [r]\<rparr>" "job_checks r"
    "idempotency_key r \<notin> set (map idempotency_key (jobs d))" "job_id r \<notin> set (map job_id (jobs d))"
  using assms by (simp_all add: insert_job_row_def split: if_splits)

lemma insert_attempt_rowD:
  assumes "insert_attempt_row r d = Inr d'"
  shows "d' = d\<lparr>submission_attempts := submission_attempts d @ [r]\<rparr>" "attempt_checks r"
    "attempt_id r \<notin> set (map attempt_id (submission_attempts d))"
    "attempt_job_id r \<in> set (map job_id (jobs d))"
    "\<forall>s\<in>set (submission_attempts d). astate r = A_STARTED \<longrightarrow> astate s = A_STARTED \<longrightarrow>
       attempt_job_id s \<noteq> attempt_job_id r"
  using assms by (auto simp: insert_attempt_row_def list_ex_iff split: if_splits)

lemma insert_observation_rowD:
  assumes "insert_observation_row r d = Inr d'"
  shows "d' = d\<lparr>attempt_observations := attempt_observations d @ [r]\<rparr>" "observation_checks r"
    "observation_id r \<notin> set (map observation_id (attempt_observations d))"
    "observed_attempt_id r \<in> set (map attempt_id (submission_attempts d))"
    "(observed_attempt_id r, sequence_number r) \<notin>
       set (map (\<lambda>r. (observed_attempt_id r, sequence_number r)) (attempt_observations d))"
    "(sequence_id r, request_ordinal r) \<notin>
       set (map (\<lambda>r. (sequence_id r, request_ordinal r)) (attempt_observations d))"
  using assms by (auto simp: insert_observation_row_def list_ex_iff split: if_splits)

lemma update_jobD:
  assumes "update_job jid f d = Inr d'"
  shows "d' = d\<lparr>jobs := map (\<lambda>r. if job_id r = jid then f r else r) (jobs d)\<rparr>"
    "\<And>r. r \<in> set (jobs d) \<Longrightarrow> job_id r = jid \<Longrightarrow> job_checks (f r)"
  using assms by (auto simp: update_job_def list_ex_iff split: if_splits)

lemma update_attemptD:
  assumes "update_attempt aid f d = Inr d'"
  shows "d' = d\<lparr>submission_attempts :=
      map (\<lambda>r. if attempt_id r = aid then f r else r) (submission_attempts d)\<rparr>"
    "\<And>r. r \<in> set (submission_attempts d) \<Longrightarrow> attempt_id r = aid \<Longrightarrow> attempt_checks (f r)"
  using assms by (auto simp: update_attempt_def list_ex_iff split: if_splits)

lemma select_jobD: "select_job d jid = Some j \<Longrightarrow> j \<in> set (jobs d) \<and> job_id j = jid"
  by (auto simp: select_job_def dest: find_first_SomeD)

lemma select_attemptD:
  "select_attempt d aid = Some a \<Longrightarrow> a \<in> set (submission_attempts d) \<and> attempt_id a = aid"
  by (auto simp: select_attempt_def dest: find_first_SomeD)

lemma find_job_by_keyD:
  "find_job_by_key d key = Some j \<Longrightarrow> j \<in> set (jobs d) \<and> idempotency_key j = key"
  by (auto simp: find_job_by_key_def dest: find_first_SomeD)

lemma key_unique:
  assumes "distinct (map f xs)" "x \<in> set xs" "y \<in> set xs" "f x = f y"
  shows "x = y"
  using assms by (meson distinct_map inj_onD)

lemma select_job_iff:
  assumes "keys_ok d"
  shows "select_job d jid = Some j \<longleftrightarrow> j \<in> set (jobs d) \<and> job_id j = jid"
  using assms unfolding select_job_def keys_ok_def
  by (metis (mono_tags, lifting) find_first_SomeD find_first_unique key_unique)

lemma select_attempt_iff:
  assumes "keys_ok d"
  shows "select_attempt d aid = Some a \<longleftrightarrow> a \<in> set (submission_attempts d) \<and> attempt_id a = aid"
  using assms unfolding select_attempt_def keys_ok_def
  by (metis (mono_tags, lifting) find_first_SomeD find_first_unique key_unique)

text \<open>The row changes keep the columns that identify a row.\<close>

lemma change_keeps [simp]:
  "attempt_id (with_success n s r a) = attempt_id a"
  "attempt_id (with_permanent n s c a) = attempt_id a"
  "attempt_id (with_conflict n a) = attempt_id a"
  "attempt_id (with_retryable n s c ms a) = attempt_id a"
  "attempt_id (with_ambiguous n k a) = attempt_id a"
  "attempt_id (with_lease e a) = attempt_id a"
  "attempt_id (with_claim t g e a) = attempt_id a"
  "attempt_job_id (with_success n s r a) = attempt_job_id a"
  "attempt_job_id (with_permanent n s c a) = attempt_job_id a"
  "attempt_job_id (with_conflict n a) = attempt_job_id a"
  "attempt_job_id (with_retryable n s c ms a) = attempt_job_id a"
  "attempt_job_id (with_ambiguous n k a) = attempt_job_id a"
  "attempt_job_id (with_lease e a) = attempt_job_id a"
  "attempt_job_id (with_claim t g e a) = attempt_job_id a"
  "attempt_number (with_success n s r a) = attempt_number a"
  "attempt_number (with_permanent n s c a) = attempt_number a"
  "attempt_number (with_conflict n a) = attempt_number a"
  "attempt_number (with_retryable n s c ms a) = attempt_number a"
  "attempt_number (with_ambiguous n k a) = attempt_number a"
  "attempt_number (with_lease e a) = attempt_number a"
  "attempt_number (with_claim t g e a) = attempt_number a"
  by (simp_all add: with_success_def with_permanent_def with_conflict_def with_retryable_def
      with_ambiguous_def with_lease_def with_claim_def)

lemma change_states [simp]:
  "astate (with_success n s r a) = A_SUCCEEDED"
  "astate (with_permanent n s c a) = A_PERMANENT_FAILURE"
  "astate (with_conflict n a) = A_PERMANENT_FAILURE"
  "astate (with_retryable n s c ms a) = A_RETRYABLE_FAILURE"
  "retry_after_ms (with_retryable n s c ms a) = Some ms"
  "astate (with_ambiguous n k a) = A_AMBIGUOUS"
  "astate (with_lease e a) = astate a"
  "astate (with_claim t g e a) = astate a"
  "http_status (with_success n s r a) = s"
  "remote_request_id (with_success n s r a) = r"
  by (simp_all add: with_success_def with_permanent_def with_conflict_def with_retryable_def
      with_ambiguous_def with_lease_def with_claim_def)

lemma with_job_state_sel [simp]:
  "job_id (with_job_state s now j) = job_id j"
  "idempotency_key (with_job_state s now j) = idempotency_key j"
  "payload_canonical (with_job_state s now j) = payload_canonical j"
  "jstate (with_job_state s now j) = s"
  "created_at (with_job_state s now j) = created_at j"
  "updated_at (with_job_state s now j) = now"
  by (simp_all add: with_job_state_def)

lemma new_rows [simp]:
  "job_id (new_job jid key bytes now) = jid" "idempotency_key (new_job jid key bytes now) = key"
  "payload_canonical (new_job jid key bytes now) = bytes" "jstate (new_job jid key bytes now) = PENDING"
  "attempt_id (new_attempt aid jid n now token e) = aid"
  "attempt_job_id (new_attempt aid jid n now token e) = jid"
  "attempt_number (new_attempt aid jid n now token e) = n"
  "astate (new_attempt aid jid n now token e) = A_STARTED"
  "owner_token (new_attempt aid jid n now token e) = Some token"
  "fencing_generation (new_attempt aid jid n now token e) = 1"
  "lease_expires_at (new_attempt aid jid n now token e) = Some e"
  by (simp_all add: new_job_def new_attempt_def INITIAL_FENCING_GENERATION_def)

lemma with_consumed_sel [simp]:
  "observation_id (with_consumed now r) = observation_id r"
  "observed_attempt_id (with_consumed now r) = observed_attempt_id r"
  "sequence_id (with_consumed now r) = sequence_id r"
  "sequence_number (with_consumed now r) = sequence_number r"
  "request_ordinal (with_consumed now r) = request_ordinal r"
  "observation_checks (with_consumed now r) = observation_checks r"
  by (simp_all add: with_consumed_def observation_checks_def)

lemma ending_keeps:
  assumes "ending a change s"
  shows "attempt_id (change b) = attempt_id b" "attempt_job_id (change b) = attempt_job_id b"
    "attempt_number (change b) = attempt_number b" "astate (change b) \<noteq> A_STARTED"
  using assms by (auto elim: ending.cases)

end
