(* ===== verification/Invariant.thy ===== *)
theory Invariant
  imports Lifecycle
begin

text \<open>
  Every step keeps a database well-formed, keeps the identity of its rows, leaves finished
  Jobs and attempts alone and never moves the gate back.
\<close>

section \<open>The attempts of a Job\<close>

lemma latest_of_numbered:
  assumes "map attempt_number as = [m..int (length as) + m - 1]" "as \<noteq> []"
  shows "latest_of as = Some (last as)"
  using assms
proof (induction as arbitrary: m)
  case Nil
  then show ?case by simp
next
  case (Cons r rs)
  have "map attempt_number rs = [m + 1..int (length rs) + (m + 1) - 1] \<and> attempt_number r = m"
    using Cons.prems(1) by (auto simp: upto.simps[of m] split: if_splits)
  then have rs: "map attempt_number rs = [m + 1..int (length rs) + (m + 1) - 1]"
    and r: "attempt_number r = m" by blast+
  show ?case
  proof (cases "rs = []")
    case True
    then show ?thesis by simp
  next
    case False
    have "attempt_number (last rs) \<in> set (map attempt_number rs)" using False by simp
    then have "m < attempt_number (last rs)" unfolding rs set_upto by simp
    with Cons.IH[OF rs False] r False show ?thesis by simp
  qed
qed

lemma shape_latest:
  assumes "job_shape j as"
  shows "latest_of as = (if as = [] then None else Some (last as))"
  using assms latest_of_numbered[of as 1] by (auto simp: job_shape_def)

lemma shape_last_number:
  assumes "job_shape j as" "as \<noteq> []"
  shows "attempt_number (last as) = int (length as)"
proof -
  have "last (map attempt_number as) = last [1..int (length as)]"
    using assms(1) by (simp add: job_shape_def)
  moreover have "1 \<le> int (length as)" using assms(2) by (cases as) simp_all
  ultimately show ?thesis using assms(2) by (simp add: last_map upto_rec2)
qed

lemma shape_started:
  assumes "job_shape j as" "a \<in> set as" "astate a = A_STARTED"
  shows "as = butlast as @ [a] \<and> jstate j = SUBMITTING"
proof -
  have ne: "as \<noteq> []" using assms(2) by auto
  then have as: "as = butlast as @ [last as]" by simp
  have "a \<notin> set (butlast as)" using assms(1,3) by (auto simp: job_shape_def)
  moreover have "a \<in> set (butlast as) \<union> {last as}"
    using assms(2) as by (metis Un_insert_right empty_set list.simps(15) set_append)
  ultimately have a: "a = last as" by simp
  then have "jstate j = SUBMITTING"
    using assms(1,3) ne by (auto simp: job_shape_def last_fits_def split: job_state.splits)
  with a as show ?thesis by simp
qed

lemma shape_submitting:
  assumes "job_shape j as" "jstate j = SUBMITTING"
  obtains bs a where "as = bs @ [a]" "astate a = A_STARTED"
proof -
  from assms have "as \<noteq> []" "astate (last as) = A_STARTED"
    by (simp_all add: job_shape_def last_fits_def)
  with that[of "butlast as" "last as"] show thesis by simp
qed

lemma shape_replace_last:
  assumes "job_shape j (bs @ [a])" "attempt_number a' = attempt_number a"
    "last_fits (jstate j') (bs @ [a'])"
  shows "job_shape j' (bs @ [a'])"
  using assms by (simp add: job_shape_def)

lemma attempts_of_job: "a \<in> set (attempts_of d jid) \<longleftrightarrow> a \<in> set (submission_attempts d) \<and> attempt_job_id a = jid"
  by (auto simp: attempts_of_def)

lemma job_shape_of: "db_ok d \<Longrightarrow> j \<in> set (jobs d) \<Longrightarrow> job_shape j (attempts_of d (job_id j))"
  by (simp add: db_ok_def shapes_ok_def)

lemma started_in_submitting:
  assumes "db_ok d" "j \<in> set (jobs d)" "a \<in> set (submission_attempts d)" "attempt_job_id a = job_id j"
    "astate a = A_STARTED"
  shows "jstate j = SUBMITTING" "a = last (attempts_of d (job_id j))"
  using shape_started[OF job_shape_of[OF assms(1,2)] _ assms(5)] assms(3,4)
  by (auto simp: attempts_of_job) (metis last_snoc)

lemma attempts_of_update_other:
  assumes "keys_ok d" "select_attempt d aid = Some a" "\<And>b. attempt_job_id (f b) = attempt_job_id b"
    "jid \<noteq> attempt_job_id a"
  shows "filter (\<lambda>r. attempt_job_id r = jid)
      (map (\<lambda>r. if attempt_id r = aid then f r else r) (submission_attempts d)) = attempts_of d jid"
proof -
  have eq: "r = a" if "r \<in> set (submission_attempts d)" "attempt_id r = aid" for r
    using that assms(1,2) select_attempt_iff by (metis option.inject)
  show ?thesis unfolding attempts_of_def filter_map o_def
  proof (rule map_idI[THEN trans])
    show "filter (\<lambda>r. attempt_job_id (if attempt_id r = aid then f r else r) = jid) (submission_attempts d)
      = filter (\<lambda>r. attempt_job_id r = jid) (submission_attempts d)"
      by (rule filter_cong) (simp_all add: assms(3))
  qed (use eq assms(3,4) in \<open>auto split: if_splits\<close>)
qed

lemma attempts_of_update_same:
  assumes "keys_ok d" "\<And>b. attempt_job_id (f b) = attempt_job_id b"
    "attempts_of d jid = bs @ [a]"
  shows "filter (\<lambda>r. attempt_job_id r = jid)
      (map (\<lambda>r. if attempt_id r = attempt_id a then f r else r) (submission_attempts d)) = bs @ [f a]"
proof -
  let ?g = "\<lambda>r. if attempt_id r = attempt_id a then f r else r"
  have "distinct (map attempt_id (attempts_of d jid))"
    using assms(1) by (simp add: keys_ok_def attempts_of_def distinct_map_filter)
  then have "\<forall>b\<in>set bs. attempt_id b \<noteq> attempt_id a"
    unfolding assms(3) map_append list.map distinct_append by (metis disjoint_iff
        image_eqI list.set_intros(1) list.set_map)
  then have "map ?g bs = bs" by (simp add: map_idI)
  moreover have "filter (\<lambda>r. attempt_job_id r = jid) (map ?g (submission_attempts d))
      = map ?g (attempts_of d jid)"
    unfolding attempts_of_def filter_map o_def
    by (rule arg_cong[where f = "map ?g"], rule filter_cong) (simp_all add: assms(2))
  ultimately show ?thesis by (simp add: assms(3))
qed

lemma started_last:
  assumes "db_ok d" "select_attempt d aid = Some a" "astate a = A_STARTED"
  obtains j bs where "select_job d (attempt_job_id a) = Some j"
    "attempts_of d (attempt_job_id a) = bs @ [a]" "jstate j = SUBMITTING"
    "job_shape j (bs @ [a])"
proof -
  note ok = db_okD[OF assms(1)]
  have a: "a \<in> set (submission_attempts d)" using select_attemptD[OF assms(2)] by blast
  then have "attempt_job_id a \<in> set (map job_id (jobs d))"
    using ok(3) by (auto simp: references_ok_def)
  then obtain j where j: "j \<in> set (jobs d)" "job_id j = attempt_job_id a" by auto
  then have sel: "select_job d (attempt_job_id a) = Some j"
    using ok(2) by (simp add: select_job_iff)
  have sh: "job_shape j (attempts_of d (attempt_job_id a))"
    using ok(4) j by (auto simp: shapes_ok_def)
  from shape_started[OF sh _ assms(3)] a
  have "attempts_of d (attempt_job_id a) = butlast (attempts_of d (attempt_job_id a)) @ [a]"
    "jstate j = SUBMITTING"
    by (auto simp: attempts_of_job)
  with that[of j "butlast (attempts_of d (attempt_job_id a))"] sel sh show thesis by simp
qed

section \<open>Keys, rows and references\<close>

lemma map_update_keep:
  assumes "\<And>r. key (f r) = key r"
  shows "map key (map (\<lambda>r. if p r then f r else r) xs) = map key xs"
  by (simp add: assms)

lemma insert_job_ok:
  assumes ok: "db_ok d" and ins: "insert_job_row (new_job jid key bytes now) d = Inr d'"
  shows "db_ok d'"
proof -
  note s = insert_job_rowD[OF ins]
  note ok' = db_okD[OF ok]
  have "rows_ok d'" "keys_ok d'" "references_ok d'"
    using s ok'(1-3) by (auto simp: rows_ok_def keys_ok_def references_ok_def)
  moreover have "attempts_of d' jid = []"
    using s ok'(3) by (fastforce simp: attempts_of_def references_ok_def filter_empty_conv)
  then have "shapes_ok d'"
    using s ok'(4) by (auto simp: shapes_ok_def job_shape_def last_fits_def attempts_of_def)
  ultimately show ?thesis by (simp add: db_ok_def)
qed

lemma update_job_keys:
  assumes "update_job jid (with_job_state s now) d = Inr d'"
  shows "map job_id (jobs d') = map job_id (jobs d)"
    "map idempotency_key (jobs d') = map idempotency_key (jobs d)"
    "map payload_canonical (jobs d') = map payload_canonical (jobs d)"
    "map created_at (jobs d') = map created_at (jobs d)"
    "submission_attempts d' = submission_attempts d"
    "attempt_observations d' = attempt_observations d"
    "service_rate_limit_gate d' = service_rate_limit_gate d"
  using update_jobD(1)[OF assms] by simp_all

lemma update_job_rows:
  assumes "update_job jid f d = Inr d'" "rows_ok d"
  shows "rows_ok d'"
  using update_jobD[OF assms(1)] assms(2) by (auto simp: rows_ok_def)

lemma update_attempt_rows:
  assumes "update_attempt aid f d = Inr d'" "rows_ok d"
  shows "rows_ok d'"
  using update_attemptD[OF assms(1)] assms(2) by (auto simp: rows_ok_def)

lemma update_attempt_keys:
  assumes "update_attempt aid f d = Inr d'" "\<And>b. attempt_id (f b) = attempt_id b"
    "\<And>b. attempt_job_id (f b) = attempt_job_id b"
  shows "jobs d' = jobs d"
    "map attempt_id (submission_attempts d') = map attempt_id (submission_attempts d)"
    "map attempt_job_id (submission_attempts d') = map attempt_job_id (submission_attempts d)"
    "attempt_observations d' = attempt_observations d"
    "service_rate_limit_gate d' = service_rate_limit_gate d"
  using update_attemptD(1)[OF assms(1)] assms(2,3) by simp_all

lemma update_attempt_keys_ok:
  assumes "update_attempt aid f d = Inr d'" "\<And>b. attempt_id (f b) = attempt_id b"
    "\<And>b. attempt_job_id (f b) = attempt_job_id b"
  shows "keys_ok d' = keys_ok d" "references_ok d \<Longrightarrow> references_ok d'"
proof -
  note k = update_attempt_keys[OF assms]
  show "keys_ok d' = keys_ok d" by (simp add: keys_ok_def k)
  assume r: "references_ok d"
  have "set (map attempt_job_id (submission_attempts d')) \<subseteq> set (map job_id (jobs d'))"
    using r by (auto simp: k(1,3) references_ok_def simp del: set_map) (auto)
  then show "references_ok d'"
    using r k(4) unfolding references_ok_def k(2) by auto
qed

lemma update_job_keys_ok:
  assumes "update_job jid (with_job_state s now) d = Inr d'"
  shows "keys_ok d' = keys_ok d" "references_ok d' = references_ok d"
  using update_job_keys[OF assms] by (simp_all add: keys_ok_def references_ok_def)

section \<open>Shapes\<close>

text \<open>Replacing an active attempt by another state of it, and moving its Job.\<close>

lemma update_attempt_shapes:
  assumes ok: "db_ok d" and sel: "select_attempt d aid = Some a" "astate a = A_STARTED"
    and upd: "update_attempt aid f d = Inr d'"
    and keep: "\<And>b. attempt_id (f b) = attempt_id b" "\<And>b. attempt_job_id (f b) = attempt_job_id b"
      "\<And>b. attempt_number (f b) = attempt_number b"
    and started: "astate (f a) = A_STARTED"
  shows "shapes_ok d'"
  unfolding shapes_ok_def
proof
  fix j assume j: "j \<in> set (jobs d')"
  note d' = update_attemptD(1)[OF upd]
  note k = db_okD(2)[OF ok]
  from j have jd: "j \<in> set (jobs d)" by (simp add: d')
  with db_okD(4)[OF ok] have sh: "job_shape j (attempts_of d (job_id j))" by (simp add: shapes_ok_def)
  from started_last[OF ok sel] obtain jo bs where
    l: "attempts_of d (attempt_job_id a) = bs @ [a]" by metis
  have aid: "attempt_id a = aid" using select_attemptD[OF sel(1)] by simp
  show "job_shape j (attempts_of d' (job_id j))"
  proof (cases "job_id j = attempt_job_id a")
    case True
    with l sh have sh': "job_shape j (bs @ [a])" by simp
    have "attempts_of d' (job_id j) = bs @ [f a]"
      using attempts_of_update_same[OF k keep(2) l] by (simp add: attempts_of_def d' True aid)
    moreover have "jstate j = SUBMITTING" using shape_started[OF sh' _ sel(2)] by simp
    ultimately show ?thesis
      using shape_replace_last[OF sh' keep(3)] started by (simp add: last_fits_def)
  next
    case False
    then have "attempts_of d' (job_id j) = attempts_of d (job_id j)"
      using attempts_of_update_other[OF k sel(1) keep(2)] by (simp add: attempts_of_def d')
    with sh show ?thesis by simp
  qed
qed

lemma ending_fits:
  assumes "ending a change s" "job_shape j (bs @ [a])"
  shows "last_fits s (bs @ [change a])"
proof -
  have n: "attempt_number a = int (length bs) + 1" "length bs \<le> 2"
    using shape_last_number[OF assms(2)] assms(2) by (simp_all add: job_shape_def)
  from assms(1) show ?thesis
  proof cases
    case (ending_success status rid now)
    then show ?thesis by (auto simp: last_fits_def success_evidence_ok_def)
  next
    case (ending_retryable now status cat delay)
    with n show ?thesis
      by (auto simp: last_fits_def retry_job_state_def MAX_SUBMISSION_ATTEMPTS_def)
  qed (simp_all add: last_fits_def)
qed

lemma ending_shapes:
  assumes ok: "db_ok d" and act: "active d jid aid j a" and e: "ending a change s"
    and upd: "update_attempt aid change d = Inr d1"
    and upj: "update_job jid (with_job_state s now) d1 = Inr d'"
  shows "shapes_ok d'"
  unfolding shapes_ok_def
proof
  fix j' assume "j' \<in> set (jobs d')"
  note d1 = update_attemptD(1)[OF upd] and d' = update_jobD(1)[OF upj]
  note k = db_okD(2)[OF ok] and keep = ending_keeps[OF e]
  have a: "select_attempt d aid = Some a" "astate a = A_STARTED" "attempt_job_id a = jid"
    "attempt_id a = aid" "select_job d jid = Some j"
    using act select_attemptD by (auto simp: active_def)
  from started_last[OF ok a(1,2)] obtain bs where
    l: "attempts_of d jid = bs @ [a]" and shj: "job_shape j (bs @ [a])"
    by (metis a(3,5) option.inject)
  from \<open>j' \<in> set (jobs d')\<close> obtain j0 where j0: "j0 \<in> set (jobs d)"
    and j': "j' = (if job_id j0 = jid then with_job_state s now j0 else j0)"
    by (auto simp: d' d1)
  have sh0: "job_shape j0 (attempts_of d (job_id j0))"
    using db_okD(4)[OF ok] j0 by (simp add: shapes_ok_def)
  show "job_shape j' (attempts_of d' (job_id j'))"
  proof (cases "job_id j0 = jid")
    case True
    have "attempts_of d' jid = bs @ [change a]"
      using attempts_of_update_same[OF k keep(2) l] by (simp add: attempts_of_def d' d1 a(4))
    with True j' shape_replace_last[OF _ keep(3)] ending_fits[OF e shj] shj show ?thesis
      by simp
  next
    case False
    then have "attempts_of d' (job_id j0) = attempts_of d (job_id j0)"
      using attempts_of_update_other[OF k a(1) keep(2)] a(3) by (simp add: attempts_of_def d' d1)
    with False j' sh0 show ?thesis by simp
  qed
qed

lemma startable_number:
  assumes "job_shape j as" "as = attempts_of d (job_id j)" "startable d j number"
  shows "number = int (length as) + 1" "length as < 3" "\<forall>a\<in>set as. astate a = A_RETRYABLE_FAILURE"
proof -
  have "number = int (length as) + 1 \<and> length as < 3 \<and> (as \<noteq> [] \<longrightarrow> astate (last as) = A_RETRYABLE_FAILURE)"
    using assms shape_latest[OF assms(1)] shape_last_number[OF assms(1)]
    by (auto simp: startable_def select_latest_attempt_def job_shape_def last_fits_def split: if_splits)
  moreover have "\<forall>a\<in>set (butlast as). astate a = A_RETRYABLE_FAILURE"
    using assms(1) by (simp add: job_shape_def)
  ultimately show "number = int (length as) + 1" "length as < 3"
    "\<forall>a\<in>set as. astate a = A_RETRYABLE_FAILURE"
    by (auto simp: in_set_butlastD) (metis append_butlast_last_id empty_iff empty_set in_set_conv_decomp
        rotate1.simps(2) set_ConsD set_rotate1)
qed

lemma start_ok:
  assumes ok: "db_ok d" and j: "select_job d jid = Some j" and st: "startable d j number"
    and ins: "insert_attempt_row (new_attempt aid jid number now token expires) d = Inr d1"
    and upj: "update_job jid (with_job_state SUBMITTING now) d1 = Inr d'"
  shows "db_ok d'"
proof -
  note i = insert_attempt_rowD[OF ins] and u = update_jobD(1)[OF upj]
  note ok' = db_okD[OF ok]
  have r1: "rows_ok d1" "keys_ok d1" "references_ok d1"
    using i ok'(1-3) by (auto simp: rows_ok_def keys_ok_def references_ok_def)
  then have "rows_ok d'" "keys_ok d'" "references_ok d'"
    using update_job_rows[OF upj] update_job_keys_ok[OF upj] by simp_all
  moreover have "shapes_ok d'" unfolding shapes_ok_def
  proof
    fix j' assume "j' \<in> set (jobs d')"
    then obtain j0 where j0: "j0 \<in> set (jobs d)"
      and j': "j' = (if job_id j0 = jid then with_job_state SUBMITTING now j0 else j0)"
      by (auto simp: u i(1))
    have sh: "job_shape j0 (attempts_of d (job_id j0))"
      using ok'(4) j0 by (simp add: shapes_ok_def)
    have at: "attempts_of d' x = (if x = jid then attempts_of d x @ [new_attempt aid jid number now token expires]
        else attempts_of d x)" for x
      by (simp add: attempts_of_def u i(1))
    show "job_shape j' (attempts_of d' (job_id j'))"
    proof (cases "job_id j0 = jid")
      case True
      then have "j0 = j" using j0 select_jobD[OF j] ok'(2) key_unique[of job_id] by (auto simp: keys_ok_def)
      with startable_number[OF sh _ ] st have n: "number = int (length (attempts_of d jid)) + 1"
        "length (attempts_of d jid) < 3"
        "\<forall>a\<in>set (attempts_of d jid). astate a = A_RETRYABLE_FAILURE"
        using True by auto
      with sh True show ?thesis
        by (simp add: job_shape_def last_fits_def j' at upto_rec2)
    next
      case False
      with sh j' show ?thesis by (simp add: at)
    qed
  qed
  ultimately show ?thesis by (simp add: db_ok_def)
qed

lemma end_ok:
  assumes ok: "db_ok d" and act: "active d jid aid j a" and e: "ending a change s"
    and upd: "update_attempt aid change d = Inr d1"
    and upj: "update_job jid (with_job_state s now) d1 = Inr d'"
  shows "db_ok d'"
proof -
  note ok' = db_okD[OF ok] and keep = ending_keeps[OF e]
  have "rows_ok d'" using update_job_rows[OF upj update_attempt_rows[OF upd ok'(1)]] .
  moreover have "keys_ok d'" "references_ok d'"
    using update_attempt_keys_ok[OF upd keep(1,2)] update_job_keys_ok[OF upj] ok'(2,3) by simp_all
  ultimately show ?thesis using ending_shapes[OF assms] by (simp add: db_ok_def)
qed

lemma touch_ok:
  assumes ok: "db_ok d" and sel: "select_attempt d aid = Some a" "astate a = A_STARTED"
    and upd: "update_attempt aid f d = Inr d'"
    and keep: "\<And>b. attempt_id (f b) = attempt_id b" "\<And>b. attempt_job_id (f b) = attempt_job_id b"
      "\<And>b. attempt_number (f b) = attempt_number b" "\<And>b. astate (f b) = astate b"
  shows "db_ok d'"
proof -
  note ok' = db_okD[OF ok]
  have "shapes_ok d'" by (rule update_attempt_shapes[OF ok sel upd keep(1-3)]) (simp add: keep sel)
  with update_attempt_rows[OF upd ok'(1)] update_attempt_keys_ok[OF upd keep(1,2)] ok'(2,3)
  show ?thesis by (simp add: db_ok_def)
qed

lemma observe_ok:
  assumes "db_ok d" "insert_observation_row r d = Inr d'"
  shows "db_ok d'"
  using db_okD[OF assms(1)] insert_observation_rowD[OF assms(2)]
  by (auto simp: db_ok_def rows_ok_def keys_ok_def references_ok_def shapes_ok_def attempts_of_def)

lemma consume_ok: "db_ok d \<Longrightarrow> db_ok (update_observation oid (with_consumed now) d)"
proof -
  assume ok: "db_ok d"
  let ?d = "update_observation oid (with_consumed now) d"
  have "map key (attempt_observations ?d) = map key (attempt_observations d)"
    if "\<And>r. key (with_consumed now r) = key r" for key :: "observation_row \<Rightarrow> 'b"
    unfolding update_observation_def using that by simp
  note keep = this
  have "keys_ok ?d = keys_ok d"
    by (simp add: keys_ok_def keep update_observation_def[of oid] del: list.map_comp map_map)
      (simp add: o_def if_distrib cong: if_cong)
  moreover have "rows_ok d \<Longrightarrow> rows_ok ?d" "references_ok d \<Longrightarrow> references_ok ?d"
    by (auto simp: rows_ok_def references_ok_def update_observation_def)
  moreover have "shapes_ok ?d = shapes_ok d"
    by (simp add: shapes_ok_def update_observation_def attempts_of_def)
  ultimately show ?thesis using ok by (simp add: db_ok_def)
qed

lemma gate_ok: "db_ok (advance_gate c now d) = db_ok d"
  by (simp add: db_ok_def rows_ok_def keys_ok_def references_ok_def shapes_ok_def attempts_of_def
      advance_gate_def)

lemma db_step_ok:
  assumes "db_step d d'" "db_ok d"
  shows "db_ok d'"
  using assms(1)
proof (cases rule: db_step.cases)
  case (step_create jid key bytes now)
  with assms(2) show ?thesis by (blast intro: insert_job_ok)
next
  case (step_start jid j number aid now token expires d1)
  with assms(2) show ?thesis by (meson start_ok)
next
  case (step_renew aid a expires)
  with assms(2) show ?thesis by (meson touch_ok change_keeps change_states)
next
  case (step_claim aid a token expires)
  with assms(2) show ?thesis by (meson touch_ok change_keeps change_states)
next
  case (step_end jid aid j a change s d1 now)
  with assms(2) show ?thesis by (meson end_ok)
qed (use assms(2) in \<open>auto simp: gate_ok intro: observe_ok consume_ok\<close>)

section \<open>What no step undoes\<close>

text \<open>
  Rows are never deleted or reordered, so the table after a step is the table before it, row
  by row in the relation \<open>rel\<close>, followed by new rows.
\<close>

definition extends :: "('a \<Rightarrow> 'a \<Rightarrow> bool) \<Rightarrow> 'a list \<Rightarrow> 'a list \<Rightarrow> bool" where
  "extends rel xs ys \<longleftrightarrow> list_all2 rel xs (take (length xs) ys)"

definition terminal_state :: "job_state \<Rightarrow> bool" where
  "terminal_state s \<longleftrightarrow> s \<in> {SUCCEEDED, FAILED_PERMANENT, AMBIGUOUS}"

text \<open>A Job keeps its identity and payload; a finished Job does not change at all.\<close>

definition job_le :: "job_row \<Rightarrow> job_row \<Rightarrow> bool" where
  "job_le j j' \<longleftrightarrow>
     job_id j' = job_id j \<and> idempotency_key j' = idempotency_key j
     \<and> payload_canonical j' = payload_canonical j \<and> created_at j' = created_at j
     \<and> (terminal_state (jstate j) \<longrightarrow> j' = j)"

text \<open>
  An attempt keeps its identity, its fencing generation never decreases, a change of owner
  increases it, and a completed attempt does not change at all.
\<close>

definition attempt_le :: "attempt_row \<Rightarrow> attempt_row \<Rightarrow> bool" where
  "attempt_le a a' \<longleftrightarrow>
     attempt_id a' = attempt_id a \<and> attempt_job_id a' = attempt_job_id a
     \<and> attempt_number a' = attempt_number a \<and> started_at a' = started_at a
     \<and> fencing_generation a \<le> fencing_generation a'
     \<and> (astate a' = A_STARTED \<longrightarrow> owner_token a' \<noteq> owner_token a \<longrightarrow>
          fencing_generation a < fencing_generation a')
     \<and> (astate a \<noteq> A_STARTED \<longrightarrow> a' = a)"

text \<open>An observation only gets its \<open>consumed_at\<close>, once, and only late evidence does.\<close>

definition observation_le :: "observation_row \<Rightarrow> observation_row \<Rightarrow> bool" where
  "observation_le r r' \<longleftrightarrow>
     r' = r\<lparr>consumed_at := consumed_at r'\<rparr>
     \<and> (consumed_at r' \<noteq> consumed_at r \<longrightarrow> consumed_at r = None \<and> is_late r)"

definition gate_le :: "timestamp option \<Rightarrow> timestamp option \<Rightarrow> bool" where
  "gate_le g g' =
     (case g of None \<Rightarrow> True | Some t \<Rightarrow> (case g' of None \<Rightarrow> False | Some t' \<Rightarrow> t \<le> t'))"

definition db_le :: "database \<Rightarrow> database \<Rightarrow> bool" where
  "db_le d d' \<longleftrightarrow>
     extends job_le (jobs d) (jobs d')
     \<and> extends attempt_le (submission_attempts d) (submission_attempts d')
     \<and> extends observation_le (attempt_observations d) (attempt_observations d')
     \<and> gate_le (read_gate_not_before d) (read_gate_not_before d')"

lemma job_le_refl [simp]: "job_le j j"
  by (simp add: job_le_def)

lemma attempt_le_refl [simp]: "attempt_le a a"
  by (simp add: attempt_le_def)

lemma observation_le_refl [simp]: "observation_le r r"
  by (simp add: observation_le_def)

lemma gate_le_refl [simp]: "gate_le g g"
  by (simp add: gate_le_def split: option.split)

lemma job_le_trans: "job_le a b \<Longrightarrow> job_le b c \<Longrightarrow> job_le a c"
  by (auto simp: job_le_def)

lemma attempt_le_trans: "attempt_le a b \<Longrightarrow> attempt_le b c \<Longrightarrow> attempt_le a c"
  unfolding attempt_le_def by (cases "astate b = A_STARTED") (metis order.trans order.strict_trans1 order.strict_trans2)+

lemma observation_le_trans: "observation_le a b \<Longrightarrow> observation_le b c \<Longrightarrow> observation_le a c"
  unfolding observation_le_def
  by (cases a; cases b; cases c) auto

lemma gate_le_trans: "gate_le a b \<Longrightarrow> gate_le b c \<Longrightarrow> gate_le a c"
  by (auto simp: gate_le_def split: option.splits)

lemma extends_map: "(\<And>x. x \<in> set xs \<Longrightarrow> rel x (h x)) \<Longrightarrow> extends rel xs (map h xs)"
  by (simp add: extends_def list_all2_map2 list.rel_refl_strong)

lemma extends_append: "(\<And>x. rel x x) \<Longrightarrow> extends rel xs (xs @ ys)"
  by (simp add: extends_def list.rel_refl)

lemma extends_refl: "(\<And>x. rel x x) \<Longrightarrow> extends rel xs xs"
  by (simp add: extends_def list.rel_refl)

lemma extends_trans:
  assumes "\<And>a b c. rel a b \<Longrightarrow> rel b c \<Longrightarrow> rel a c" "extends rel xs ys" "extends rel ys zs"
  shows "extends rel xs zs"
proof -
  have l: "length xs \<le> length ys" using assms(2) by (auto simp: extends_def dest: list_all2_lengthD)
  have "list_all2 rel (take (length xs) ys) (take (length xs) (take (length ys) zs))"
    using assms(3) unfolding extends_def by (rule list_all2_takeI)
  then have "list_all2 rel (take (length xs) ys) (take (length xs) zs)" using l by (simp add: min_def)
  with assms(1,2) show ?thesis unfolding extends_def by (rule list_all2_trans)
qed

lemma extends_member:
  assumes "extends rel xs ys" "x \<in> set xs"
  obtains y where "y \<in> set ys" "rel x y"
  using assms unfolding extends_def list_all2_conv_all_nth
  by (metis in_set_conv_nth in_set_takeD)

lemma db_le_refl [simp]: "db_le d d"
  by (simp add: db_le_def extends_refl)

lemma db_le_trans: "db_le a b \<Longrightarrow> db_le b c \<Longrightarrow> db_le a c"
  unfolding db_le_def
  by (meson extends_trans job_le_trans attempt_le_trans observation_le_trans gate_le_trans)

lemma update_job_le:
  assumes "update_job jid (with_job_state s now) d = Inr d'"
    "\<And>j. j \<in> set (jobs d) \<Longrightarrow> job_id j = jid \<Longrightarrow> \<not> terminal_state (jstate j)"
  shows "db_le d d'"
  using update_jobD(1)[OF assms(1)] assms(2)
  by (auto simp: db_le_def job_le_def read_gate_not_before_def intro!: extends_refl extends_map)

lemma update_attempt_le:
  assumes "update_attempt aid f d = Inr d'"
    "\<And>a. a \<in> set (submission_attempts d) \<Longrightarrow> attempt_id a = aid \<Longrightarrow> attempt_le a (f a)"
  shows "db_le d d'"
  using update_attemptD(1)[OF assms(1)] assms(2)
  by (auto simp: db_le_def read_gate_not_before_def intro!: extends_refl extends_map)

lemma ending_attempt_le:
  "ending a0 change s \<Longrightarrow> astate a = A_STARTED \<Longrightarrow> attempt_le a (change a)"
  by (erule ending.cases)
    (auto simp: attempt_le_def with_success_def with_permanent_def with_conflict_def
      with_retryable_def with_ambiguous_def)

lemma db_step_le:
  assumes "db_step d d'" "db_ok d"
  shows "db_le d d'"
  using assms(1)
proof (cases rule: db_step.cases)
  case (step_create jid key bytes now)
  from insert_job_rowD(1)[OF this] show ?thesis
    by (simp add: db_le_def extends_refl extends_append read_gate_not_before_def)
next
  case (step_start jid j number aid now token expires d1)
  have "db_le d d1" using insert_attempt_rowD(1)[OF step_start(3)]
    by (simp add: db_le_def extends_refl extends_append read_gate_not_before_def)
  moreover have "db_le d1 d'"
  proof (rule update_job_le[OF step_start(4)])
    fix j' assume "j' \<in> set (jobs d1)" "job_id j' = jid"
    then have "j' = j" using select_jobD[OF step_start(1)] db_okD(2)[OF assms(2)]
        insert_attempt_rowD(1)[OF step_start(3)] key_unique[of job_id] by (auto simp: keys_ok_def)
    then show "\<not> terminal_state (jstate j')"
      using step_start(2) by (auto simp: startable_def terminal_state_def)
  qed
  ultimately show ?thesis by (rule db_le_trans)
next
  case (step_renew aid a expires)
  have "astate b = A_STARTED" if "b \<in> set (submission_attempts d)" "attempt_id b = aid" for b
    using that step_renew(1,2) select_attempt_iff[OF db_okD(2)[OF assms(2)]] by (metis option.inject)
  then show ?thesis
    by (intro update_attempt_le[OF step_renew(3)]) (auto simp: attempt_le_def with_lease_def)
next
  case (step_claim aid a token expires)
  have "b = a" if "b \<in> set (submission_attempts d)" "attempt_id b = aid" for b
    using that step_claim(1) select_attempt_iff[OF db_okD(2)[OF assms(2)]] by (metis option.inject)
  with step_claim(2) show ?thesis
    by (intro update_attempt_le[OF step_claim(3)]) (auto simp: attempt_le_def with_claim_def)
next
  case (step_end jid aid j a change s d1 now)
  have sel: "select_job d jid = Some j" "select_attempt d aid = Some a" "jstate j = SUBMITTING"
    "astate a = A_STARTED" using step_end(1) by (simp_all add: active_def)
  have "b = a" if "b \<in> set (submission_attempts d)" "attempt_id b = aid" for b
    using that sel(2) select_attempt_iff[OF db_okD(2)[OF assms(2)]] by (metis option.inject)
  with step_end(2) sel(4) have "db_le d d1"
    by (intro update_attempt_le[OF step_end(3)]) (auto intro: ending_attempt_le)
  moreover have "db_le d1 d'"
  proof (rule update_job_le[OF step_end(4)])
    fix j' assume "j' \<in> set (jobs d1)" "job_id j' = jid"
    then have "j' = j" using select_jobD[OF sel(1)] db_okD(2)[OF assms(2)]
        update_attemptD(1)[OF step_end(3)] key_unique[of job_id] by (auto simp: keys_ok_def)
    with sel(3) show "\<not> terminal_state (jstate j')" by (simp add: terminal_state_def)
  qed
  ultimately show ?thesis by (rule db_le_trans)
next
  case (step_observe r)
  from insert_observation_rowD(1)[OF this] show ?thesis
    by (simp add: db_le_def extends_refl extends_append read_gate_not_before_def)
next
  case (step_consume r now)
  have "is_late b \<and> consumed_at b = None"
    if "b \<in> set (attempt_observations d)" "observation_id b = observation_id r" for b
    using that step_consume(2-4) db_okD(2)[OF assms(2)] key_unique[of observation_id]
    by (fastforce simp: keys_ok_def)
  with step_consume(1) show ?thesis
    by (auto simp: db_le_def update_observation_def read_gate_not_before_def observation_le_def
        with_consumed_def intro!: extends_refl extends_map)
next
  case (step_gate candidate now)
  then show ?thesis
    by (auto simp: db_le_def advance_gate_def read_gate_not_before_def gate_le_def extends_refl
        split: option.split)
qed

interpretation db: state_machine db_step db_ok db_le
  by unfold_locales (auto intro: db_step_ok db_step_le db_le_trans)

lemmas db_steps_ok = db.steps_ok and db_steps_le = db.steps_le

text \<open>Looking up a row again after steps.\<close>

lemma db_le_select_attempt:
  assumes "db_le d d'" "db_ok d'" "select_attempt d aid = Some a"
  obtains a' where "select_attempt d' aid = Some a'" "attempt_le a a'"
proof -
  from assms(1,3) obtain a' where a': "a' \<in> set (submission_attempts d')" "attempt_le a a'"
    using select_attemptD extends_member by (metis db_le_def)
  then have "attempt_id a' = aid" using select_attemptD[OF assms(3)] by (simp add: attempt_le_def)
  with a' that show thesis by (simp add: select_attempt_iff[OF db_okD(2)[OF assms(2)]])
qed

lemma db_le_select_job:
  assumes "db_le d d'" "db_ok d'" "select_job d jid = Some j"
  obtains j' where "select_job d' jid = Some j'" "job_le j j'"
proof -
  from assms(1,3) obtain j' where j': "j' \<in> set (jobs d')" "job_le j j'"
    using select_jobD extends_member by (metis db_le_def)
  then have "job_id j' = jid" using select_jobD[OF assms(3)] by (simp add: job_le_def)
  with j' that show thesis by (simp add: select_job_iff[OF db_okD(2)[OF assms(2)]])
qed

end
