(* ===== verification/Refinement.thy ===== *)
theory Refinement
  imports Invariant
begin

text \<open>
  The transactions of \<open>Authorization\<close> and \<open>Recording\<close> refine the durable state machine of
  \<open>Lifecycle\<close>: whatever they return, the durable database moves by steps of it, and when they
  raise it has not moved at all.
\<close>

section \<open>Frames\<close>

text \<open>A world between two points of a transaction: the same environment, nothing sent, nothing slept.\<close>

definition quiet :: "world \<Rightarrow> world \<Rightarrow> bool" where
  "quiet w w' \<longleftrightarrow>
     the_env w' = the_env w \<and> post_n w' = post_n w \<and> get_n w' = get_n w
     \<and> renew_n w' = renew_n w \<and> slept_us w' = slept_us w \<and> trace w' = trace w"

lemma quiet_refl [simp]: "quiet w w"
  by (simp add: quiet_def)

lemma quiet_trans: "quiet w w1 \<Longrightarrow> quiet w1 w2 \<Longrightarrow> quiet w w2"
  by (simp add: quiet_def)

lemma quiet_updates [simp, frame_simps]:
  "quiet w (next_stmt w1) = quiet w w1"
  "quiet w (w1\<lparr>durable := d\<rparr>) = quiet w w1"
  "quiet w (w1\<lparr>open_tx := t\<rparr>) = quiet w w1"
  "quiet w (w1\<lparr>clock_n := n\<rparr>) = quiet w w1"
  "quiet w (w1\<lparr>id_n := n\<rparr>) = quiet w w1"
  "quiet w (w1\<lparr>key_n := n\<rparr>) = quiet w w1"
  "quiet w (w1\<lparr>rand_n := n\<rparr>) = quiet w w1"
  "quiet w (w1\<lparr>txn_n := n\<rparr>) = quiet w w1"
  by (simp_all add: quiet_def)

lemma quiet_others [simp]: "quiet w (others_commit w1) = quiet w w1"
  by (simp add: quiet_def)

text \<open>
  \<open>seen w\<close> is the database the next transaction finds: the durable one after what the other
  processes committed.
\<close>

definition seen :: "world \<Rightarrow> database" where
  "seen w = others_at (the_env w) (txn_n w) (durable w)"

lemma durable_others: "durable (others_commit w) = (if open_tx w = None then seen w else durable w)"
  by (simp add: others_commit_def seen_def split: option.split)

text \<open>
  \<open>inside w d w'\<close>: a point of a transaction body that started in the world \<open>w\<close> with the durable
  database \<open>d\<close>; \<open>abandoned\<close> is its exceptional end.
\<close>

definition inside :: "world \<Rightarrow> database \<Rightarrow> world \<Rightarrow> bool" where
  "inside w d w' \<longleftrightarrow> quiet w w' \<and> durable w' = d"

definition abandoned :: "world \<Rightarrow> database \<Rightarrow> exn \<Rightarrow> world \<Rightarrow> bool" where
  "abandoned w d e w' \<longleftrightarrow> inside w d w' \<and> e \<noteq> PersistenceError"

lemma inside_updates [simp]:
  "inside w D (next_stmt w1) = inside w D w1"
  "inside w D (w1\<lparr>open_tx := t\<rparr>) = inside w D w1"
  "inside w D (w1\<lparr>clock_n := n\<rparr>) = inside w D w1"
  "inside w D (w1\<lparr>id_n := n\<rparr>) = inside w D w1"
  "inside w D (w1\<lparr>key_n := n\<rparr>) = inside w D w1"
  "inside w D (w1\<lparr>rand_n := n\<rparr>) = inside w D w1"
  by (simp_all add: inside_def)

lemma inside_quiet: "inside w D w1 \<Longrightarrow> quiet w1 w2 \<Longrightarrow> durable w2 = durable w1 \<Longrightarrow> inside w D w2"
  by (auto simp: inside_def intro: quiet_trans)

lemma abandoned_inside [simp]: "inside w D w1 \<Longrightarrow> abandoned w D e w1 = (e \<noteq> PersistenceError)"
  by (simp add: abandoned_def)

text \<open>
  The exceptional end of a whole transaction: nothing durable of its own, and the transaction
  closed if the exception is the one the callers expect.
\<close>

definition aborted :: "world \<Rightarrow> exn \<Rightarrow> world \<Rightarrow> bool" where
  "aborted w e w' \<longleftrightarrow>
     quiet w w' \<and> durable w' \<in> {durable w, seen w}
     \<and> (e \<in> {PersistenceError, OperationalError} \<longrightarrow> open_tx w' = None)"

lemma wp_transaction:
  assumes closed: "open_tx w = None"
    and body: "\<And>w1. inside w (seen w) w1 \<Longrightarrow> open_tx w1 = Some (seen w) \<Longrightarrow>
      id_n w1 = id_n w \<Longrightarrow> clock_n w1 = clock_n w \<Longrightarrow> rand_n w1 = rand_n w \<Longrightarrow>
      wp p Q (abandoned w (seen w)) w1"
    and abort: "\<And>e w'. aborted w e w' \<Longrightarrow> E e w'"
  shows "wp (thn begin_immediate (rolling_back p)) Q E w"
proof (cases "stmt_fault w = Ok_stmt")
  case False
  then show ?thesis
    by (auto simp: wp_simps closed aborted_def intro!: abort)
next
  case True
  let ?w1 = "(next_stmt w)\<lparr>durable := seen w, open_tx := Some (seen w), txn_n := Suc (txn_n w)\<rparr>"
  have "wp p Q (abandoned w (seen w)) ?w1"
    by (rule body) (simp_all add: inside_def)
  then have "wp p Q (\<lambda>e w'. if e = OperationalError
       then wp rollback (\<lambda>_. E PersistenceError) E w' else E e w') ?w1"
    by (rule wp_mono) (auto simp: abandoned_def inside_def aborted_def wp_simps intro!: abort split: option.split)
  then show ?thesis using True closed
    by (simp add: wp_simps seen_def)
qed

text \<open>A transaction that has ended: closed, nothing sent, the durable database \<open>d\<close>.\<close>

definition settled :: "world \<Rightarrow> database \<Rightarrow> world \<Rightarrow> bool" where
  "settled w d w' \<longleftrightarrow> quiet w w' \<and> open_tx w' = None \<and> durable w' = d"

lemma settledI: "inside w D w1 \<Longrightarrow> quiet w1 w' \<Longrightarrow> open_tx w' = None \<Longrightarrow> durable w' = d \<Longrightarrow> settled w d w'"
  by (auto simp: settled_def inside_def intro: quiet_trans)

lemma settled_commit [simp]:
  "inside w D w1 \<Longrightarrow> settled w d (next_stmt w1\<lparr>durable := d', open_tx := None\<rparr>) = (d = d')"
  "inside w D w1 \<Longrightarrow> settled w d (next_stmt w1\<lparr>open_tx := None\<rparr>) = (d = D)"
  by (auto simp: settled_def inside_def)

section \<open>Statements inside a transaction\<close>

text \<open>Introduction rules: what has to hold after each statement, the faults discharged once.\<close>

lemma wp_select_in:
  assumes "open_tx w = Some d" "inside w0 D w"
    "Q (q d) (next_stmt w)"
  shows "wp (select q) Q (abandoned w0 D) w"
  using assms by (simp add: wp_simps current_db_def split: fault.split)

lemma wp_execute_in:
  assumes "open_tx w = Some d" "inside w0 D w"
    "\<And>d'. f d = Inr d' \<Longrightarrow> Q () ((next_stmt w)\<lparr>open_tx := Some d'\<rparr>)"
  shows "wp (execute f) Q (abandoned w0 D) w"
  using assms by (simp add: wp_simps current_db_def split: fault.split sum.split)

lemma wp_commit_in:
  assumes "open_tx w = Some d" "inside w0 D w"
    "Q () ((next_stmt w)\<lparr>durable := d, open_tx := None\<rparr>)"
  shows "wp commit Q (abandoned w0 D) w"
  using assms by (simp add: wp_simps split: fault.split)

lemma wp_rollback_in:
  assumes "open_tx w = Some d" "Q () ((next_stmt w)\<lparr>open_tx := None\<rparr>)"
  shows "wp rollback Q E w"
  using assms by (simp add: wp_simps)

lemma wp_complete_in:
  assumes "open_tx w = Some d" "inside w0 D w"
    "\<And>d1 d' w'. update_attempt aid f d = Inr d1 \<Longrightarrow>
       update_job jid (with_job_state s now) d1 = Inr d' \<Longrightarrow>
       settled w0 d' w' \<Longrightarrow> Q () w'"
  shows "wp (complete aid f jid s now) Q (abandoned w0 D) w"
  using assms unfolding complete_def wp_thn
  by (auto intro!: wp_execute_in wp_commit_in)

text \<open>Two observations that differ only in their generated identifiers.\<close>

definition same_evidence :: "observation_row \<Rightarrow> observation_row \<Rightarrow> bool" where
  "same_evidence r r' \<longleftrightarrow>
     r' = r\<lparr>observation_id := observation_id r', sequence_id := sequence_id r'\<rparr>"

lemma same_evidence_refl [simp]: "same_evidence r r"
  by (simp add: same_evidence_def)

lemma wp_insert_fresh_observation_in:
  assumes "open_tx w = Some d" "inside w0 D w"
    "\<And>r' d' w'. same_evidence r r' \<Longrightarrow> insert_observation_row r' d = Inr d' \<Longrightarrow>
       inside w0 D w' \<Longrightarrow> open_tx w' = Some d' \<Longrightarrow>
       clock_n w' = clock_n w \<Longrightarrow> rand_n w' = rand_n w \<Longrightarrow>
       Q (observation_id r') w'"
  shows "wp (insert_fresh_observation n r) Q (abandoned w0 D) w"
  using assms
proof (induction n arbitrary: r w)
  case 0
  then show ?case by (simp add: wp_simps)
next
  case (Suc n)
  let ?retry = "\<lambda>oid sid. insert_fresh_observation n (r\<lparr>observation_id := oid, sequence_id := sid\<rparr>)"
  have retry: "wp (?retry oid sid) Q (abandoned w0 D) ((next_stmt w)\<lparr>id_n := k\<rparr>)" for oid sid k
  proof (rule Suc.IH)
    fix r' d' w'
    assume "same_evidence (r\<lparr>observation_id := oid, sequence_id := sid\<rparr>) r'"
      "insert_observation_row r' d = Inr d'" "inside w0 D w'" "open_tx w' = Some d'"
      "clock_n w' = clock_n ((next_stmt w)\<lparr>id_n := k\<rparr>)"
      "rand_n w' = rand_n ((next_stmt w)\<lparr>id_n := k\<rparr>)"
    then show "Q (observation_id r') w'"
      by (intro Suc.prems(3)) (simp_all add: same_evidence_def quiet_def)
  qed (use Suc.prems in simp_all)
  have "Q (observation_id r) ((next_stmt w)\<lparr>open_tx := Some d'\<rparr>)"
    if "insert_observation_row r d = Inr d'" for d'
    using that Suc.prems(2) by (intro Suc.prems(3)) simp_all
  with Suc.prems(1,2) retry show ?case
    by (auto simp: wp_simps current_db_def split: fault.split sum.split)
qed

lemma wp_insert_observation_in:
  assumes "open_tx w = Some d" "inside w0 D w"
    "\<And>r' d' w'. r' = r\<lparr>observation_id := observation_id r'\<rparr> \<Longrightarrow>
       insert_observation_row r' d = Inr d' \<Longrightarrow>
       inside w0 D w' \<Longrightarrow> open_tx w' = Some d' \<Longrightarrow> Q (observation_id r') w'"
  shows "wp (insert_observation n r) Q (abandoned w0 D) w"
  using assms
proof (induction n arbitrary: r w)
  case 0
  then show ?case by (simp add: wp_simps)
next
  case (Suc n)
  have retry: "wp (insert_observation n (r\<lparr>observation_id := oid\<rparr>)) Q (abandoned w0 D)
      ((next_stmt w)\<lparr>id_n := k\<rparr>)" for oid k
  proof (rule Suc.IH)
    fix r' d' w'
    assume "r' = r\<lparr>observation_id := oid, observation_id := observation_id r'\<rparr>"
      "insert_observation_row r' d = Inr d'" "inside w0 D w'" "open_tx w' = Some d'"
    then show "Q (observation_id r') w'"
      by (intro Suc.prems(3)) (simp_all add: quiet_def)
  qed (use Suc.prems in simp_all)
  have "Q (observation_id r) ((next_stmt w)\<lparr>open_tx := Some d'\<rparr>)"
    if "insert_observation_row r d = Inr d'" for d'
    using that Suc.prems(2) by (intro Suc.prems(3)) simp_all
  with Suc.prems(1,2) retry show ?case
    by (auto simp: wp_simps current_db_def split: fault.split sum.split)
qed

text \<open>The observation a finalization appends, its identifiers aside.\<close>

definition is_submission_observation ::
  "database \<Rightarrow> string \<Rightarrow> timestamp \<Rightarrow> int \<Rightarrow> certainty option \<Rightarrow> string option \<Rightarrow> int option
   \<Rightarrow> string option \<Rightarrow> int option \<Rightarrow> retry_after_diagnostic option \<Rightarrow> observation_row \<Rightarrow> bool" where
  "is_submission_observation d aid at generation cert cat status rid delay diag r \<longleftrightarrow>
     same_evidence (observation [] aid [] (next_sequence_number d aid) SUBMISSION 1 at cert cat
       status rid delay diag generation False) r"

lemma wp_insert_submission_observation_in:
  assumes "open_tx w = Some d" "inside w0 D w"
    "\<And>r d' w'. is_submission_observation d aid at generation cert cat status rid delay diag r \<Longrightarrow>
       insert_observation_row r d = Inr d' \<Longrightarrow>
       inside w0 D w' \<Longrightarrow> open_tx w' = Some d' \<Longrightarrow> Q () w'"
  shows "wp (insert_submission_observation aid at generation cert cat status rid delay diag) Q
    (abandoned w0 D) w"
  unfolding insert_submission_observation_def
proof (subst wp_bind, rule wp_select_in[OF assms(1,2)], unfold wp_bind wp_sources wp_thn wp_with_fuel,
    rule wp_insert_fresh_observation_in[where d = d])
  fix r' d' w'
  let ?w = "next_stmt w\<lparr>id_n := Suc (id_n (next_stmt w)),
    id_n := Suc (id_n (next_stmt w\<lparr>id_n := Suc (id_n (next_stmt w))\<rparr>))\<rparr>"
  let ?sid = "id_at (the_env (next_stmt w)) (id_n (next_stmt w))"
  let ?oid = "id_at (the_env (next_stmt w\<lparr>id_n := Suc (id_n (next_stmt w))\<rparr>))
    (id_n (next_stmt w\<lparr>id_n := Suc (id_n (next_stmt w))\<rparr>))"
  assume "same_evidence (observation ?oid aid ?sid (next_sequence_number d aid) SUBMISSION 1 at cert cat
      status rid delay diag generation False) r'" "insert_observation_row r' d = Inr d'"
    "inside w0 D w'" "open_tx w' = Some d'"
  then show "wp (ret ()) Q (abandoned w0 D) w'"
    by (auto simp: wp_simps is_submission_observation_def same_evidence_def observation_def quiet_def
        intro!: assms(3))
qed (use assms(1,2) in simp_all)

lemma wp_insert_attempt_in:
  assumes "open_tx w = Some d" "inside w0 D w"
    "\<And>r' d' w'. r' = r\<lparr>attempt_id := attempt_id r'\<rparr> \<Longrightarrow> insert_attempt_row r' d = Inr d' \<Longrightarrow>
       inside w0 D w' \<Longrightarrow> open_tx w' = Some d' \<Longrightarrow> Q r' w'"
  shows "wp (insert_attempt n r) Q (abandoned w0 D) w"
  using assms
proof (induction n arbitrary: r w)
  case 0
  then show ?case by (simp add: wp_simps)
next
  case (Suc n)
  have retry: "wp (insert_attempt n (r\<lparr>attempt_id := aid\<rparr>)) Q (abandoned w0 D)
      ((next_stmt w)\<lparr>id_n := k\<rparr>)" for aid k
  proof (rule Suc.IH)
    fix r' d' w'
    assume "r' = r\<lparr>attempt_id := aid, attempt_id := attempt_id r'\<rparr>"
      "insert_attempt_row r' d = Inr d'" "inside w0 D w'" "open_tx w' = Some d'"
    then show "Q r' w'" by (intro Suc.prems(3)) (simp_all add: quiet_def)
  qed (use Suc.prems in simp_all)
  have "Q r ((next_stmt w)\<lparr>open_tx := Some d'\<rparr>)" if "insert_attempt_row r d = Inr d'" for d'
    using that Suc.prems(2) by (intro Suc.prems(3)) simp_all
  with Suc.prems(1,2) retry show ?case
    by (auto simp: wp_simps current_db_def split: fault.split sum.split)
qed

section \<open>Leases\<close>

text \<open>What the next transaction of \<open>w\<close> reads from the clock, and whether it owns an attempt.\<close>

definition now_instant :: "world \<Rightarrow> instant" where
  "now_instant w = clock_at (the_env w) (clock_n w)"

definition now_text :: "world \<Rightarrow> timestamp" where
  "now_text w = format_timestamp (now_instant w)"

definition owned :: "world \<Rightarrow> string \<Rightarrow> string \<Rightarrow> string \<Rightarrow> int \<Rightarrow> bool" where
  "owned w jid aid token generation \<longleftrightarrow>
     owns_active_attempt (select_job (seen w) jid) (select_attempt (seen w) aid) token generation
       (now_text w)"

definition lease_until :: "world \<Rightarrow> int \<Rightarrow> timestamp" where
  "lease_until w lease = format_timestamp (add_milliseconds (now_instant w) (lease * 1000))"

lemma now_quiet [simp]:
  "inside w D w1 \<Longrightarrow> clock_at (the_env w1) (clock_n w) = now_instant w"
  by (simp add: inside_def quiet_def now_instant_def)

lemmas transaction_simps = wp_simps current_db_def Let_def

lemma wp_renew_lease:
  assumes "open_tx w = None"
    "\<And>w'. settled w (seen w) w' \<Longrightarrow> \<not> owned w jid aid token generation \<Longrightarrow> Q LeaseLost w'"
    "\<And>d' w'. owned w jid aid token generation \<Longrightarrow>
       update_attempt aid (with_lease (lease_until w lease)) (seen w) = Inr d' \<Longrightarrow>
       settled w d' w' \<Longrightarrow> Q (LeaseRenewed (lease_until w lease)) w'"
    "\<And>e w'. aborted w e w' \<Longrightarrow> E e w'"
  shows "wp (renew_lease jid aid token generation lease) Q E w"
  unfolding renew_lease_def
  by (rule wp_transaction[OF assms(1) _ assms(4)])
    (auto simp: transaction_simps split: fault.split sum.split
      intro!: assms(2,3)[unfolded owned_def now_text_def lease_until_def])

lemma wp_claim_expired_attempt:
  assumes "open_tx w = None"
    "\<And>w'. settled w (seen w) w' \<Longrightarrow> Q ClaimRejected w'"
    "\<And>j a d' w'. select_job (seen w) jid = Some j \<Longrightarrow> select_attempt (seen w) aid = Some a \<Longrightarrow>
       claimable j a token generation expires (now_text w) \<Longrightarrow>
       update_attempt aid (with_claim new_token (fencing_generation a + 1) (lease_until w lease))
         (seen w) = Inr d' \<Longrightarrow>
       settled w d' w' \<Longrightarrow>
       Q (ClaimSucceeded j (with_claim new_token (fencing_generation a + 1) (lease_until w lease) a)) w'"
    "\<And>e w'. aborted w e w' \<Longrightarrow> E e w'"
  shows "wp (claim_expired_attempt jid aid token generation expires new_token lease) Q E w"
  unfolding claim_expired_attempt_def
  by (rule wp_transaction[OF assms(1) _ assms(4)])
    (auto simp: transaction_simps split: fault.split sum.split option.split
      intro!: assms(2,3)[unfolded now_text_def lease_until_def])

section \<open>Recording\<close>

lemma wp_append_observation:
  assumes "open_tx w = None"
    "\<And>r d' w'. r = observation (observation_id r) aid sid (next_sequence_number (seen w) aid) op
         ordinal (now_text w) cert cat status rid delay diag generation False \<Longrightarrow>
       insert_observation_row r (seen w) = Inr d' \<Longrightarrow> settled w d' w' \<Longrightarrow> Q (observation_id r) w'"
    "\<And>e w'. aborted w e w' \<Longrightarrow> E e w'"
  shows "wp (append_observation aid sid ordinal op generation cat cert status rid delay diag) Q E w"
  unfolding append_observation_def
  by (rule wp_transaction[OF assms(1) _ assms(3)])
    (auto simp: transaction_simps formatted_now_def observation_def split: fault.split sum.split
      intro!: wp_insert_observation_in[where d = "seen w"]
      intro!: assms(2)[unfolded observation_def now_text_def])

lemma wp_append_late_observation:
  assumes "open_tx w = None"
    "\<And>r d' w'. same_evidence (observation [] aid [] (next_sequence_number (seen w) aid) op 1
         (now_text w) None (Some cat) status rid delay diag generation True) r \<Longrightarrow>
       insert_observation_row r (seen w) = Inr d' \<Longrightarrow> settled w d' w' \<Longrightarrow> Q (observation_id r) w'"
    "\<And>e w'. aborted w e w' \<Longrightarrow> E e w'"
  shows "wp (append_late_observation aid generation cat op status rid delay diag) Q E w"
  unfolding append_late_observation_def
  by (rule wp_transaction[OF assms(1) _ assms(3)])
    (auto simp: transaction_simps formatted_now_def observation_def same_evidence_def
      split: fault.split sum.split
      intro!: wp_insert_fresh_observation_in[where d = "seen w"]
        assms(2)[unfolded observation_def now_text_def same_evidence_def])

definition gate_after :: "world \<Rightarrow> int \<Rightarrow> database \<Rightarrow> database" where
  "gate_after w delay d =
     advance_gate (format_timestamp (add_milliseconds (now_instant w) delay)) (now_text w) d"

lemma wp_advance_gate:
  assumes "open_tx w = None"
    "\<And>w'. settled w (gate_after w delay (seen w)) w' \<Longrightarrow> Q () w'"
    "\<And>e w'. aborted w e w' \<Longrightarrow> E e w'"
  shows "wp (advance_gate_for_reconciliation_rate_limit delay) Q E w"
  unfolding advance_gate_for_reconciliation_rate_limit_def
  by (rule wp_transaction[OF assms(1) _ assms(3)])
    (auto simp: transaction_simps split: fault.split sum.split
      intro!: assms(2)[unfolded gate_after_def now_text_def])

lemma wp_authorize_reconciliation_request:
  assumes "open_tx w = None"
    "\<And>w'. settled w (seen w) w' \<Longrightarrow> \<not> owned w jid aid token generation \<Longrightarrow>
       Q ReconciliationOwnershipLost w'"
    "\<And>t w'. settled w (seen w) w' \<Longrightarrow> owned w jid aid token generation \<Longrightarrow>
       later_of earliest (read_gate_not_before (seen w)) = Some t \<Longrightarrow> now_text w < t \<Longrightarrow>
       Q (ReconciliationDeferred t) w'"
    "\<And>d' w'. owned w jid aid token generation \<Longrightarrow>
       \<not> after_now (later_of earliest (read_gate_not_before (seen w))) (now_text w) \<Longrightarrow>
       update_attempt aid (with_lease (lease_until w lease)) (seen w) = Inr d' \<Longrightarrow>
       settled w d' w' \<Longrightarrow> Q ReconciliationAuthorized w'"
    "\<And>e w'. aborted w e w' \<Longrightarrow> E e w'"
  shows "wp (authorize_reconciliation_request jid aid token generation lease earliest) Q E w"
  unfolding authorize_reconciliation_request_def
  by (rule wp_transaction[OF assms(1) _ assms(5)])
    (auto simp: transaction_simps after_now_def split: fault.split sum.split option.split
      intro!: assms(2-4)[unfolded owned_def now_text_def lease_until_def after_now_def])

lemma owns_none [simp]:
  "\<not> owns_active_attempt None a token generation now"
  "\<not> owns_active_attempt j None token generation now"
  by (simp_all add: owns_active_attempt_def split: option.split)

lemma owned_rows:
  assumes "owned w jid aid token generation"
  obtains j a where "select_job (seen w) jid = Some j" "select_attempt (seen w) aid = Some a"
    "jstate j = SUBMITTING" "astate a = A_STARTED" "owner_token a = Some token"
    "fencing_generation a = generation" "after_now (lease_expires_at a) (now_text w)"
  using assms unfolding owned_def owns_active_attempt_def by (auto split: option.splits)

lemma wp_record_reconciliation_result:
  assumes "open_tx w = None"
    "\<And>w'. settled w (seen w) w' \<Longrightarrow> \<not> owned w jid aid token generation \<Longrightarrow>
       Q ReconciliationPostFailure w'"
    "\<And>j a d1 d' w'. owned w jid aid token generation \<Longrightarrow>
       select_job (seen w) jid = Some j \<Longrightarrow> select_attempt (seen w) aid = Some a \<Longrightarrow>
       update_attempt aid (record_change disp (now_text w) status rid) (seen w) = Inr d1 \<Longrightarrow>
       update_job jid (with_job_state (record_state disp) (now_text w)) d1 = Inr d' \<Longrightarrow>
       settled w d' w' \<Longrightarrow>
       Q (ReconciliationFinalized (with_job_state (record_state disp) (now_text w) j)
           (record_change disp (now_text w) status rid a)) w'"
    "\<And>e w'. aborted w e w' \<Longrightarrow> E e w'"
  shows "wp (record_reconciliation_result jid aid token generation disp status rid) Q E w"
  unfolding record_reconciliation_result_def
  by (rule wp_transaction[OF assms(1) _ assms(4)])
    (auto simp: transaction_simps formatted_now_def split: fault.split sum.split option.split
      intro!: wp_complete_in[where d = "seen w"] assms(2,3)[unfolded owned_def now_text_def])

section \<open>Finalizing a submission\<close>

text \<open>
  What a finalization does to the owned attempt and its Job, by disposition; a retained
  submission leaves both alone.
\<close>

definition final_change :: "submission_evidence \<Rightarrow> timestamp \<Rightarrow> int \<Rightarrow> attempt_row \<Rightarrow> attempt_row" where
  "final_change ev now delay =
     (case disposition ev of
        Succeeded \<Rightarrow> with_success now (ev_http_status ev) (ev_remote_request_id ev)
      | Permanent_failure \<Rightarrow> with_permanent now (ev_http_status ev) (ev_error_category ev)
      | Retryable_failure \<Rightarrow> with_retryable now (ev_http_status ev) (ev_error_category ev) delay
      | Retained \<Rightarrow> id)"

definition final_state :: "submission_evidence \<Rightarrow> int \<Rightarrow> job_state" where
  "final_state ev number =
     (case disposition ev of
        Succeeded \<Rightarrow> SUCCEEDED
      | Permanent_failure \<Rightarrow> FAILED_PERMANENT
      | Retryable_failure \<Rightarrow> retry_job_state number
      | Retained \<Rightarrow> SUBMITTING)"

text \<open>The delay of a retryable failure: the policy's draw, raised to what the server asked for.\<close>

definition final_delay :: "world \<Rightarrow> int \<Rightarrow> retry_after_result \<Rightarrow> int" where
  "final_delay w number parsed =
     effective_delay_ms (policy_delay_ms number (rand_at (the_env w) (rand_n w)))
       (server_delay_of parsed)"

definition final_gate :: "world \<Rightarrow> submission_evidence \<Rightarrow> int \<Rightarrow> database \<Rightarrow> database" where
  "final_gate w ev delay d =
     (if disposition ev = Retryable_failure \<and> ev_error_category ev = Some ''rate_limited''
      then gate_after w delay d else d)"

lemma rand_quiet [simp]:
  "inside w D w1 \<Longrightarrow> rand_at (the_env w1) = rand_at (the_env w)"
  by (simp add: inside_def quiet_def)

lemma next_sequence_gate [simp]:
  "next_sequence_number (gate_after w delay d) aid = next_sequence_number d aid"
  by (simp add: next_sequence_number_def gate_after_def advance_gate_def)

lemma is_submission_observation_gate [simp]:
  "is_submission_observation (final_gate w ev delay d) = is_submission_observation d"
  by (simp add: fun_eq_iff is_submission_observation_def final_gate_def)

lemma wp_finalize_ended:
  assumes "open_tx w1 = Some d" "inside w (seen w) w1"
    "\<And>r d1 d2 d' w'.
       is_submission_observation d aid now generation cert cat status rid delay diag r \<Longrightarrow>
       insert_observation_row r d = Inr d1 \<Longrightarrow> update_attempt aid change d1 = Inr d2 \<Longrightarrow>
       update_job jid (with_job_state s now) d2 = Inr d' \<Longrightarrow> settled w d' w' \<Longrightarrow> Q res w'"
  shows "wp (thn (insert_submission_observation aid now generation cert cat status rid delay diag)
           (thn (complete aid change jid s now) (ret res))) Q (abandoned w (seen w)) w1"
  unfolding wp_thn
  by (rule wp_insert_submission_observation_in[OF assms(1,2)], rule wp_complete_in, assumption+)
    (simp add: wp_ret assms(3))

text \<open>\<open>final_result\<close>: the outcome reported for the rows as they were before.\<close>

definition final_result ::
  "submission_evidence \<Rightarrow> int \<Rightarrow> timestamp \<Rightarrow> int \<Rightarrow> job_row \<Rightarrow> attempt_row \<Rightarrow> submission_record_result" where
  "final_result ev number now delay j a =
     (let j' = with_job_state (final_state ev number) now j; a' = final_change ev now delay a
      in case disposition ev of
        Retryable_failure \<Rightarrow>
          if number < MAX_SUBMISSION_ATTEMPTS then SubmissionRetryScheduled j' a'
          else SubmissionFinalized j' a'
      | Retained \<Rightarrow> SubmissionRetained j a
      | _ \<Rightarrow> SubmissionFinalized j' a')"

lemma wp_finalize_submission_attempt:
  assumes closed: "open_tx w = None"
    and lost: "\<And>w'. settled w (seen w) w' \<Longrightarrow> \<not> owned w jid aid token generation \<Longrightarrow>
       Q PostSideEffectFailure w'"
    and ended: "\<And>j a parsed delay rdelay diag cat rid r d1 d2 d' w'.
       owned w jid aid token generation \<Longrightarrow>
       select_job (seen w) jid = Some j \<Longrightarrow> select_attempt (seen w) aid = Some a \<Longrightarrow>
       disposition ev \<noteq> Retained \<Longrightarrow>
       (disposition ev = Retryable_failure \<Longrightarrow>
          parse_retry_after (retry_after_values ev) (now_instant w) = Inr parsed
          \<and> delay = final_delay w number parsed \<and> rdelay = Some delay) \<Longrightarrow>
       is_submission_observation (seen w) aid (now_text w) generation (certainty_of ev) cat
         (ev_http_status ev) rid rdelay diag r \<Longrightarrow>
       insert_observation_row r (final_gate w ev delay (seen w)) = Inr d1 \<Longrightarrow>
       update_attempt aid (final_change ev (now_text w) delay) d1 = Inr d2 \<Longrightarrow>
       update_job jid (with_job_state (final_state ev number) (now_text w)) d2 = Inr d' \<Longrightarrow>
       settled w d' w' \<Longrightarrow> Q (final_result ev number (now_text w) delay j a) w'"
    and retained: "\<And>j a r d' w'. owned w jid aid token generation \<Longrightarrow>
       select_job (seen w) jid = Some j \<Longrightarrow> select_attempt (seen w) aid = Some a \<Longrightarrow>
       disposition ev = Retained \<Longrightarrow>
       is_submission_observation (seen w) aid (now_text w) generation (certainty_of ev)
         (ev_error_category ev) (ev_http_status ev) None None None r \<Longrightarrow>
       insert_observation_row r (seen w) = Inr d' \<Longrightarrow>
       settled w d' w' \<Longrightarrow> Q (SubmissionRetained j a) w'"
    and abort: "\<And>e w'. aborted w e w' \<Longrightarrow> E e w'"
  shows "wp (finalize_submission_attempt jid aid number token generation ev) Q E w"
  unfolding finalize_submission_attempt_def
proof (rule wp_transaction[OF closed _ abort])
  fix w1 assume w1: "inside w (seen w) w1" "open_tx w1 = Some (seen w)" "clock_n w1 = clock_n w"
    "rand_n w1 = rand_n w"
  let ?now = "now_text w" and ?aband = "abandoned w (seen w)"
  let ?w2 = "next_stmt (next_stmt w1)\<lparr>clock_n := Suc (clock_n w)\<rparr>"
  have w2: "inside w (seen w) ?w2" "open_tx ?w2 = Some (seen w)" "rand_n ?w2 = rand_n w"
    using w1 by simp_all
  have succ: "wp (finalize_succeeded j a jid aid generation ?now ev) Q ?aband ?w2"
    if "owned w jid aid token generation" "select_job (seen w) jid = Some j"
      "select_attempt (seen w) aid = Some a" "disposition ev = Succeeded" for j a
    unfolding finalize_succeeded_def Let_def
    using ended[OF that(1-3)] that(4)
    by (intro wp_finalize_ended[OF w2(2,1)])
      (auto simp: final_change_def final_state_def final_result_def final_gate_def)
  have perm: "wp (finalize_permanent j a jid aid generation ?now ev) Q ?aband ?w2"
    if "owned w jid aid token generation" "select_job (seen w) jid = Some j"
      "select_attempt (seen w) aid = Some a" "disposition ev = Permanent_failure" for j a
    unfolding finalize_permanent_def Let_def
    using ended[OF that(1-3)] that(4)
    by (intro wp_finalize_ended[OF w2(2,1)])
      (auto simp: final_change_def final_state_def final_result_def final_gate_def)
  have reta: "wp (finalize_retained j a aid generation ?now ev) Q ?aband ?w2"
    if "owned w jid aid token generation" "select_job (seen w) jid = Some j"
      "select_attempt (seen w) aid = Some a" "disposition ev = Retained" for j a
    unfolding finalize_retained_def wp_thn
    using retained[OF that]
    by (intro wp_insert_submission_observation_in[OF w2(2,1)] wp_commit_in) (auto simp: wp_ret)
  have retry: "wp (finalize_retryable j a jid aid number generation (now_instant w) ev) Q ?aband ?w2"
    if own: "owned w jid aid token generation" "select_job (seen w) jid = Some j"
      "select_attempt (seen w) aid = Some a" and disp: "disposition ev = Retryable_failure" for j a
  proof (cases "parse_retry_after (retry_after_values ev) (now_instant w)")
    case (Inl e)
    then have "e = ValueError" by (simp add: parse_retry_after_ValueError)
    with Inl w2 show ?thesis
      by (simp add: finalize_retryable_def Let_def wp_bind parsed_retry_after_def wp_raise)
  next
    case (Inr parsed)
    let ?delay = "final_delay w number parsed"
    have tail: "wp (thn (insert_submission_observation aid ?now generation (certainty_of ev)
          (ev_error_category ev) (ev_http_status ev) None (Some ?delay) (diagnostic_of parsed))
        (thn (complete aid (with_retryable ?now (ev_http_status ev) (ev_error_category ev) ?delay)
          jid (retry_job_state number) ?now)
        (ret (final_result ev number ?now ?delay j a)))) Q ?aband w4"
      if w4: "open_tx w4 = Some (final_gate w ev ?delay (seen w))" "inside w (seen w) w4" for w4
      using ended[OF own, where parsed = parsed and delay = ?delay] disp Inr
      by (intro wp_finalize_ended[OF w4]) (auto simp: final_change_def final_state_def)
    have res: "(if number < MAX_SUBMISSION_ATTEMPTS
          then ret (SubmissionRetryScheduled (with_job_state (retry_job_state number) ?now j)
            (with_retryable ?now (ev_http_status ev) (ev_error_category ev) ?delay a))
          else ret (SubmissionFinalized (with_job_state (retry_job_state number) ?now j)
            (with_retryable ?now (ev_http_status ev) (ev_error_category ev) ?delay a)))
        = ret (final_result ev number ?now ?delay j a)"
      by (simp add: final_result_def final_change_def final_state_def disp Let_def)
    show ?thesis
      unfolding finalize_retryable_def Let_def now_text_def[symmetric]
      using w2 tail[unfolded res[symmetric]] disp
      by (simp add: wp_bind wp_sources parsed_retry_after_def Inr wp_ret final_delay_def[symmetric]
          wp_thn[of "if _ then _ else _"] wp_if final_gate_def)
        (auto intro!: wp_execute_in simp: gate_after_def now_text_def)
  qed
  show "wp (bind (select (\<lambda>d. select_job d jid)) (\<lambda>job.
      bind (select (\<lambda>d. select_attempt d aid)) (\<lambda>attempt.
      bind clock_now (\<lambda>now_instant.
      let now = format_timestamp now_instant in
      if \<not> owns_active_attempt job attempt token generation now
      then thn rollback (ret PostSideEffectFailure)
      else case (job, attempt) of
        (Some j, Some a) \<Rightarrow>
          (case disposition ev of
             Succeeded \<Rightarrow> finalize_succeeded j a jid aid generation now ev
           | Permanent_failure \<Rightarrow> finalize_permanent j a jid aid generation now ev
           | Retryable_failure \<Rightarrow> finalize_retryable j a jid aid number generation now_instant ev
           | Retained \<Rightarrow> finalize_retained j a aid generation now ev)
      | _ \<Rightarrow> raise AssertionError)))) Q ?aband w1"
    using w1 succ perm reta retry lost
    by (auto simp: transaction_simps owned_def now_text_def[symmetric]
        split: fault.split option.split submission_disposition.split)
qed

section \<open>Consuming late evidence\<close>

definition late_change :: "observation_row \<Rightarrow> timestamp \<Rightarrow> int \<Rightarrow> attempt_row \<Rightarrow> attempt_row" where
  "late_change row now delay =
     (if evidence_category row = Some ''processed''
      then with_success now (observed_http_status row) (observed_remote_request_id row)
      else if evidence_category row = Some ''rate_limited''
      then with_retryable now (observed_http_status row) (Some ''rate_limited'') delay
      else with_permanent now (observed_http_status row) (evidence_category row))"

definition late_state :: "observation_row \<Rightarrow> int \<Rightarrow> job_state" where
  "late_state row number =
     (if evidence_category row = Some ''processed'' then SUCCEEDED
      else if evidence_category row = Some ''rate_limited'' then retry_job_state number
      else FAILED_PERMANENT)"

definition late_delay :: "world \<Rightarrow> int \<Rightarrow> observation_row \<Rightarrow> int" where
  "late_delay w number row =
     effective_delay_ms (policy_delay_ms number (rand_at (the_env w) (rand_n w)))
       (observed_retry_after_ms row)"

definition late_gate :: "world \<Rightarrow> observation_row \<Rightarrow> int \<Rightarrow> database \<Rightarrow> database" where
  "late_gate w row delay d =
     (if evidence_category row = Some ''rate_limited'' then gate_after w delay d else d)"

lemma wp_act_on_late_evidence:
  assumes "open_tx w1 = Some d" "inside w (seen w) w1" "rand_n w1 = rand_n w"
    "\<And>d2 d' w'. update_attempt aid
         (late_change row (now_text w) (late_delay w (attempt_number a) row))
         (late_gate w row (late_delay w (attempt_number a) row) d) = Inr d2 \<Longrightarrow>
       update_job jid (with_job_state (late_state row (attempt_number a)) (now_text w)) d2 = Inr d' \<Longrightarrow>
       settled w d' w' \<Longrightarrow>
       Q (LateEvidenceConsumed (with_job_state (late_state row (attempt_number a)) (now_text w) j)
           (late_change row (now_text w) (late_delay w (attempt_number a) row) a)) w'"
  shows "wp (act_on_late_evidence j a jid aid (now_instant w) row) Q (abandoned w (seen w)) w1"
proof -
  consider (success) "evidence_category row = Some ''processed''"
    | (limited) "evidence_category row = Some ''rate_limited''"
    | (permanent) "evidence_category row \<noteq> Some ''processed''" "evidence_category row \<noteq> Some ''rate_limited''"
    by blast
  then show ?thesis
  proof cases
    case success
    with assms show ?thesis
      unfolding act_on_late_evidence_def now_text_def[symmetric] Let_def
      by (auto simp: wp_thn wp_ret late_change_def late_state_def late_gate_def
          intro!: wp_complete_in[where d = d])
  next
    case limited
    with assms show ?thesis
      unfolding act_on_late_evidence_def now_text_def[symmetric] Let_def
      by (auto simp: wp_thn wp_bind wp_sources wp_ret late_change_def late_state_def late_gate_def
          late_delay_def[symmetric] gate_after_def
          intro!: wp_execute_in[where d = d] wp_complete_in)
  next
    case permanent
    with assms show ?thesis
      unfolding act_on_late_evidence_def now_text_def[symmetric] Let_def
      by (auto simp: wp_thn wp_ret late_change_def late_state_def late_gate_def
          intro!: wp_complete_in[where d = d])
  qed
qed

lemma wp_consume_late_observations:
  assumes closed: "open_tx w = None"
    and lost: "\<And>w'. settled w (seen w) w' \<Longrightarrow> \<not> owned w jid aid token generation \<Longrightarrow>
       Q LatePostFailure w'"
    and none: "\<And>w'. settled w (seen w) w' \<Longrightarrow> owned w jid aid token generation \<Longrightarrow>
       \<forall>r\<in>set (unconsumed_late_rows (seen w) aid). \<not> actionable_row r \<Longrightarrow>
       Q NoActionableLateEvidence w'"
    and consumed: "\<And>j a row delay d2 d' w'. owned w jid aid token generation \<Longrightarrow>
       select_job (seen w) jid = Some j \<Longrightarrow> select_attempt (seen w) aid = Some a \<Longrightarrow>
       find_first actionable_row (unconsumed_late_rows (seen w) aid) = Some row \<Longrightarrow>
       delay = late_delay w (attempt_number a) row \<Longrightarrow>
       update_attempt aid (late_change row (now_text w) delay)
         (late_gate w row delay
           (update_observation (observation_id row) (with_consumed (now_text w)) (seen w))) = Inr d2 \<Longrightarrow>
       update_job jid (with_job_state (late_state row (attempt_number a)) (now_text w)) d2 = Inr d' \<Longrightarrow>
       settled w d' w' \<Longrightarrow>
       Q (LateEvidenceConsumed (with_job_state (late_state row (attempt_number a)) (now_text w) j)
           (late_change row (now_text w) delay a)) w'"
    and abort: "\<And>e w'. aborted w e w' \<Longrightarrow> E e w'"
  shows "wp (consume_late_observations jid aid token generation) Q E w"
  unfolding consume_late_observations_def
proof (rule wp_transaction[OF closed _ abort])
  fix w1 assume w1: "inside w (seen w) w1" "open_tx w1 = Some (seen w)" "clock_n w1 = clock_n w"
    "rand_n w1 = rand_n w"
  have act: "wp (act_on_late_evidence j a jid aid (now_instant w) row) Q (abandoned w (seen w)) w2"
    if "owned w jid aid token generation" "select_job (seen w) jid = Some j"
      "select_attempt (seen w) aid = Some a"
      "find_first actionable_row (unconsumed_late_rows (seen w) aid) = Some row"
      "open_tx w2 = Some (update_observation (observation_id row) (with_consumed (now_text w)) (seen w))"
      "inside w (seen w) w2" "rand_n w2 = rand_n w" for j a row w2
    using consumed[OF that(1-4) refl] by (intro wp_act_on_late_evidence[OF that(5-7)]) auto
  show "wp (bind (select (\<lambda>d. select_job d jid)) (\<lambda>job.
      bind (select (\<lambda>d. select_attempt d aid)) (\<lambda>attempt.
      bind clock_now (\<lambda>now_instant.
      if \<not> owns_active_attempt job attempt token generation (format_timestamp now_instant)
      then thn rollback (ret LatePostFailure)
      else case (job, attempt) of
        (Some j, Some a) \<Rightarrow>
          bind (select (\<lambda>d. unconsumed_late_rows d aid)) (\<lambda>rows.
          case find_first actionable_row rows of
            None \<Rightarrow> thn commit (ret NoActionableLateEvidence)
          | Some row \<Rightarrow>
              thn (execute (\<lambda>d. Inr (update_observation (observation_id row)
                     (with_consumed (format_timestamp now_instant)) d)))
              (act_on_late_evidence j a jid aid now_instant row))
      | _ \<Rightarrow> raise AssertionError)))) Q (abandoned w (seen w)) w1"
    using w1 lost none act
    by (auto simp: transaction_simps owned_def now_text_def[symmetric] find_first_None
        split: fault.split option.split)
qed

end
