(* ===== verification/Admission.thy ===== *)
theory Admission
  imports Refinement
begin

text \<open>
  What the pre-side-effect transaction does, as a relation on the time, the database it sees, its
  result and the database it leaves: \<open>authorization\<close> for starting or deferring an attempt,
  \<open>admission\<close> for a whole pass.  The transaction, faults and identifier collisions included,
  refines it, \<open>now\<close> being the first reading of the clock after \<open>BEGIN\<close> and \<open>expires\<close> the lease
  counted from the second one.
\<close>

section \<open>The specification\<close>

inductive authorization ::
  "timestamp \<Rightarrow> timestamp \<Rightarrow> database \<Rightarrow> job_row \<Rightarrow> int \<Rightarrow> string \<Rightarrow> timestamp option
   \<Rightarrow> pre_side_effect_result \<Rightarrow> database \<Rightarrow> bool" where
  authorization_deferred:
    "later_of eligible (read_gate_not_before d) = Some t \<Longrightarrow> now < t \<Longrightarrow>
     authorization now expires d j number token eligible (NotYetEligible j t) d"
| authorization_started:
    "\<not> after_now (later_of eligible (read_gate_not_before d)) now \<Longrightarrow>
     a = new_attempt aid (job_id j) number now token expires \<Longrightarrow>
     insert_attempt_row a d = Inr d1 \<Longrightarrow>
     update_job (job_id j) (with_job_state SUBMITTING now) d1 = Inr d' \<Longrightarrow>
     authorization now expires d j number token eligible
       (ReadyToSubmit (with_job_state SUBMITTING now j) a token) d'"

text \<open>The routing of an existing Job whose payload is the submitted one.\<close>

inductive routing ::
  "timestamp \<Rightarrow> timestamp \<Rightarrow> database \<Rightarrow> job_row \<Rightarrow> string \<Rightarrow> pre_side_effect_result \<Rightarrow> database \<Rightarrow> bool" where
  routing_completed:
    "jstate j = SUCCEEDED \<Longrightarrow> find_successful_attempt d (job_id j) = Some a \<Longrightarrow>
     success_evidence_ok a \<Longrightarrow> routing now expires d j token (AlreadyCompleted j a) d"
| routing_pending:
    "jstate j = PENDING \<Longrightarrow> authorization now expires d j 1 token None r d' \<Longrightarrow> routing now expires d j token r d'"
| routing_scheduled:
    "jstate j = RETRY_SCHEDULED \<Longrightarrow> select_latest_attempt d (job_id j) = Some l \<Longrightarrow>
     astate l = A_RETRYABLE_FAILURE \<Longrightarrow> completed_at l = Some t \<Longrightarrow> retry_after_ms l = Some ms \<Longrightarrow>
     parse_timestamp t = Some i \<Longrightarrow>
     authorization now expires d j (attempt_number l + 1) token
       (Some (format_timestamp (add_milliseconds i ms))) r d' \<Longrightarrow>
     routing now expires d j token r d'"
| routing_in_progress:
    "jstate j = SUBMITTING \<Longrightarrow> select_latest_attempt d (job_id j) = Some l \<Longrightarrow>
     astate l = A_STARTED \<Longrightarrow> after_now (lease_expires_at l) now \<Longrightarrow>
     routing now expires d j token (JobInProgress j) d"
| routing_recoverable:
    "jstate j = SUBMITTING \<Longrightarrow> select_latest_attempt d (job_id j) = Some l \<Longrightarrow>
     astate l = A_STARTED \<Longrightarrow> \<not> after_now (lease_expires_at l) now \<Longrightarrow>
     routing now expires d j token (RecoveryCandidate j l) d"
| routing_failed:
    "jstate j = FAILED_PERMANENT \<Longrightarrow> select_latest_attempt d (job_id j) = Some l \<Longrightarrow>
     astate l \<in> {A_PERMANENT_FAILURE, A_RETRYABLE_FAILURE} \<Longrightarrow>
     routing now expires d j token (TerminalFailedPermanent j l) d"
| routing_ambiguous:
    "jstate j = AMBIGUOUS \<Longrightarrow> select_latest_attempt d (job_id j) = Some l \<Longrightarrow>
     astate l = A_AMBIGUOUS \<Longrightarrow> routing now expires d j token (TerminalAmbiguous j l) d"

inductive admission ::
  "timestamp \<Rightarrow> timestamp \<Rightarrow> string option \<Rightarrow> string \<Rightarrow> payload \<Rightarrow> string \<Rightarrow> database
   \<Rightarrow> pre_side_effect_result \<Rightarrow> database \<Rightarrow> bool" where
  admission_created:
    "find_job_by_key d key = None \<Longrightarrow> insert_job_row (new_job jid key bytes now) d = Inr d1 \<Longrightarrow>
     authorization now expires d1 (new_job jid key bytes now) 1 token None r d' \<Longrightarrow>
     admission now expires supplied key bytes token d r d'"
| admission_conflicting:
    "supplied \<noteq> None \<Longrightarrow> find_job_by_key d key = Some j \<Longrightarrow> payload_canonical j \<noteq> bytes \<Longrightarrow>
     admission now expires supplied key bytes token d IdempotencyConflict d"
| admission_existing:
    "supplied \<noteq> None \<Longrightarrow> find_job_by_key d key = Some j \<Longrightarrow> payload_canonical j = bytes \<Longrightarrow>
     routing now expires d j token r d' \<Longrightarrow> admission now expires supplied key bytes token d r d'"

inductive_cases authorizationE: "authorization now expires d j number token eligible r d'"
inductive_cases routingE: "routing now expires d j token r d'"
inductive_cases admissionE: "admission now expires supplied key bytes token d r d'"

text \<open>The lease of an attempt started in a transaction: it is counted from the second reading of the clock.\<close>

definition start_lease :: "world \<Rightarrow> int \<Rightarrow> timestamp" where
  "start_lease w lease = lease_until (w\<lparr>clock_n := Suc (clock_n w)\<rparr>) lease"

text \<open>How often a pass reads the clock, by its result.\<close>

definition clock_reads :: "pre_side_effect_result \<Rightarrow> nat" where
  "clock_reads r =
     (case r of
        ReadyToSubmit _ _ _ \<Rightarrow> 2
      | NotYetEligible _ _ \<Rightarrow> 1 | JobInProgress _ \<Rightarrow> 1 | RecoveryCandidate _ _ \<Rightarrow> 1
      | _ \<Rightarrow> 0)"

section \<open>The program refines it\<close>

lemma same_now:
  assumes "the_env w' = the_env w" "clock_n w' = clock_n w"
  shows "now_text w' = now_text w" "start_lease w' lease = start_lease w lease"
  using assms by (simp_all add: now_text_def lease_until_def now_instant_def start_lease_def)

lemma same_lease: "lease_until (next_stmt w) lease = lease_until w lease"
  by (simp add: lease_until_def now_instant_def)

lemmas clock_texts = now_text_def start_lease_def lease_until_def now_instant_def

lemma wp_start_attempt_in:
  assumes "open_tx w = Some d" "inside w0 D w"
    "\<And>aid d1 d' w'.
       insert_attempt_row (new_attempt aid (job_id j) number now token (lease_until w lease)) d = Inr d1 \<Longrightarrow>
       update_job (job_id j) (with_job_state SUBMITTING now) d1 = Inr d' \<Longrightarrow>
       inside w0 D w' \<Longrightarrow> open_tx w' = Some d' \<Longrightarrow>
       Q (new_attempt aid (job_id j) number now token (lease_until w lease)) w'"
  shows "wp (start_attempt j number lease token now) Q (abandoned w0 D) w"
proof -
  have "wp (thn (execute (update_job (job_id j) (with_job_state SUBMITTING now))) (ret r')) Q
      (abandoned w0 D) w'"
    if r': "r' = (new_attempt aid (job_id j) number now token (lease_until w lease))\<lparr>attempt_id := attempt_id r'\<rparr>"
      "insert_attempt_row r' d = Inr d1" "inside w0 D w'" "open_tx w' = Some d1" for aid r' d1 w'
  proof -
    have eq: "r' = new_attempt (attempt_id r') (job_id j) number now token (lease_until w lease)"
      using r'(1) by (simp add: new_attempt_def)
    have ins: "insert_attempt_row (new_attempt (attempt_id r') (job_id j) number now token (lease_until w lease)) d = Inr d1"
      using r'(2) eq by simp
    have "Q r' (next_stmt w'\<lparr>open_tx := Some d'\<rparr>)"
      if "update_job (job_id j) (with_job_state SUBMITTING now) d1 = Inr d'" for d'
      using assms(3)[OF ins that, of "next_stmt w'\<lparr>open_tx := Some d'\<rparr>"] r'(3) eq by simp
    with r'(3,4) show ?thesis by (auto simp: wp_thn wp_ret intro!: wp_execute_in)
  qed
  with assms(1,2) show ?thesis
    unfolding start_attempt_def
    by (auto simp: wp_bind wp_sources wp_with_fuel lease_until_def now_instant_def intro!: wp_insert_attempt_in[where d = d])
qed

lemma wp_authorize_or_defer_in:
  assumes "open_tx w = Some d" "inside w0 D w"
    "\<And>r d' w'. authorization now (lease_until w lease) d j number token eligible r d' \<Longrightarrow> settled w0 d' w' \<Longrightarrow> Q r w'"
  shows "wp (authorize_or_defer j number now token lease eligible) Q (abandoned w0 D) w"
proof -
  have start: "wp (bind (start_attempt j number lease token now) (\<lambda>attempt.
       thn commit (ret (ReadyToSubmit (with_job_state SUBMITTING now j) attempt token))))
       Q (abandoned w0 D) (next_stmt w)"
    if "\<not> after_now (later_of eligible (read_gate_not_before d)) now"
    unfolding wp_bind
  proof (rule wp_start_attempt_in, unfold same_lease)
    fix aid d1 d' w'
    let ?a = "new_attempt aid (job_id j) number now token (lease_until w lease)"
    assume *: "insert_attempt_row ?a d = Inr d1"
      "update_job (job_id j) (with_job_state SUBMITTING now) d1 = Inr d'"
      "inside w0 D w'" "open_tx w' = Some d'"
    have "authorization now (lease_until w lease) d j number token eligible
        (ReadyToSubmit (with_job_state SUBMITTING now j) ?a token) d'"
      using that *(1,2) by (intro authorization_started) simp_all
    with *(3,4) show "wp (thn commit (ret (ReadyToSubmit (with_job_state SUBMITTING now j) ?a token)))
        Q (abandoned w0 D) w'"
      by (auto simp: wp_thn wp_ret intro!: wp_commit_in assms(3))
  qed (use assms(1,2) in simp_all)
  show ?thesis
    unfolding authorize_or_defer_def wp_bind
    using start assms(1,2)
    by (auto simp: wp_thn wp_ret after_now_def split: option.split
        intro!: wp_select_in[where d = d] wp_commit_in[where d = d] assms(3)[where d' = d] authorization_deferred)
qed

lemma wp_corrupted_in:
  "open_tx w = Some d \<Longrightarrow> inside w0 D w \<Longrightarrow> wp corrupted Q (abandoned w0 D) w"
  by (simp add: corrupted_def wp_simps)

lemma wp_route_existing_job_in:
  assumes "open_tx w = Some d" "inside w0 D w"
    "\<And>r d' w'. routing (now_text w) (start_lease w lease) d j token r d' \<Longrightarrow> settled w0 d' w' \<Longrightarrow> Q r w'"
  shows "wp (route_existing_job j token lease) Q (abandoned w0 D) w"
proof -
  have terminal: "wp (route_terminal j states result) Q (abandoned w0 D) w"
    if "\<And>l. select_latest_attempt d (job_id j) = Some l \<Longrightarrow> astate l \<in> states \<Longrightarrow>
          routing (now_text w) (start_lease w lease) d j token (result j l) d" for states result
    unfolding route_terminal_def wp_bind using assms(1,2) that
    by (auto simp: wp_thn wp_ret split: option.split
        intro!: wp_select_in[where d = d] wp_corrupted_in[where d = d] wp_commit_in[where d = d] assms(3)[where d' = d])
  show ?thesis
  proof (cases "jstate j")
    case PENDING
    then show ?thesis
      using assms(1,2)
      by (auto simp: route_existing_job_def formatted_now_def wp_simps clock_texts
          intro!: wp_authorize_or_defer_in[where d = d] assms(3)[unfolded clock_texts] routing_pending)
  next
    case SUBMITTING
    then show ?thesis
      using assms(1,2)
      by (auto simp: route_existing_job_def route_submitting_def formatted_now_def wp_bind wp_sources
          wp_thn wp_ret now_text_def now_instant_def split: option.split
          intro!: wp_select_in[where d = d] wp_corrupted_in[where d = d] wp_commit_in[where d = d] assms(3)[where d' = d])
        (blast intro: routing_in_progress routing_recoverable)+
  next
    case RETRY_SCHEDULED
    then show ?thesis
      using assms(1,2)
      by (auto simp: route_existing_job_def route_retry_scheduled_def formatted_now_def
          parsed_timestamp_def wp_bind wp_sources wp_ret wp_raise clock_texts split: option.split
          intro!: wp_select_in[where d = d] wp_corrupted_in[where d = d]
            wp_authorize_or_defer_in[where d = d] assms(3)[unfolded clock_texts])
        (rule routing_scheduled; assumption)
  next
    case SUCCEEDED
    then show ?thesis
      using assms(1,2)
      by (auto simp: route_existing_job_def route_succeeded_def verify_attempt_success_evidence_def
          rollback_if_corrupted_def wp_try_except wp_raise wp_bind wp_thn wp_ret split: option.split
          intro!: wp_select_in[where d = d] wp_corrupted_in[where d = d]
            wp_commit_in[where d = d] assms(3)[where d' = d] routing_completed)
  next
    case FAILED_PERMANENT
    then show ?thesis
      by (auto simp: route_existing_job_def intro!: terminal intro: routing_failed)
  next
    case AMBIGUOUS
    then show ?thesis
      by (auto simp: route_existing_job_def intro!: terminal intro: routing_ambiguous)
  next
    case (Other_job_state s)
    then show ?thesis
      using assms(1,2) by (simp add: route_existing_job_def wp_corrupted_in)
  qed
qed

lemma wp_insert_job_in:
  assumes "open_tx w = Some d" "inside w0 D w"
    "\<And>r' d' w'. r' = r\<lparr>job_id := job_id r'\<rparr> \<Longrightarrow> insert_job_row r' d = Inr d' \<Longrightarrow>
       inside w0 D w' \<Longrightarrow> open_tx w' = Some d' \<Longrightarrow> clock_n w' = clock_n w \<Longrightarrow> Q r' w'"
    "\<And>v w'. inside w0 D w' \<Longrightarrow> open_tx w' = Some d \<Longrightarrow> E (IntegrityError v) w'"
    "\<And>w'. inside w0 D w' \<Longrightarrow> E OperationalError w'" "\<And>w'. inside w0 D w' \<Longrightarrow> E Out_of_fuel w'"
  shows "wp (insert_job n r) Q E w"
  using assms
proof (induction n arbitrary: r w)
  case 0
  then show ?case by (simp add: wp_simps)
next
  case (Suc n)
  have retry: "wp (insert_job n (r\<lparr>job_id := jid\<rparr>)) Q E ((next_stmt w)\<lparr>id_n := k\<rparr>)" for jid k
  proof (rule Suc.IH)
    fix r' d' w'
    assume "r' = r\<lparr>job_id := jid, job_id := job_id r'\<rparr>" "insert_job_row r' d = Inr d'"
      "inside w0 D w'" "open_tx w' = Some d'" "clock_n w' = clock_n ((next_stmt w)\<lparr>id_n := k\<rparr>)"
    then show "Q r' w'" by (intro Suc.prems(3)) simp_all
  qed (use Suc.prems in simp_all)
  have "Q r ((next_stmt w)\<lparr>open_tx := Some d'\<rparr>)" if "insert_job_row r d = Inr d'" for d'
    using that Suc.prems(2) by (intro Suc.prems(3)) simp_all
  with Suc.prems(1,2,4,5) retry show ?case
    by (auto simp: wp_simps current_db_def split: fault.split sum.split)
qed

text \<open>
  A pass that continues leaves the database as it saw it; a pass that returns is an admission.
\<close>

lemma wp_create_job_in:
  assumes "open_tx w = Some d" "inside w0 d w" "find_job_by_key d key = None"
    "\<And>w'. settled w0 d w' \<Longrightarrow> Q None w'"
    "\<And>r d' w'. admission (now_text w) (start_lease w lease) supplied key bytes token d r d' \<Longrightarrow> settled w0 d' w' \<Longrightarrow> Q (Some r) w'"
  shows "wp (create_job key bytes token lease) Q (abandoned w0 d) w"
proof -
  have rest: "wp (bind (authorize_or_defer r' 1 (now_text w) token lease None) (\<lambda>r. ret (Some r))) Q
      (abandoned w0 d) w'"
    if "r' = (new_job jid key bytes (now_text w))\<lparr>job_id := job_id r'\<rparr>" "insert_job_row r' d = Inr d1"
      "inside w0 d w'" "open_tx w' = Some d1" "clock_n w' = Suc (clock_n w)" for r' jid d1 w'
  proof -
    have eq: "r' = new_job (job_id r') key bytes (now_text w)" using that(1) by (simp add: new_job_def)
    have lease: "lease_until w' lease = start_lease w lease"
      using that(3,5) assms(2) by (simp add: inside_def quiet_def clock_texts)
    have "admission (now_text w) (start_lease w lease) supplied key bytes token d r d'"
      if "authorization (now_text w) (start_lease w lease) d1 r' 1 token None r d'" for r d'
      using assms(3) \<open>insert_job_row r' d = Inr d1\<close> that eq
      by (intro admission_created[of d key "job_id r'" bytes "now_text w" d1]) simp_all
    with that(3,4) lease show ?thesis
      by (auto simp: wp_bind wp_ret intro!: wp_authorize_or_defer_in[where d = d1] assms(5))
  qed
  show ?thesis
    unfolding create_job_def formatted_now_def wp_bind wp_sources wp_ret wp_try_except wp_with_fuel
      now_instant_def[symmetric] now_text_def[symmetric]
  proof (rule wp_insert_job_in[where d = d and D = d and ?w0.0 = w0])
    fix r' d' w'
    assume "r' = (new_job (id_at (the_env (w\<lparr>clock_n := Suc (clock_n w)\<rparr>)) (id_n (w\<lparr>clock_n := Suc (clock_n w)\<rparr>)))
        key bytes (now_text w))\<lparr>job_id := job_id r'\<rparr>"
      "insert_job_row r' d = Inr d'" "inside w0 d w'" "open_tx w' = Some d'"
      and "clock_n w' = clock_n (w\<lparr>clock_n := Suc (clock_n w), id_n := Suc (id_n (w\<lparr>clock_n := Suc (clock_n w)\<rparr>))\<rparr>)"
    then show "wp (case Some r' of None \<Rightarrow> ret None
        | Some job \<Rightarrow> bind (authorize_or_defer job 1 (now_text w) token lease None) (\<lambda>r. ret (Some r))) Q
        (abandoned w0 d) w'" using rest[of r' _ d' w'] by simp
  qed (use assms(1,2) in \<open>auto simp: wp_thn wp_ret wp_raise intro!: wp_rollback_in assms(4)\<close>)
qed

lemma wp_pre_side_effect_pass_in:
  assumes "open_tx w = Some d" "inside w0 d w"
    "\<And>w'. settled w0 d w' \<Longrightarrow> Q None w'"
    "\<And>r d' w'. admission (now_text w) (start_lease w lease) supplied key bytes token d r d' \<Longrightarrow> settled w0 d' w' \<Longrightarrow> Q (Some r) w'"
  shows "wp (pre_side_effect_pass supplied key bytes token lease) Q (abandoned w0 d) w"
proof -
  have use: "wp (bind (use_existing_job j bytes token lease) (\<lambda>r. ret (Some r))) Q (abandoned w0 d)
      (next_stmt w)"
    if j: "find_job_by_key d key = Some j" "supplied \<noteq> None" for j
  proof (cases "payload_canonical j = bytes")
    case True
    have "Q (Some r) w'"
      if "routing (now_text (next_stmt w)) (start_lease (next_stmt w) lease) d j token r d'" "settled w0 d' w'" for r d' w'
      using admission_existing[OF j(2,1) True that(1)] that(2) same_now[of "next_stmt w" w]
      by (intro assms(4)) simp_all
    with assms(1,2) True show ?thesis
      unfolding use_existing_job_def verify_payload_canonical_def
      by (auto simp: wp_bind wp_thn wp_ret wp_asks rollback_if_corrupted_def wp_try_except wp_if wp_raise
          intro!: wp_corrupted_in[where d = d] wp_route_existing_job_in[where d = d])
  next
    case False
    have "Q (Some IdempotencyConflict) w'" if "settled w0 d w'" for w'
      using admission_conflicting[OF j(2,1) False] that by (rule assms(4))
    with assms(1,2) False show ?thesis
      unfolding use_existing_job_def verify_payload_canonical_def
      by (auto simp: wp_bind wp_thn wp_ret wp_asks rollback_if_corrupted_def wp_try_except wp_if wp_raise
          intro!: wp_corrupted_in[where d = d] wp_commit_in[where d = d])
  qed
  show ?thesis
    unfolding pre_side_effect_pass_def wp_bind
    using assms(1,2) use
    by (auto simp: wp_thn wp_ret same_now[of "next_stmt w" w] split: option.split
        intro!: wp_select_in[where d = d] wp_create_job_in[where d = d and supplied = supplied]
          wp_rollback_in[where d = d] assms(3,4))
qed

section \<open>The clock\<close>

text \<open>Introduction rules for how far a program moves the clock, whatever else it does.\<close>

lemma clock_statements:
  "(\<And>a w'. clock_n w' = clock_n w \<Longrightarrow> Qs a w') \<Longrightarrow> wp (select q) Qs (\<lambda>_ _. True) w"
  "(\<And>w'. clock_n w' = clock_n w \<Longrightarrow> Qu () w') \<Longrightarrow> wp (execute f) Qu (\<lambda>_ _. True) w"
  "(\<And>w'. clock_n w' = clock_n w \<Longrightarrow> Qu () w') \<Longrightarrow> wp commit Qu (\<lambda>_ _. True) w"
  "(\<And>w'. clock_n w' = clock_n w \<Longrightarrow> Qu () w') \<Longrightarrow> wp rollback Qu (\<lambda>_ _. True) w"
  "wp corrupted Qc (\<lambda>_ _. True) w"
  by (auto simp: wp_select wp_execute wp_commit corrupted_def wp_thn wp_rollback wp_raise Let_def
      split: fault.split sum.split option.split)

lemma clock_insert_attempt:
  "(\<And>a w'. clock_n w' = clock_n w \<Longrightarrow> Q a w') \<Longrightarrow> wp (insert_attempt n r) Q (\<lambda>_ _. True) w"
proof (induction n arbitrary: r w)
  case (Suc n)
  have "wp (insert_attempt n r') Q (\<lambda>_ _. True) (w'\<lparr>id_n := k\<rparr>)" if "clock_n w' = clock_n w" for r' w' k
    using that Suc.prems by (intro Suc.IH) simp
  with Suc.prems show ?case
    by (auto simp: wp_simps Let_def split: fault.split sum.split exn.split option.split)
qed (simp add: wp_raise)

lemma clock_insert_job:
  "(\<And>a w'. clock_n w' = clock_n w \<Longrightarrow> Q a w') \<Longrightarrow> (\<And>e w'. clock_n w' = clock_n w \<Longrightarrow> E e w') \<Longrightarrow>
     wp (insert_job n r) Q E w"
proof (induction n arbitrary: r w)
  case (Suc n)
  have "wp (insert_job n r') Q E (w'\<lparr>id_n := k\<rparr>)" if "clock_n w' = clock_n w" for r' w' k
    using that Suc.prems by (intro Suc.IH) simp_all
  with Suc.prems show ?case
    by (auto simp: wp_simps Let_def split: fault.split sum.split exn.split option.split)
qed (simp add: wp_raise)

lemma clock_authorize_or_defer:
  assumes "\<And>r w'. Suc (clock_n w') = clock_n w + clock_reads r \<Longrightarrow> Q r w'"
  shows "wp (authorize_or_defer j number now token lease eligible) Q (\<lambda>_ _. True) w"
  unfolding authorize_or_defer_def start_attempt_def
  by (auto simp: wp_bind wp_thn wp_sources wp_with_fuel wp_ret clock_reads_def split: option.split
      intro!: clock_statements clock_insert_attempt assms)

lemma clock_route_existing_job:
  assumes "\<And>r w'. clock_n w' = clock_n w + clock_reads r \<Longrightarrow> Q r w'"
  shows "wp (route_existing_job j token lease) Q (\<lambda>_ _. True) w"
  unfolding route_existing_job_def
  by (cases "jstate j")
    (auto simp: route_succeeded_def route_retry_scheduled_def route_submitting_def route_terminal_def
      formatted_now_def parsed_timestamp_def rollback_if_corrupted_def verify_attempt_success_evidence_def
      wp_bind wp_thn wp_sources wp_ret wp_raise wp_try_except clock_reads_def split: option.split
      intro!: clock_statements clock_authorize_or_defer assms)

lemma clock_pre_side_effect_pass:
  assumes "\<And>w'. clock_n w \<le> clock_n w' \<Longrightarrow> Q None w'"
    "\<And>r w'. clock_n w' = clock_n w + clock_reads r \<Longrightarrow> Q (Some r) w'"
  shows "wp (pre_side_effect_pass supplied key bytes token lease) Q (\<lambda>_ _. True) w"
  unfolding pre_side_effect_pass_def create_job_def use_existing_job_def verify_payload_canonical_def
  by (auto simp: formatted_now_def rollback_if_corrupted_def wp_bind wp_thn wp_sources wp_ret wp_raise
      wp_try_except wp_asks wp_with_fuel clock_reads_def split: option.split exn.split
      intro!: clock_statements clock_insert_job clock_authorize_or_defer clock_route_existing_job assms)

section \<open>The loop\<close>

text \<open>
  \<open>idle w w'\<close>: transactions between \<open>w\<close> and \<open>w'\<close> changed nothing of their own; only what other
  processes committed in between is new, and the clock was read some times.
\<close>

inductive idle :: "world \<Rightarrow> world \<Rightarrow> bool" where
  idle_refl:
    "quiet w w' \<Longrightarrow> open_tx w' = None \<Longrightarrow> durable w' = durable w \<Longrightarrow> txn_n w' = txn_n w \<Longrightarrow>
     clock_n w' = clock_n w \<Longrightarrow> idle w w'"
| idle_pass:
    "idle w w1 \<Longrightarrow> settled w1 (seen w1) w2 \<Longrightarrow> clock_n w1 \<le> clock_n w2 \<Longrightarrow> idle w w2"

lemma idle_clock: "idle w w' \<Longrightarrow> clock_n w \<le> clock_n w'"
  by (induction rule: idle.induct) simp_all

lemma idle_closed: "idle w w' \<Longrightarrow> open_tx w' = None"
  by (erule idle.cases) (simp_all add: settled_def)

lemma idle_quiet: "idle w w' \<Longrightarrow> quiet w w'"
  by (induction rule: idle.induct) (auto simp: settled_def intro: quiet_trans)

lemma idle_same:
  assumes "idle w w1" "quiet w1 w2" "open_tx w2 = None" "durable w2 = durable w1" "txn_n w2 = txn_n w1"
    "clock_n w2 = clock_n w1"
  shows "idle w w2"
  using assms(1)
proof (cases rule: idle.cases)
  case idle_refl
  have "quiet w w2" using idle_refl(1) assms(2) by (rule quiet_trans)
  then show ?thesis
    by (rule idle.idle_refl) (use idle_refl assms in \<open>simp_all only:\<close>)
next
  case (idle_pass w0)
  then have "settled w0 (seen w0) w2"
    using assms(2-4) unfolding settled_def by (metis quiet_trans)
  with idle_pass(1) show ?thesis by (rule idle.idle_pass) (use idle_pass(3) assms(6) in simp)
qed

lemma wp_run_pre_side_effect_transaction:
  assumes "idle w0 w"
    "\<And>w1 key r d' w'. idle w0 w1 \<Longrightarrow> (supplied \<noteq> None \<Longrightarrow> supplied = Some key) \<Longrightarrow>
       admission (now_text w1) (start_lease w1 lease) supplied key bytes token (seen w1) r d' \<Longrightarrow>
       settled w1 d' w' \<Longrightarrow> clock_n w' = clock_n w1 + clock_reads r \<Longrightarrow> Q r w'"
    "\<And>w1 e w'. idle w0 w1 \<Longrightarrow> aborted w1 e w' \<Longrightarrow> E e w'"
    "\<And>w'. idle w0 w' \<Longrightarrow> E Out_of_fuel w'"
  shows "wp (run_pre_side_effect_transaction n supplied bytes token lease) Q E w"
  using assms(1)
proof (induction n arbitrary: w)
  case 0
  then show ?case by (simp add: wp_raise assms(4))
next
  case (Suc n)
  have step: "wp (thn begin_immediate
      (bind (rolling_back (pre_side_effect_pass supplied key bytes token lease)) (\<lambda>r.
        case r of
          None \<Rightarrow> run_pre_side_effect_transaction n supplied bytes token lease
        | Some result \<Rightarrow> ret result))) Q E w1"
    if w1: "idle w0 w1" and key: "supplied \<noteq> None \<Longrightarrow> supplied = Some key" for key w1
  proof -
    let ?Q = "\<lambda>r. wp (case r of
          None \<Rightarrow> run_pre_side_effect_transaction n supplied bytes token lease
        | Some result \<Rightarrow> ret result) Q E"
    have "wp (thn begin_immediate (rolling_back (pre_side_effect_pass supplied key bytes token lease))) ?Q E w1"
    proof (rule wp_transaction[OF idle_closed[OF w1]])
      fix w2 assume w2: "inside w1 (seen w1) w2" "open_tx w2 = Some (seen w1)" and clock: "clock_n w2 = clock_n w1"
      let ?pass = "pre_side_effect_pass supplied key bytes token lease"
      have env: "the_env w2 = the_env w1" using w2(1) by (simp add: inside_def quiet_def)
      have "wp ?pass (\<lambda>r w'. case r of None \<Rightarrow> settled w1 (seen w1) w'
          | Some r \<Rightarrow> \<exists>d'. admission (now_text w1) (start_lease w1 lease) supplied key bytes token (seen w1) r d'
              \<and> settled w1 d' w') (abandoned w1 (seen w1)) w2"
        by (rule wp_pre_side_effect_pass_in[OF w2(2,1)]) (use same_now[OF env clock] in auto)
      moreover have "wp ?pass (\<lambda>r w'. case r of None \<Rightarrow> clock_n w1 \<le> clock_n w'
          | Some r \<Rightarrow> clock_n w' = clock_n w1 + clock_reads r) (\<lambda>_ _. True) w2"
        by (rule clock_pre_side_effect_pass) (use clock in simp_all)
      ultimately show "wp ?pass ?Q (abandoned w1 (seen w1)) w2"
      proof (rule wp_mono[OF wp_conj])
        fix r w'
        assume "(case r of None \<Rightarrow> settled w1 (seen w1) w'
          | Some r \<Rightarrow> \<exists>d'. admission (now_text w1) (start_lease w1 lease) supplied key bytes token (seen w1) r d'
              \<and> settled w1 d' w')
          \<and> (case r of None \<Rightarrow> clock_n w1 \<le> clock_n w' | Some r \<Rightarrow> clock_n w' = clock_n w1 + clock_reads r)"
        then show "?Q r w'"
          by (cases r) (auto simp: wp_ret intro: Suc.IH idle_pass[OF w1] assms(2)[OF w1 key])
      qed simp
    qed (rule assms(3)[OF w1])
    then show ?thesis by (simp only: wp_thn wp_bind_fun)
  qed
  show ?case
  proof (cases supplied)
    case None
    have "idle w0 (w\<lparr>key_n := Suc (key_n w)\<rparr>)"
      by (rule idle_same[OF Suc.prems]) (simp_all add: idle_closed[OF Suc.prems])
    from step[OF this, of "key_at (the_env w) (key_n w)"] None show ?thesis
      by (simp only: run_pre_side_effect_transaction.simps wp_bind wp_sources option.case simp_thms
          not_None_eq)
  next
    case (Some k)
    from step[OF Suc.prems, of k] Some show ?thesis
      by (simp only: run_pre_side_effect_transaction.simps wp_bind wp_ret option.case simp_thms)
  qed
qed

end
