(* ===== verification/Samples.thy ===== *)
theory Samples
  imports Lifecycle
begin

text \<open>
  Concrete environments, rows and databases, the inputs of the witnesses: a clock that advances
  one millisecond per reading from a fixed instant, distinct identifiers, a random source that
  draws the lower bound, no faults, no other process, and HTTP adapters that answer as given.
\<close>

definition sample_start :: instant where
  "sample_start = 63000000000000000"

definition sample_env ::
  "(nat \<Rightarrow> exn + submit_http_outcome) \<Rightarrow> (nat \<Rightarrow> exn + reconcile_http_outcome) \<Rightarrow> env" where
  "sample_env posts gets =
     \<lparr>clock_at = (\<lambda>n. sample_start + 1000 * int n), id_at = (\<lambda>n. ''id'' @ replicate n (CHR ''x'')),
      key_at = (\<lambda>n. ''job_'' @ replicate n (CHR ''x'')), rand_at = (\<lambda>n a b. a),
      fault_at = (\<lambda>n. Ok_stmt), others_at = (\<lambda>n d. d), post_at = posts, get_at = gets,
      cancel_at = (\<lambda>n. False), recanonicalize = Some, digest_of = (\<lambda>b. ''digest''),
      lease_seconds = 60, fuel = 5\<rparr>"

definition accepting_env :: env where
  "accepting_env = sample_env (\<lambda>n. Inr (SubmitHttpSuccess 201 ''remote''))
     (\<lambda>n. Inr (ReconcileMatch 200 ''remote''))"

text \<open>A Job being submitted by \<open>owner\<close> under a lease of the text \<open>expires\<close>.\<close>

definition sample_job :: "job_state \<Rightarrow> job_row" where
  "sample_job s = \<lparr>job_id = ''j1'', idempotency_key = ''k1'', payload_canonical = ''{}'',
     jstate = s, created_at = ''0'', updated_at = ''0''\<rparr>"

definition sample_attempt :: "timestamp \<Rightarrow> attempt_row" where
  "sample_attempt expires = \<lparr>attempt_id = ''a1'', attempt_job_id = ''j1'', attempt_number = 1,
     astate = A_STARTED, started_at = ''0'', completed_at = None, http_status = None,
     remote_request_id = None, error_category = None, retry_after_ms = None,
     owner_token = Some ''owner'', fencing_generation = 1, lease_expires_at = Some expires\<rparr>"

definition sample_db :: "timestamp \<Rightarrow> database" where
  "sample_db expires = \<lparr>jobs = [sample_job SUBMITTING], submission_attempts = [sample_attempt expires],
     attempt_observations = [], service_rate_limit_gate = None\<rparr>"


lemma sample_db_ok: "db_ok (sample_db expires)"
  by (simp add: db_ok_def rows_ok_def keys_ok_def references_ok_def shapes_ok_def sample_db_def
      sample_job_def sample_attempt_def job_checks_def attempt_checks_def job_shape_def
      attempts_of_def last_fits_def)

text \<open>The evidence of a request that was not sent.\<close>

definition not_sent_sample :: submission_evidence where
  "not_sent_sample = \<lparr>disposition = Retryable_failure, ev_http_status = None, ev_remote_request_id = None, ev_error_category = Some ''not_sent'', retry_after_values = []\<rparr>"


text \<open>The same Job after it succeeded.\<close>

definition completed_db :: database where
  "completed_db = \<lparr>jobs = [sample_job SUCCEEDED],
     submission_attempts = [with_success ''1'' (Some 201) (Some ''remote'') (sample_attempt ''9'')],
     attempt_observations = [], service_rate_limit_gate = None\<rparr>"

lemma completed_db_ok: "db_ok completed_db"
  by (simp add: db_ok_def rows_ok_def keys_ok_def references_ok_def shapes_ok_def completed_db_def
      sample_job_def sample_attempt_def with_success_def job_checks_def attempt_checks_def job_shape_def
      attempts_of_def last_fits_def success_evidence_ok_def)


text \<open>The Job while it is submitted, with late evidence that it was processed.\<close>

definition sample_late :: observation_row where
  "sample_late = \<lparr>observation_id = ''o1'', observed_attempt_id = ''a1'', sequence_id = ''s1'',
     sequence_number = 1, operation = SUBMISSION, request_ordinal = 1, observed_at = ''0'',
     dispatch_certainty = None, evidence_category = Some ''processed'', observed_http_status = Some 200,
     observed_remote_request_id = Some ''remote'', observed_retry_after_ms = None,
     retry_after_diagnostic = None, observed_fencing_generation = 1, is_late = True, consumed_at = None\<rparr>"

definition late_db :: database where
  "late_db = (sample_db ''9'')\<lparr>attempt_observations := [sample_late]\<rparr>"

end
