(* ===== verification/Transactions.thy ===== *)
theory Transactions
  imports Admission Samples
begin

text \<open>
  What the transactions of \<open>persistence/transactions.py\<close> promise, each from any world with no
  transaction open: whatever faults occur, whatever other processes committed before.  The
  ownership check that five of them share is an interface, \<open>fenced_transaction\<close>, interpreted on
  each.
\<close>

lemma wp_return: "wp p Q E w \<Longrightarrow> p w = (Inr a, w') \<Longrightarrow> Q a w'"
  by (simp add: wp_def)

lemma wp_exception: "wp p Q E w \<Longrightarrow> p w = (Inl e, w') \<Longrightarrow> E e w'"
  by (simp add: wp_def)

section \<open>Fencing\<close>

locale fenced_transaction =
  fixes run :: "string \<Rightarrow> string \<Rightarrow> string \<Rightarrow> int \<Rightarrow> 'r prog" and lost :: 'r
  assumes fenced: "open_tx w = None \<Longrightarrow>
    wp (run jid aid token generation)
      (\<lambda>r w'. (\<exists>d. settled w d w')
         \<and> (if owned w jid aid token generation then r \<noteq> lost else r = lost \<and> durable w' = seen w))
      (aborted w) w"
begin

text \<open>An owner that was superseded, whose lease has passed or whose attempt has ended.\<close>

lemma stale:
  assumes "open_tx w = None" "\<not> owned w jid aid token generation"
  shows "wp (run jid aid token generation) (\<lambda>r w'. r = lost \<and> settled w (seen w) w') (aborted w) w"
  using fenced[OF assms(1), of jid aid token generation] assms(2)
  by (elim wp_mono) (auto simp: settled_def)

lemma owner_not_refused:
  assumes "open_tx w = None" "owned w jid aid token generation"
  shows "wp (run jid aid token generation) (\<lambda>r w'. r \<noteq> lost \<and> open_tx w' = None) (aborted w) w"
  using fenced[OF assms(1), of jid aid token generation] assms(2)
  by (elim wp_mono) (auto simp: settled_def)

lemma atomic:
  assumes "open_tx w = None"
  shows "wp (run jid aid token generation) (\<lambda>r w'. \<exists>d. settled w d w') (aborted w) w"
  using fenced[OF assms, of jid aid token generation] by (elim wp_mono) auto

end

interpretation renewal: fenced_transaction "\<lambda>jid aid token generation. renew_lease jid aid token generation lease"
  LeaseLost for lease
  by unfold_locales (rule wp_renew_lease; auto simp: settled_def)

interpretation finalization: fenced_transaction
  "\<lambda>jid aid token generation. finalize_submission_attempt jid aid number token generation ev"
  PostSideEffectFailure for number ev
  by unfold_locales
    (rule wp_finalize_submission_attempt; auto simp: settled_def final_result_def Let_def
      split: submission_disposition.split)

interpretation reconciliation_authorization: fenced_transaction
  "\<lambda>jid aid token generation. authorize_reconciliation_request jid aid token generation lease earliest"
  ReconciliationOwnershipLost for lease earliest
  by unfold_locales (rule wp_authorize_reconciliation_request; auto simp: settled_def)

interpretation reconciliation_record: fenced_transaction
  "\<lambda>jid aid token generation. record_reconciliation_result jid aid token generation disp status rid"
  ReconciliationPostFailure for disp status rid
  by unfold_locales (rule wp_record_reconciliation_result; auto simp: settled_def)

interpretation late_consumption: fenced_transaction consume_late_observations LatePostFailure
  by unfold_locales (rule wp_consume_late_observations; auto simp: settled_def)

text \<open>Every way not to be the owner any more, spelled out on the rows.\<close>

definition stale_owner :: "world \<Rightarrow> string \<Rightarrow> string \<Rightarrow> string \<Rightarrow> int \<Rightarrow> bool" where
  "stale_owner w jid aid token generation \<longleftrightarrow>
     (case (select_job (seen w) jid, select_attempt (seen w) aid) of
        (Some j, Some a) \<Rightarrow>
          jstate j \<noteq> SUBMITTING \<or> astate a \<noteq> A_STARTED \<or> owner_token a \<noteq> Some token
          \<or> fencing_generation a \<noteq> generation \<or> lease_expires_at a = None
          \<or> (\<exists>t. lease_expires_at a = Some t \<and> t \<le> now_text w)
      | _ \<Rightarrow> True)"

lemma stale_owner_iff: "stale_owner w jid aid token generation \<longleftrightarrow> \<not> owned w jid aid token generation"
  by (auto simp: stale_owner_def owned_def owns_active_attempt_def after_now_def not_less
      split: option.split)

text \<open>
  C10. Fencing: an owner whose Job left \<open>SUBMITTING\<close>, whose attempt ended, was claimed by another
  token or another generation, or whose lease has passed gets the refusal of each transaction
  that checks ownership, and the durable database is what the transaction found.  Otherwise it
  fails with an exception, and again changes nothing.
\<close>

theorem stale_owner_is_fenced:
  assumes "open_tx w = None" "stale_owner w jid aid token generation"
  shows "wp (renew_lease jid aid token generation lease)
      (\<lambda>r w'. r = LeaseLost \<and> settled w (seen w) w') (aborted w) w
    \<and> wp (finalize_submission_attempt jid aid number token generation ev)
      (\<lambda>r w'. r = PostSideEffectFailure \<and> settled w (seen w) w') (aborted w) w
    \<and> wp (authorize_reconciliation_request jid aid token generation lease earliest)
      (\<lambda>r w'. r = ReconciliationOwnershipLost \<and> settled w (seen w) w') (aborted w) w
    \<and> wp (record_reconciliation_result jid aid token generation disp status rid)
      (\<lambda>r w'. r = ReconciliationPostFailure \<and> settled w (seen w) w') (aborted w) w
    \<and> wp (consume_late_observations jid aid token generation)
      (\<lambda>r w'. r = LatePostFailure \<and> settled w (seen w) w') (aborted w) w"
  using assms
  by (simp add: stale_owner_iff renewal.stale finalization.stale reconciliation_authorization.stale
      reconciliation_record.stale late_consumption.stale)

lemma witness_stale_owner_is_fenced:
  "wp (renew_lease ''j1'' ''a1'' ''owner'' 2 60)
     (\<lambda>r w'. r = LeaseLost \<and> settled (initial_world accepting_env (sample_db ''9''))
        (seen (initial_world accepting_env (sample_db ''9''))) w')
     (aborted (initial_world accepting_env (sample_db ''9'')))
     (initial_world accepting_env (sample_db ''9''))"
proof -
  let ?w = "initial_world accepting_env (sample_db ''9'')"
  have "open_tx ?w = None" "stale_owner ?w ''j1'' ''a1'' ''owner'' 2"
    by (simp_all add: initial_world_def stale_owner_def seen_def accepting_env_def sample_env_def
        sample_db_def select_job_def select_attempt_def sample_job_def sample_attempt_def)
  from stale_owner_is_fenced[OF this] show ?thesis by blast
qed

end
