(* ===== verification/Text.thy ===== *)
theory Text
  imports Prelude "HOL-Library.Code_Target_Nat"
begin

text \<open>
  Python's \<open>str\<close> where more than ASCII matters: the texts of JSON documents.  A text is the list
  of its code points, lone surrogates included, as \<open>json\<close> can produce them.  The strings of the
  durable part are their UTF-8 octets (\<open>octets\<close>), which is the identity on ASCII.  The strict
  UTF-8 codec is \<open>bytes.decode("utf-8")\<close> and \<open>str.encode("utf-8")\<close>.
\<close>

type_synonym ustr = "nat list"

definition is_high_surrogate :: "nat \<Rightarrow> bool" where
  "is_high_surrogate c \<longleftrightarrow> 0xD800 \<le> c \<and> c \<le> 0xDBFF"

definition is_low_surrogate :: "nat \<Rightarrow> bool" where
  "is_low_surrogate c \<longleftrightarrow> 0xDC00 \<le> c \<and> c \<le> 0xDFFF"

text \<open>A Unicode scalar value: what strict UTF-8 can encode.\<close>

definition is_scalar :: "nat \<Rightarrow> bool" where
  "is_scalar c \<longleftrightarrow> c < 0x110000 \<and> \<not> (0xD800 \<le> c \<and> c \<le> 0xDFFF)"

text \<open>A literal of the source, or any text of code points below 256.\<close>

definition ascii :: "string \<Rightarrow> ustr" where
  "ascii s = map of_char s"

lemma ascii_simps [simp]:
  "ascii [] = []" "ascii (c # s) = of_char c # ascii s" "ascii (s @ t) = ascii s @ ascii t"
  by (simp_all add: ascii_def)

lemma length_ascii [simp]: "length (ascii s) = length s"
  by (simp add: ascii_def)

lemma of_char_octet: "(of_char c :: nat) < 256"
proof -
  have "(of_char c :: nat) mod 256 < 256" by simp
  then show ?thesis by simp
qed

lemma ascii_inj [simp]: "ascii s = ascii t \<longleftrightarrow> s = t"
  by (simp add: ascii_def inj_map_eq_map inj_def)

section \<open>UTF-8\<close>

text \<open>The octets of one code point, as numbers.\<close>

definition encode_point :: "nat \<Rightarrow> nat list" where
  "encode_point c =
     (if c < 0x80 then [c]
      else if c < 0x800 then [0xC0 + c div 64, 0x80 + c mod 64]
      else if c < 0x10000 then [0xE0 + c div 4096, 0x80 + c div 64 mod 64, 0x80 + c mod 64]
      else [0xF0 + c div 262144, 0x80 + c div 4096 mod 64, 0x80 + c div 64 mod 64, 0x80 + c mod 64])"

definition encode_points :: "ustr \<Rightarrow> nat list" where
  "encode_points u = concat (map encode_point u)"

definition octets :: "ustr \<Rightarrow> string" where
  "octets u = map char_of (encode_points u)"

definition encode_utf8 :: "ustr \<Rightarrow> string option" where
  "encode_utf8 u = (if list_all is_scalar u then Some (octets u) else None)"

definition is_cont :: "nat \<Rightarrow> bool" where
  "is_cont b \<longleftrightarrow> 0x80 \<le> b \<and> b < 0xC0"

text \<open>
  The first code point of a byte sequence with the rest.  Overlong forms, surrogates and
  code points past \<open>0x10FFFF\<close> are refused, as CPython's decoder does.
\<close>

definition decode_point :: "nat list \<Rightarrow> (nat \<times> nat list) option" where
  "decode_point bs = (case bs of
     [] \<Rightarrow> None
   | a # r \<Rightarrow>
       if a < 0x80 then Some (a, r)
       else if 0xC2 \<le> a \<and> a < 0xE0 then
         (case r of b # r' \<Rightarrow> if is_cont b then Some ((a - 0xC0) * 64 + (b - 0x80), r') else None
          | _ \<Rightarrow> None)
       else if 0xE0 \<le> a \<and> a < 0xF0 then
         (case r of b # c # r' \<Rightarrow>
            let p = (a - 0xE0) * 4096 + (b - 0x80) * 64 + (c - 0x80)
            in if is_cont b \<and> is_cont c \<and> 0x800 \<le> p \<and> is_scalar p then Some (p, r') else None
          | _ \<Rightarrow> None)
       else if 0xF0 \<le> a \<and> a < 0xF5 then
         (case r of b # c # d # r' \<Rightarrow>
            let p = (a - 0xF0) * 262144 + (b - 0x80) * 4096 + (c - 0x80) * 64 + (d - 0x80)
            in if is_cont b \<and> is_cont c \<and> is_cont d \<and> 0x10000 \<le> p \<and> is_scalar p
               then Some (p, r') else None
          | _ \<Rightarrow> None)
       else None)"

lemma decode_point_shorter: "decode_point bs = Some (p, r) \<Longrightarrow> length r < length bs"
  by (auto simp: decode_point_def Let_def split: list.splits if_splits)

function decode_points :: "nat list \<Rightarrow> ustr option" where
  "decode_points bs =
     (if bs = [] then Some []
      else case decode_point bs of None \<Rightarrow> None
           | Some (p, r) \<Rightarrow> map_option ((#) p) (decode_points r))"
  by pat_completeness auto
termination
  by (relation "measure length") (auto dest: decode_point_shorter)

declare decode_points.simps [simp del]

definition decode_utf8 :: "string \<Rightarrow> ustr option" where
  "decode_utf8 s = decode_points (map of_char s)"

section \<open>The codec is faithful\<close>

lemma decode_encode_point:
  assumes "is_scalar p"
  shows "decode_point (encode_point p @ r) = Some (p, r)"
proof -
  have "p < 0x110000" using assms by (simp add: is_scalar_def)
  have q: "p div 4096 = p div 64 div 64" "p div 262144 = p div 4096 div 64"
    by (simp_all flip: div_mult2_eq)
  have p1: "p = p div 64 * 64 + p mod 64" by simp
  moreover have "p div 64 = p div 4096 * 64 + p div 64 mod 64" unfolding q(1) by simp
  ultimately have p2: "p = p div 4096 * 4096 + p div 64 mod 64 * 64 + p mod 64" by linarith
  moreover have "p div 4096 = p div 262144 * 64 + p div 4096 mod 64" unfolding q(2) by simp
  ultimately have p3: "p = p div 262144 * 262144 + p div 4096 mod 64 * 4096 + p div 64 mod 64 * 64
    + p mod 64" by linarith
  have b: "p div 262144 < 5" "p < 0x800 \<Longrightarrow> p div 64 < 32" "p < 0x10000 \<Longrightarrow> p div 4096 < 16"
    "0x80 \<le> p \<Longrightarrow> 2 \<le> p div 64"
    using \<open>p < 0x110000\<close> by (simp_all add: div_less_iff_less_mult less_eq_div_iff_mult_less_eq)
  consider "p < 0x80" | "0x80 \<le> p" "p < 0x800" | "0x800 \<le> p" "p < 0x10000" | "0x10000 \<le> p"
    by linarith
  then show ?thesis
  proof cases
    case 1
    then show ?thesis by (simp add: encode_point_def decode_point_def)
  next
    case 2
    with b show ?thesis
      by (simp add: encode_point_def decode_point_def is_cont_def)
  next
    case 3
    with b p2[symmetric] assms show ?thesis
      by (simp add: encode_point_def decode_point_def is_cont_def Let_def)
  next
    case 4
    with b p3[symmetric] assms show ?thesis
      by (simp add: encode_point_def decode_point_def is_cont_def Let_def)
  qed
qed

lemma decode_encode_points: "list_all is_scalar u \<Longrightarrow> decode_points (encode_points u) = Some u"
proof (induction u)
  case Nil
  then show ?case by (simp add: encode_points_def decode_points.simps)
next
  case (Cons p u)
  have "encode_point p \<noteq> []" by (simp add: encode_point_def)
  with Cons show ?case
    by (simp add: encode_points_def decode_points.simps[of "encode_point p @ _"] decode_encode_point)
qed

lemma encode_point_octet: "p < 0x110000 \<Longrightarrow> b \<in> set (encode_point p) \<Longrightarrow> b < 256"
proof -
  assume p: "p < 0x110000" and b: "b \<in> set (encode_point p)"
  have "p < 0x800 \<Longrightarrow> p div 64 < 32" "p < 0x10000 \<Longrightarrow> p div 4096 < 16" "p div 262144 < 5"
    using p by (simp_all add: div_less_iff_less_mult)
  moreover have "n mod 64 < (64::nat)" for n by simp
  ultimately show ?thesis
    using b by (fastforce simp: encode_point_def split: if_splits)
qed

lemma of_char_octets:
  assumes "list_all (\<lambda>p. p < 0x110000) u"
  shows "map of_char (octets u) = encode_points u"
proof -
  have "b < 256" if "b \<in> set (encode_points u)" for b
    using that assms encode_point_octet by (fastforce simp: encode_points_def list_all_iff)
  then show ?thesis by (simp add: octets_def o_def map_idI)
qed

lemma encode_decode_utf8: "encode_utf8 u = Some s \<Longrightarrow> decode_utf8 s = Some u"
proof -
  assume s: "encode_utf8 u = Some s"
  then have u: "list_all is_scalar u" by (simp add: encode_utf8_def split: if_splits)
  then have "list_all (\<lambda>p. p < 0x110000) u" by (simp add: list_all_iff is_scalar_def)
  from of_char_octets[OF this] decode_encode_points[OF u] u s show ?thesis
    by (simp add: decode_utf8_def encode_utf8_def)
qed

lemma quot64: "(z::nat) < 64 \<Longrightarrow> p = 64 * k + z \<Longrightarrow> p div 64 = k \<and> p mod 64 = z"
  by auto

lemma decode_point_scalar:
  assumes "decode_point bs = Some (p, r)" "list_all (\<lambda>b. b < 256) bs"
  shows "is_scalar p \<and> bs = encode_point p @ r"
proof -
  obtain a t where bs: "bs = a # t" using assms(1) by (cases bs) (auto simp: decode_point_def)
  consider "a < 0x80" | "0xC2 \<le> a" "a < 0xE0" | "0xE0 \<le> a" "a < 0xF0" | "0xF0 \<le> a" "a < 0xF5"
    using assms(1) by (fastforce simp: decode_point_def bs split: if_splits)
  then show ?thesis
  proof cases
    case 1
    with assms(1) show ?thesis by (auto simp: decode_point_def bs encode_point_def is_scalar_def)
  next
    case 2
    with assms(1) obtain b where t: "t = b # r" "is_cont b" "p = (a - 0xC0) * 64 + (b - 0x80)"
      by (auto simp: decode_point_def bs split: list.splits if_splits)
    with 2 obtain x y where xy: "a = 0xC0 + x" "b = 0x80 + y" "y < 64" "2 \<le> x" "x < 32"
      unfolding is_cont_def by (intro that[of "a - 0xC0" "b - 0x80"]) auto
    with t bs show ?thesis by (simp add: encode_point_def is_scalar_def)
  next
    case 3
    with assms(1) obtain b c where t: "t = b # c # r" "is_cont b" "is_cont c" "0x800 \<le> p" "is_scalar p"
      "p = (a - 0xE0) * 4096 + (b - 0x80) * 64 + (c - 0x80)"
      by (auto simp: decode_point_def bs Let_def split: list.splits if_splits)
    with 3 obtain x y z where xyz: "a = 0xE0 + x" "b = 0x80 + y" "c = 0x80 + z" "y < 64" "z < 64" "x < 16"
      unfolding is_cont_def by (intro that[of "a - 0xE0" "b - 0x80" "c - 0x80"]) auto
    with t have p: "p = 4096 * x + 64 * y + z" "p = 64 * (64 * x + y) + z" by simp_all
    have "p div 64 = 64 * x + y" "p mod 64 = z" using quot64[OF xyz(5) p(2)] by simp_all
    moreover have "p div 4096 = x" unfolding p(1) using xyz by simp
    moreover from calculation xyz have "p div 64 mod 64 = y" by simp
    moreover have "p < 0x10000" using p xyz by simp
    ultimately show ?thesis using t bs xyz by (simp add: encode_point_def)
  next
    case 4
    with assms(1) obtain b c d where t: "t = b # c # d # r" "is_cont b" "is_cont c" "is_cont d"
      "0x10000 \<le> p" "is_scalar p"
      "p = (a - 0xF0) * 262144 + (b - 0x80) * 4096 + (c - 0x80) * 64 + (d - 0x80)"
      by (auto simp: decode_point_def bs Let_def split: list.splits if_splits)
    with 4 obtain x y z v where xyz: "a = 0xF0 + x" "b = 0x80 + y" "c = 0x80 + z" "d = 0x80 + v"
      "y < 64" "z < 64" "v < 64" "x < 5"
      unfolding is_cont_def by (intro that[of "a - 0xF0" "b - 0x80" "c - 0x80" "d - 0x80"]) auto
    with t have p: "p = 262144 * x + 4096 * y + 64 * z + v" "p = 64 * (64 * (64 * x + y) + z) + v"
      "p = 4096 * (64 * x + y) + (64 * z + v)" by simp_all
    have "p div 64 = 64 * (64 * x + y) + z" "p mod 64 = v" using quot64[OF xyz(7) p(2)] by simp_all
    moreover have "p div 4096 = 64 * x + y" unfolding p(3) using xyz by simp
    moreover have "p div 262144 = x" unfolding p(1) using xyz by simp
    moreover have "p div 64 mod 64 = z" using quot64[OF xyz(6) calculation(1)] by simp
    moreover have "p div 4096 mod 64 = y" using quot64[OF xyz(5) calculation(3)] by simp
    ultimately show ?thesis using t bs xyz by (simp add: encode_point_def)
  qed
qed

lemma encode_decode_points:
  "decode_points bs = Some u \<Longrightarrow> list_all (\<lambda>b. b < 256) bs \<Longrightarrow>
     list_all is_scalar u \<and> encode_points u = bs"
proof (induction bs arbitrary: u rule: decode_points.induct)
  case (1 bs)
  show ?case
  proof (cases "bs = []")
    case True
    with 1 show ?thesis by (simp add: decode_points.simps encode_points_def)
  next
    case False
    with 1 obtain p r v where d: "decode_point bs = Some (p, r)" "decode_points r = Some v" "u = p # v"
      by (subst (asm) decode_points.simps) (auto split: option.splits)
    have p: "is_scalar p" "bs = encode_point p @ r" using decode_point_scalar[OF d(1) "1.prems"(2)] by simp_all
    with "1.prems"(2) have "list_all (\<lambda>b. b < 256) r" by simp
    with "1.IH"[OF False d(1) refl d(2)] have "list_all is_scalar v \<and> encode_points v = r" by simp
    with p d(3) show ?thesis by (simp add: encode_points_def)
  qed
qed

text \<open>Decoding and encoding are inverse to each other, and decoded text is scalar.\<close>

lemma decode_encode_utf8:
  assumes "decode_utf8 s = Some u"
  shows "encode_utf8 u = Some s"
proof -
  have "list_all (\<lambda>b. b < 256) (map of_char s :: nat list)"
    using of_char_octet by (auto simp: list_all_iff)
  from encode_decode_points[OF assms[unfolded decode_utf8_def] this]
  show ?thesis by (simp add: encode_utf8_def octets_def o_def map_idI)
qed

lemma utf8_iff: "decode_utf8 s = Some u \<longleftrightarrow> encode_utf8 u = Some s"
  using decode_encode_utf8 encode_decode_utf8 by blast

lemma decoded_scalar: "decode_utf8 s = Some u \<Longrightarrow> list_all is_scalar u"
  by (auto simp: utf8_iff encode_utf8_def split: if_splits)

definition is_ascii :: "string \<Rightarrow> bool" where
  "is_ascii s \<longleftrightarrow> list_all (\<lambda>c. (of_char c :: nat) < 128) s"

lemma ascii_utf8: "is_ascii s \<Longrightarrow> encode_utf8 (ascii s) = Some s"
proof -
  assume s: "is_ascii s"
  then have "list_all is_scalar (ascii s)"
    by (auto simp: is_ascii_def list_all_iff ascii_def is_scalar_def)
  moreover have "octets (ascii s) = s"
    using s by (induction s) (auto simp: octets_def encode_points_def encode_point_def is_ascii_def)
  ultimately show ?thesis by (simp add: encode_utf8_def)
qed

end
