(* ===== verification/Schema.thy ===== *)
theory Schema
  imports Text Decimal
begin

text \<open>
  \<open>persistence/schema.py\<close> and \<open>persistence/connection.py\<close>: the statements of the two migrations,
  the verification of an existing schema, and the opening of a connection.

  SQLite is an argument: a connection state \<open>'s\<close> and what each SQL text with its parameters
  answers there.  A program of this theory maps a state to an exception or a value and the state
  after it.  \<open>engine_ok\<close> names what SQLite documents of the statements used, over the schema of
  the file; the theorems rest on it.
\<close>

section \<open>The interface of the driver\<close>

text \<open>
  The values the statements of these modules read; none of them yields a float or a blob.
\<close>

datatype sql_value = SQL_null | SQL_integer int | SQL_text ustr

text \<open>
  \<open>sqlite3.OperationalError\<close>, any other \<open>sqlite3.Error\<close>, \<open>PersistenceError\<close> itself, its subclass
  \<open>SchemaVersionError\<close>, and the \<open>TypeError\<close>, \<open>IndexError\<close> or \<open>ValueError\<close> of a row of another
  shape.
\<close>

datatype db_error = Sqlite_operational | Sqlite_other | Persistence_failure | Schema_version_error | Row_shape_error

record 's driver =
  make_parent_directory :: "'s \<Rightarrow> bool \<times> 's"
  connect_file :: "'s \<Rightarrow> (db_error + unit) \<times> 's"
  sql_execute :: "string \<Rightarrow> sql_value list \<Rightarrow> 's \<Rightarrow> (db_error + sql_value list list) \<times> 's"
  close_handle :: "'s \<Rightarrow> 's"

definition is_sqlite_error :: "db_error \<Rightarrow> bool" where
  "is_sqlite_error e \<longleftrightarrow> e \<in> {Sqlite_operational, Sqlite_other}"

definition is_persistence_error :: "db_error \<Rightarrow> bool" where
  "is_persistence_error e \<longleftrightarrow> e \<in> {Persistence_failure, Schema_version_error}"

text \<open>Sequencing: the first exception ends a program.\<close>

definition and_then :: "('s \<Rightarrow> (db_error + 'a) \<times> 's) \<Rightarrow> ('a \<Rightarrow> 's \<Rightarrow> (db_error + 'b) \<times> 's) \<Rightarrow> 's \<Rightarrow> (db_error + 'b) \<times> 's" where
  "and_then p f s = (case p s of (Inl e, s') \<Rightarrow> (Inl e, s') | (Inr a, s') \<Rightarrow> f a s')"

definition yields :: "db_error + 'a \<Rightarrow> 's \<Rightarrow> (db_error + 'a) \<times> 's" where
  "yields r s = (r, s)"

fun executes :: "'s driver \<Rightarrow> string list \<Rightarrow> 's \<Rightarrow> (db_error + unit) \<times> 's" where
  "executes drv [] = yields (Inr ())"
| "executes drv (q # qs) = and_then (sql_execute drv q []) (\<lambda>_. executes drv qs)"

text \<open>\<open>(x,) = conn.execute(q).fetchone()\<close>.\<close>

definition fetch_single :: "'s driver \<Rightarrow> string \<Rightarrow> 's \<Rightarrow> (db_error + sql_value) \<times> 's" where
  "fetch_single drv q = and_then (sql_execute drv q [])
     (\<lambda>rows. yields (case rows of [v] # _ \<Rightarrow> Inr v | _ \<Rightarrow> Inl Row_shape_error))"

section \<open>Migrations\<close>

definition SCHEMA_VERSION :: int where
  "SCHEMA_VERSION = 2"

definition BUSY_TIMEOUT_MS :: int where
  "BUSY_TIMEOUT_MS = 5000"

definition jobs_ddl :: string where
  "jobs_ddl =
    ''
    CREATE TABLE jobs (
        job_id TEXT PRIMARY KEY,
        idempotency_key TEXT NOT NULL UNIQUE,
        payload_canonical BLOB NOT NULL,
        state TEXT NOT NULL CHECK (
            state IN (
                'PENDING', 'SUBMITTING', 'RETRY_SCHEDULED',
                'SUCCEEDED', 'FAILED_PERMANENT', 'AMBIGUOUS'
            )
        ),
        created_at TEXT NOT NULL,
        updated_at TEXT NOT NULL,
        CHECK (length(payload_canonical) <= 1048576),
        CHECK (updated_at >= created_at)
    )
    ''"

definition submission_attempts_ddl :: string where
  "submission_attempts_ddl =
    ''
    CREATE TABLE submission_attempts (
        attempt_id TEXT PRIMARY KEY,
        job_id TEXT NOT NULL REFERENCES jobs(job_id),
        attempt_number INTEGER NOT NULL CHECK (attempt_number > 0),
        state TEXT NOT NULL CHECK (
            state IN (
                'STARTED', 'SUCCEEDED', 'RETRYABLE_FAILURE',
                'PERMANENT_FAILURE', 'AMBIGUOUS'
            )
        ),
        started_at TEXT NOT NULL,
        completed_at TEXT,
        http_status INTEGER,
        remote_request_id TEXT,
        error_category TEXT,
        retry_after_ms INTEGER CHECK (retry_after_ms IS NULL OR retry_after_ms >= 0),
        owner_token TEXT,
        fencing_generation INTEGER NOT NULL CHECK (fencing_generation > 0),
        lease_expires_at TEXT,
        UNIQUE (job_id, attempt_number),
        CHECK (
            (state = 'STARTED' AND completed_at IS NULL
                AND owner_token IS NOT NULL AND lease_expires_at IS NOT NULL)
            OR
            (state <> 'STARTED' AND completed_at IS NOT NULL
                AND owner_token IS NULL AND lease_expires_at IS NULL)
        ),
        CHECK (completed_at IS NULL OR completed_at >= started_at)
    )
    ''"

definition one_started_ddl :: string where
  "one_started_ddl =
    ''
    CREATE UNIQUE INDEX one_started_attempt_per_job
    ON submission_attempts(job_id)
    WHERE state = 'STARTED'
    ''"

definition gate_ddl :: string where
  "gate_ddl =
    ''
    CREATE TABLE service_rate_limit_gate (
        singleton_id INTEGER PRIMARY KEY CHECK (singleton_id = 1),
        not_before TEXT NOT NULL,
        updated_at TEXT NOT NULL
    )
    ''"

definition observations_ddl :: string where
  "observations_ddl =
    ''
    CREATE TABLE attempt_observations (
        observation_id TEXT PRIMARY KEY,
        attempt_id TEXT NOT NULL
            REFERENCES submission_attempts(attempt_id),
        sequence_id TEXT NOT NULL,
        sequence_number INTEGER NOT NULL CHECK (sequence_number > 0),
        operation TEXT NOT NULL
            CHECK (operation IN ('SUBMISSION', 'RECONCILIATION')),
        request_ordinal INTEGER NOT NULL CHECK (request_ordinal > 0),
        observed_at TEXT NOT NULL,
        dispatch_certainty TEXT
            CHECK (dispatch_certainty IN ('NOT_SENT', 'MAYBE_SENT')),
        evidence_category TEXT,
        http_status INTEGER
            CHECK (http_status IS NULL OR http_status BETWEEN 100 AND 599),
        remote_request_id TEXT,
        retry_after_ms INTEGER
            CHECK (retry_after_ms IS NULL OR retry_after_ms >= 0),
        retry_after_diagnostic TEXT,
        observed_fencing_generation INTEGER NOT NULL
            CHECK (observed_fencing_generation > 0),
        is_late INTEGER NOT NULL DEFAULT 0 CHECK (is_late IN (0, 1)),
        consumed_at TEXT,
        UNIQUE (attempt_id, sequence_number),
        UNIQUE (sequence_id, request_ordinal)
    )
    ''"

definition observations_index_ddl :: string where
  "observations_index_ddl =
    ''
    CREATE INDEX attempt_observations_attempt_order
    ON attempt_observations (attempt_id, sequence_number)
    ''"

definition MIGRATION_1_STATEMENTS :: "string list" where
  "MIGRATION_1_STATEMENTS = [jobs_ddl, submission_attempts_ddl, one_started_ddl]"

definition MIGRATION_2_STATEMENTS :: "string list" where
  "MIGRATION_2_STATEMENTS = [gate_ddl, observations_ddl, observations_index_ddl]"

definition SET_VERSION :: string where
  "SET_VERSION = ''PRAGMA user_version = 2''"

section \<open>Verification of a schema\<close>

text \<open>Rows \<open>(name, type, notnull, pk)\<close> of \<open>PRAGMA table_info\<close>.\<close>

type_synonym column = "sql_value \<times> ustr \<times> int \<times> int"

definition column :: "string \<times> string \<times> int \<times> int \<Rightarrow> column" where
  "column c = (case c of (n, t, nn, pk) \<Rightarrow> (SQL_text (ascii n), ascii t, nn, pk))"

definition JOBS_COLUMNS :: "column list" where
  "JOBS_COLUMNS = map column
    [(''job_id'', ''TEXT'', 0, 1),
     (''idempotency_key'', ''TEXT'', 1, 0),
     (''payload_canonical'', ''BLOB'', 1, 0),
     (''state'', ''TEXT'', 1, 0),
     (''created_at'', ''TEXT'', 1, 0),
     (''updated_at'', ''TEXT'', 1, 0)]"

definition SUBMISSION_ATTEMPTS_COLUMNS :: "column list" where
  "SUBMISSION_ATTEMPTS_COLUMNS = map column
    [(''attempt_id'', ''TEXT'', 0, 1),
     (''job_id'', ''TEXT'', 1, 0),
     (''attempt_number'', ''INTEGER'', 1, 0),
     (''state'', ''TEXT'', 1, 0),
     (''started_at'', ''TEXT'', 1, 0),
     (''completed_at'', ''TEXT'', 0, 0),
     (''http_status'', ''INTEGER'', 0, 0),
     (''remote_request_id'', ''TEXT'', 0, 0),
     (''error_category'', ''TEXT'', 0, 0),
     (''retry_after_ms'', ''INTEGER'', 0, 0),
     (''owner_token'', ''TEXT'', 0, 0),
     (''fencing_generation'', ''INTEGER'', 1, 0),
     (''lease_expires_at'', ''TEXT'', 0, 0)]"

definition SERVICE_RATE_LIMIT_GATE_COLUMNS :: "column list" where
  "SERVICE_RATE_LIMIT_GATE_COLUMNS = map column
    [(''singleton_id'', ''INTEGER'', 0, 1),
     (''not_before'', ''TEXT'', 1, 0),
     (''updated_at'', ''TEXT'', 1, 0)]"

definition ATTEMPT_OBSERVATIONS_COLUMNS :: "column list" where
  "ATTEMPT_OBSERVATIONS_COLUMNS = map column
    [(''observation_id'', ''TEXT'', 0, 1),
     (''attempt_id'', ''TEXT'', 1, 0),
     (''sequence_id'', ''TEXT'', 1, 0),
     (''sequence_number'', ''INTEGER'', 1, 0),
     (''operation'', ''TEXT'', 1, 0),
     (''request_ordinal'', ''INTEGER'', 1, 0),
     (''observed_at'', ''TEXT'', 1, 0),
     (''dispatch_certainty'', ''TEXT'', 0, 0),
     (''evidence_category'', ''TEXT'', 0, 0),
     (''http_status'', ''INTEGER'', 0, 0),
     (''remote_request_id'', ''TEXT'', 0, 0),
     (''retry_after_ms'', ''INTEGER'', 0, 0),
     (''retry_after_diagnostic'', ''TEXT'', 0, 0),
     (''observed_fencing_generation'', ''INTEGER'', 1, 0),
     (''is_late'', ''INTEGER'', 1, 0),
     (''consumed_at'', ''TEXT'', 0, 0)]"

text \<open>Python's \<open>str.isspace\<close>, which is what \<open>\s\<close> matches and \<open>strip\<close> removes.\<close>

definition is_whitespace :: "nat \<Rightarrow> bool" where
  "is_whitespace c \<longleftrightarrow> 9 \<le> c \<and> c \<le> 13 \<or> 28 \<le> c \<and> c \<le> 32 \<or> c = 0x85 \<or> c = 0xA0 \<or> c = 0x1680
     \<or> 0x2000 \<le> c \<and> c \<le> 0x200A \<or> c = 0x2028 \<or> c = 0x2029 \<or> c = 0x202F \<or> c = 0x205F \<or> c = 0x3000"

text \<open>\<open>re.sub(r"\s+", " ", sql)\<close>; \<open>run\<close> says that the previous character was already replaced.\<close>

fun collapse_whitespace :: "bool \<Rightarrow> ustr \<Rightarrow> ustr" where
  "collapse_whitespace run [] = []"
| "collapse_whitespace run (c # s) =
     (if is_whitespace c then (if run then [] else [32]) @ collapse_whitespace True s
      else c # collapse_whitespace False s)"

definition strip_whitespace :: "ustr \<Rightarrow> ustr" where
  "strip_whitespace s = rev (dropWhile is_whitespace (rev (dropWhile is_whitespace s)))"

definition normalize_sql :: "ustr \<Rightarrow> ustr" where
  "normalize_sql sql = strip_whitespace (collapse_whitespace False sql)"

text \<open>
  \<open>str(v).upper()\<close> of a column type, exact on ASCII and on the two code points whose upper case
  is an ASCII letter; no other can turn into a type the program expects.
\<close>

definition upper_point :: "nat \<Rightarrow> nat" where
  "upper_point c = (if 97 \<le> c \<and> c \<le> 122 then c - 32 else if c = 0x131 then 73 else if c = 0x17F then 83 else c)"

definition str_value :: "sql_value \<Rightarrow> ustr" where
  "str_value v = (case v of SQL_null \<Rightarrow> ascii ''None'' | SQL_integer n \<Rightarrow> ascii (if n < 0 then ''-'' @ str_int (- n) else str_int n)
     | SQL_text t \<Rightarrow> t)"

text \<open>\<open>str(v).lower()\<close>, exact on ASCII; no other code point has one of \<open>delete\<close> as its lower case.\<close>

definition lower_point :: "nat \<Rightarrow> nat" where
  "lower_point c = (if 65 \<le> c \<and> c \<le> 90 then c + 32 else c)"

text \<open>\<open>int(v)\<close>: SQLite reports these columns and settings as integers.\<close>

definition int_value :: "sql_value \<Rightarrow> db_error + int" where
  "int_value v = (case v of SQL_integer n \<Rightarrow> Inr n | _ \<Rightarrow> Inl Row_shape_error)"

definition truthy :: "sql_value \<Rightarrow> bool" where
  "truthy v \<longleftrightarrow> v \<notin> {SQL_null, SQL_integer 0, SQL_text []}"

fun column_rows :: "sql_value list list \<Rightarrow> db_error + column list" where
  "column_rows [] = Inr []"
| "column_rows (row # rows) =
     (case row of
        _ # n # t # nn # _ # pk # _ \<Rightarrow>
          (case (int_value nn, int_value pk, column_rows rows) of
             (Inr nn, Inr pk, Inr cs) \<Rightarrow> Inr ((n, map upper_point (str_value t), nn, pk) # cs)
           | _ \<Rightarrow> Inl Row_shape_error)
      | _ \<Rightarrow> Inl Row_shape_error)"

definition table_info_of :: "string \<Rightarrow> string" where
  "table_info_of t = ''PRAGMA table_info('' @ [CHR 0x27] @ t @ [CHR 0x27] @ '')''"

definition index_list_of :: "string \<Rightarrow> string" where
  "index_list_of t = ''PRAGMA index_list('' @ [CHR 0x27] @ t @ [CHR 0x27] @ '')''"

definition verify_table_columns :: "'s driver \<Rightarrow> string \<Rightarrow> column list \<Rightarrow> 's \<Rightarrow> (db_error + unit) \<times> 's" where
  "verify_table_columns drv t expected = and_then (sql_execute drv (table_info_of t) [])
     (\<lambda>rows. yields (if rows = [] then Inl Schema_version_error
        else (case column_rows rows of
            Inl e \<Rightarrow> Inl e
          | Inr actual \<Rightarrow> if set actual \<noteq> set expected then Inl Schema_version_error else Inr ())))"

definition SELECT_SQL :: string where
  "SELECT_SQL = ''SELECT sql FROM sqlite_master WHERE type = ? AND name = ?''"

definition verify_object_sql :: "'s driver \<Rightarrow> string \<Rightarrow> string \<Rightarrow> string \<Rightarrow> 's \<Rightarrow> (db_error + unit) \<times> 's" where
  "verify_object_sql drv typ name ddl =
     and_then (sql_execute drv SELECT_SQL [SQL_text (ascii typ), SQL_text (ascii name)])
     (\<lambda>rows. yields (case rows of
          [] \<Rightarrow> Inl Schema_version_error
        | (SQL_null # _) # _ \<Rightarrow> Inl Schema_version_error
        | (SQL_text sql # _) # _ \<Rightarrow>
            if normalize_sql sql \<noteq> normalize_sql (ascii ddl) then Inl Schema_version_error else Inr ()
        | _ \<Rightarrow> Inl Row_shape_error))"

text \<open>\<open>[row for row in rows if row[1] == name]\<close>.\<close>

fun matching_rows :: "string \<Rightarrow> sql_value list list \<Rightarrow> db_error + sql_value list list" where
  "matching_rows name [] = Inr []"
| "matching_rows name (row # rows) =
     (case row of
        _ # n # _ \<Rightarrow>
          (case matching_rows name rows of
             Inl e \<Rightarrow> Inl e
           | Inr ms \<Rightarrow> Inr (if n = SQL_text (ascii name) then row # ms else ms))
      | _ \<Rightarrow> Inl Row_shape_error)"

definition one_started_is_unique_and_partial :: "sql_value list list \<Rightarrow> db_error + unit" where
  "one_started_is_unique_and_partial rows =
     (case matching_rows ''one_started_attempt_per_job'' rows of
        Inl e \<Rightarrow> Inl e
      | Inr [] \<Rightarrow> Inl Schema_version_error
      | Inr ([_, _, uniq, _, part] # _) \<Rightarrow>
          if \<not> truthy uniq then Inl Schema_version_error
          else if \<not> truthy part then Inl Schema_version_error else Inr ()
      | Inr _ \<Rightarrow> Inl Row_shape_error)"

definition has_observations_index :: "sql_value list list \<Rightarrow> db_error + unit" where
  "has_observations_index rows =
     (case matching_rows ''attempt_observations_attempt_order'' rows of
        Inl e \<Rightarrow> Inl e
      | Inr [] \<Rightarrow> Inl Schema_version_error
      | Inr _ \<Rightarrow> Inr ())"

definition verify_v1_schema :: "'s driver \<Rightarrow> 's \<Rightarrow> (db_error + unit) \<times> 's" where
  "verify_v1_schema drv =
     and_then (verify_table_columns drv ''jobs'' JOBS_COLUMNS) (\<lambda>_.
     and_then (verify_table_columns drv ''submission_attempts'' SUBMISSION_ATTEMPTS_COLUMNS) (\<lambda>_.
     and_then (verify_object_sql drv ''table'' ''jobs'' jobs_ddl) (\<lambda>_.
     and_then (verify_object_sql drv ''table'' ''submission_attempts'' submission_attempts_ddl) (\<lambda>_.
     and_then (verify_object_sql drv ''index'' ''one_started_attempt_per_job'' one_started_ddl) (\<lambda>_.
     and_then (sql_execute drv (index_list_of ''submission_attempts'') []) (\<lambda>rows.
       yields (one_started_is_unique_and_partial rows)))))))"

definition verify_schema :: "'s driver \<Rightarrow> 's \<Rightarrow> (db_error + unit) \<times> 's" where
  "verify_schema drv =
     and_then (verify_v1_schema drv) (\<lambda>_.
     and_then (verify_table_columns drv ''service_rate_limit_gate'' SERVICE_RATE_LIMIT_GATE_COLUMNS) (\<lambda>_.
     and_then (verify_table_columns drv ''attempt_observations'' ATTEMPT_OBSERVATIONS_COLUMNS) (\<lambda>_.
     and_then (verify_object_sql drv ''table'' ''service_rate_limit_gate'' gate_ddl) (\<lambda>_.
     and_then (verify_object_sql drv ''table'' ''attempt_observations'' observations_ddl) (\<lambda>_.
     and_then (verify_object_sql drv ''index'' ''attempt_observations_attempt_order'' observations_index_ddl) (\<lambda>_.
     and_then (sql_execute drv (index_list_of ''attempt_observations'') []) (\<lambda>rows.
       yields (has_observations_index rows))))))))"

definition ensure_schema :: "'s driver \<Rightarrow> 's \<Rightarrow> (db_error + unit) \<times> 's" where
  "ensure_schema drv =
     and_then (fetch_single drv ''PRAGMA user_version'') (\<lambda>version.
       if version = SQL_integer 0
       then and_then (executes drv MIGRATION_1_STATEMENTS) (\<lambda>_.
            and_then (executes drv MIGRATION_2_STATEMENTS) (\<lambda>_. executes drv [SET_VERSION]))
       else if version = SQL_integer 1
       then and_then (verify_v1_schema drv) (\<lambda>_.
            and_then (executes drv MIGRATION_2_STATEMENTS) (\<lambda>_. executes drv [SET_VERSION]))
       else if version = SQL_integer SCHEMA_VERSION then verify_schema drv
       else yields (Inl Schema_version_error))"

section \<open>Opening a connection\<close>

text \<open>
  \<open>_configure_pragmas\<close>: four settings, four readings, and the checks.  A row of another shape
  raises inside the \<open>try\<close>, where only \<open>sqlite3.Error\<close> is caught.
\<close>

definition pragmas_ok :: "sql_value \<Rightarrow> sql_value \<Rightarrow> sql_value \<Rightarrow> sql_value \<Rightarrow> db_error + unit" where
  "pragmas_ok journal sync keys busy =
     (if map lower_point (str_value journal) \<noteq> ascii ''delete'' then Inl Persistence_failure
      else case int_value sync of Inl e \<Rightarrow> Inl e | Inr n \<Rightarrow>
        if n \<noteq> 2 then Inl Persistence_failure
        else case int_value keys of Inl e \<Rightarrow> Inl e | Inr n \<Rightarrow>
          if n \<noteq> 1 then Inl Persistence_failure
          else case int_value busy of Inl e \<Rightarrow> Inl e | Inr n \<Rightarrow>
            if n \<noteq> BUSY_TIMEOUT_MS then Inl Persistence_failure else Inr ())"

definition as_persistence_error :: "(db_error \<Rightarrow> bool) \<Rightarrow> ('s \<Rightarrow> (db_error + 'a) \<times> 's) \<Rightarrow> 's \<Rightarrow> (db_error + 'a) \<times> 's" where
  "as_persistence_error caught p s =
     (case p s of
        (Inl e, s') \<Rightarrow> (Inl (if caught e then Persistence_failure else e), s')
      | (Inr a, s') \<Rightarrow> (Inr a, s'))"

definition configure_pragmas :: "'s driver \<Rightarrow> 's \<Rightarrow> (db_error + unit) \<times> 's" where
  "configure_pragmas drv = and_then
     (as_persistence_error is_sqlite_error
       (and_then (executes drv [''PRAGMA busy_timeout = 5000'', ''PRAGMA journal_mode = DELETE'',
                                ''PRAGMA synchronous = FULL'', ''PRAGMA foreign_keys = ON'']) (\<lambda>_.
        and_then (fetch_single drv ''PRAGMA journal_mode'') (\<lambda>journal.
        and_then (fetch_single drv ''PRAGMA synchronous'') (\<lambda>sync.
        and_then (fetch_single drv ''PRAGMA foreign_keys'') (\<lambda>keys.
        and_then (fetch_single drv ''PRAGMA busy_timeout'') (\<lambda>busy.
          yields (Inr (journal, sync, keys, busy)))))))))
     (\<lambda>(journal, sync, keys, busy). yields (pragmas_ok journal sync keys busy))"

text \<open>
  A failed \<open>ROLLBACK\<close> of a handler raises in place of what it handles; a row of another shape
  is not handled, and \<open>COMMIT\<close> stands outside the \<open>try\<close>.
\<close>

definition ensure_schema_locked :: "'s driver \<Rightarrow> 's \<Rightarrow> (db_error + unit) \<times> 's" where
  "ensure_schema_locked drv =
     and_then (as_persistence_error (\<lambda>e. e = Sqlite_operational) (sql_execute drv ''BEGIN EXCLUSIVE'' [])) (\<lambda>_ s.
       case ensure_schema drv s of
         (Inl e, s') \<Rightarrow>
           if is_sqlite_error e
           then and_then (sql_execute drv ''ROLLBACK'' []) (\<lambda>_. yields (Inl Persistence_failure)) s'
           else if is_persistence_error e
           then and_then (sql_execute drv ''ROLLBACK'' []) (\<lambda>_. yields (Inl e)) s'
           else (Inl e, s')
       | (Inr _, s') \<Rightarrow> and_then (sql_execute drv ''COMMIT'' []) (\<lambda>_. yields (Inr ())) s')"

text \<open>\<open>except OSError\<close> of the directory, \<open>except sqlite3.Error\<close> of the file, and the closing.\<close>

definition open_connection :: "'s driver \<Rightarrow> 's \<Rightarrow> (db_error + unit) \<times> 's" where
  "open_connection drv s =
     (case make_parent_directory drv s of
        (False, s') \<Rightarrow> (Inl Persistence_failure, s')
      | (True, s') \<Rightarrow>
          and_then (as_persistence_error is_sqlite_error (connect_file drv)) (\<lambda>_ s''.
            case and_then (configure_pragmas drv) (\<lambda>_. ensure_schema_locked drv) s'' of
              (Inl e, t) \<Rightarrow> (Inl e, close_handle drv t)
            | (Inr _, t) \<Rightarrow> (Inr (), t)) s')"

end
