(* ===== verification/Opening.thy ===== *)
theory Opening
  imports Schema
begin

text \<open>
  What opening a connection does to the database file: the schema is the program's afterwards or
  nothing was changed.  \<open>engine_ok\<close> states what SQLite documents of the statements that
  \<open>Schema\<close> issues; \<open>sample_driver\<close> is a driver that satisfies it.
\<close>

section \<open>The file behind a connection\<close>

text \<open>
  The version number, the rows of \<open>sqlite_master\<close> with type, name and text, and the contents of
  the tables.
\<close>

record 'r db_file =
  file_version :: int
  objects :: "(ustr \<times> ustr \<times> ustr option) list"
  table_contents :: 'r

text \<open>The objects of the program's schema with the statements that create them.\<close>

definition v1_objects :: "(string \<times> string \<times> string) list" where
  "v1_objects = [(''table'', ''jobs'', jobs_ddl),
     (''table'', ''submission_attempts'', submission_attempts_ddl),
     (''index'', ''one_started_attempt_per_job'', one_started_ddl)]"

definition v2_objects :: "(string \<times> string \<times> string) list" where
  "v2_objects = [(''table'', ''service_rate_limit_gate'', gate_ddl),
     (''table'', ''attempt_observations'', observations_ddl),
     (''index'', ''attempt_observations_attempt_order'', observations_index_ddl)]"

lemma migration_statements:
  "MIGRATION_1_STATEMENTS = map (\<lambda>(_, _, q). q) v1_objects"
  "MIGRATION_2_STATEMENTS = map (\<lambda>(_, _, q). q) v2_objects"
  by (simp_all add: MIGRATION_1_STATEMENTS_def MIGRATION_2_STATEMENTS_def v1_objects_def v2_objects_def)

definition named :: "'r db_file \<Rightarrow> string \<Rightarrow> string \<Rightarrow> (ustr \<times> ustr \<times> ustr option) list" where
  "named c typ name = filter (\<lambda>(t, n, _). t = ascii typ \<and> n = ascii name) (objects c)"

text \<open>The object the text of which a look-up by type and name finds is the given statement's.\<close>

definition defined_as :: "'r db_file \<Rightarrow> string \<times> string \<times> string \<Rightarrow> bool" where
  "defined_as c obj = (case obj of (typ, name, ddl) \<Rightarrow>
     (case named c typ name of
        (_, _, Some text) # _ \<Rightarrow> normalize_sql text = normalize_sql (ascii ddl)
      | _ \<Rightarrow> False))"

definition schema_ok :: "'r db_file \<Rightarrow> bool" where
  "schema_ok c \<longleftrightarrow> file_version c = SCHEMA_VERSION \<and> (\<forall>obj\<in>set (v1_objects @ v2_objects). defined_as c obj)"

text \<open>A migration adds objects and sets the version; the tables keep their rows.\<close>

definition migrated :: "'r db_file \<Rightarrow> 'r db_file \<Rightarrow> bool" where
  "migrated c c' \<longleftrightarrow> file_version c \<in> {0, 1} \<and> file_version c' = SCHEMA_VERSION
     \<and> table_contents c' = table_contents c \<and> (\<exists>new. objects c' = objects c @ new)"

section \<open>What SQLite documents\<close>

text \<open>
  \<open>committed\<close> is the file as other connections see it, \<open>working\<close> what the open transaction sees;
  \<open>others\<close> is what other processes may commit while this connection holds no lock.
\<close>

type_synonym ('s, 'r) views = "('s \<Rightarrow> 'r db_file) \<times> ('s \<Rightarrow> 'r db_file option)"

text \<open>Outside a transaction a call leaves the file to the other processes.\<close>

definition leaves_alone :: "('s \<Rightarrow> 'r db_file) \<Rightarrow> ('s \<Rightarrow> 'r db_file option) \<Rightarrow> ('r db_file \<Rightarrow> 'r db_file \<Rightarrow> bool) \<Rightarrow> 's \<Rightarrow> 's \<Rightarrow> bool" where
  "leaves_alone committed working others s s' \<longleftrightarrow>
     working s = None \<longrightarrow> working s' = None \<and> others\<^sup>*\<^sup>* (committed s) (committed s')"

definition idle_calls :: "'s driver \<Rightarrow> ('s \<Rightarrow> 'r db_file) \<Rightarrow> ('s \<Rightarrow> 'r db_file option) \<Rightarrow> ('r db_file \<Rightarrow> 'r db_file \<Rightarrow> bool) \<Rightarrow> bool" where
  "idle_calls drv committed working others \<longleftrightarrow>
     (\<forall>s. leaves_alone committed working others s (snd (make_parent_directory drv s)))
   \<and> (\<forall>s. leaves_alone committed working others s (snd (connect_file drv s)))
   \<and> (\<forall>q s. q \<noteq> ''BEGIN EXCLUSIVE'' \<longrightarrow> leaves_alone committed working others s (snd (sql_execute drv q [] s)))"

text \<open>
  The control statements and the closing.  A \<open>COMMIT\<close> that fails may have taken effect or not;
  everything else that ends a transaction drops it.
\<close>

definition control_ok :: "'s driver \<Rightarrow> ('s \<Rightarrow> 'r db_file) \<Rightarrow> ('s \<Rightarrow> 'r db_file option) \<Rightarrow> ('r db_file \<Rightarrow> 'r db_file \<Rightarrow> bool) \<Rightarrow> bool" where
  "control_ok drv committed working others \<longleftrightarrow>
     (\<forall>s r s'. sql_execute drv ''BEGIN EXCLUSIVE'' [] s = (r, s') \<longrightarrow> working s = None \<longrightarrow>
        others\<^sup>*\<^sup>* (committed s) (committed s')
        \<and> working s' = (case r of Inl _ \<Rightarrow> None | Inr _ \<Rightarrow> Some (committed s')))
   \<and> (\<forall>s r s' c. sql_execute drv ''COMMIT'' [] s = (r, s') \<longrightarrow> working s = Some c \<longrightarrow>
        (case r of Inl e \<Rightarrow> is_sqlite_error e \<and> committed s' \<in> {committed s, c}
         | Inr _ \<Rightarrow> working s' = None \<and> committed s' = c))
   \<and> (\<forall>s r s'. sql_execute drv ''ROLLBACK'' [] s = (r, s') \<longrightarrow> committed s' = committed s)
   \<and> (\<forall>s. committed (close_handle drv s) = committed s \<and> working (close_handle drv s) = None)"

text \<open>A statement in a transaction: it fails, or yields rows the transaction then sees.\<close>

definition answers :: "('s \<Rightarrow> 'r db_file) \<Rightarrow> ('s \<Rightarrow> 'r db_file option) \<Rightarrow> ('s \<Rightarrow> (db_error + 'a) \<times> 's)
    \<Rightarrow> 'r db_file \<Rightarrow> ('a \<Rightarrow> 'r db_file \<Rightarrow> bool) \<Rightarrow> bool" where
  "answers committed working p c R \<longleftrightarrow> (\<forall>s r s'. p s = (r, s') \<longrightarrow> working s = Some c \<longrightarrow>
     committed s' = committed s
     \<and> (case r of Inl _ \<Rightarrow> True | Inr a \<Rightarrow> (\<exists>c'. working s' = Some c' \<and> R a c')))"

definition statements_ok :: "'s driver \<Rightarrow> ('s \<Rightarrow> 'r db_file) \<Rightarrow> ('s \<Rightarrow> 'r db_file option) \<Rightarrow> bool" where
  "statements_ok drv committed working \<longleftrightarrow>
     (\<forall>c. answers committed working (sql_execute drv ''PRAGMA user_version'' []) c
        (\<lambda>rows c'. c' = c \<and> rows = [[SQL_integer (file_version c)]]))
   \<and> (\<forall>c. answers committed working (sql_execute drv SET_VERSION []) c
        (\<lambda>_ c'. c' = c\<lparr>file_version := SCHEMA_VERSION\<rparr>))
   \<and> (\<forall>c typ name. answers committed working (sql_execute drv SELECT_SQL [SQL_text (ascii typ), SQL_text (ascii name)]) c
        (\<lambda>rows c'. c' = c \<and> rows = map (\<lambda>(_, _, text). [case text of None \<Rightarrow> SQL_null | Some t \<Rightarrow> SQL_text t])
           (named c typ name)))
   \<and> (\<forall>c q. (\<exists>t. q = table_info_of t \<or> q = index_list_of t) \<longrightarrow>
        answers committed working (sql_execute drv q []) c (\<lambda>_ c'. c' = c))
   \<and> (\<forall>c. \<forall>(typ, name, ddl)\<in>set (v1_objects @ v2_objects).
        answers committed working (sql_execute drv ddl []) c
        (\<lambda>_ c'. named c typ name = [] \<and> (\<exists>text. normalize_sql text = normalize_sql (ascii ddl)
           \<and> c' = c\<lparr>objects := objects c @ [(ascii typ, ascii name, Some text)]\<rparr>)))"

definition engine_ok :: "'s driver \<Rightarrow> ('s \<Rightarrow> 'r db_file) \<Rightarrow> ('s \<Rightarrow> 'r db_file option) \<Rightarrow> ('r db_file \<Rightarrow> 'r db_file \<Rightarrow> bool) \<Rightarrow> bool" where
  "engine_ok drv committed working others \<longleftrightarrow> idle_calls drv committed working others
     \<and> control_ok drv committed working others \<and> statements_ok drv committed working"

section \<open>Inside the schema transaction\<close>

lemma answersD:
  assumes "answers committed working p c R" "p s = (r, s')" "working s = Some c"
  shows "committed s' = committed s" "r = Inr a \<Longrightarrow> \<exists>c'. working s' = Some c' \<and> R a c'"
proof -
  from assms have "committed s' = committed s
     \<and> (case r of Inl _ \<Rightarrow> True | Inr a \<Rightarrow> (\<exists>c'. working s' = Some c' \<and> R a c'))"
    unfolding answers_def by blast
  then show "committed s' = committed s" "r = Inr a \<Longrightarrow> \<exists>c'. working s' = Some c' \<and> R a c'" by auto
qed

lemma answersI:
  assumes "\<And>s r s'. p s = (r, s') \<Longrightarrow> working s = Some c \<Longrightarrow>
    committed s' = committed s \<and> (\<forall>a. r = Inr a \<longrightarrow> (\<exists>c'. working s' = Some c' \<and> R a c'))"
  shows "answers committed working p c R"
  unfolding answers_def
proof (intro allI impI)
  fix s r s' assume "p s = (r, s')" "working s = Some c"
  with assms show "committed s' = committed s
      \<and> (case r of Inl _ \<Rightarrow> True | Inr a \<Rightarrow> (\<exists>c'. working s' = Some c' \<and> R a c'))"
    by (cases r) auto
qed

lemma answers_and_then:
  assumes "answers committed working p c R"
    and "\<And>a c'. R a c' \<Longrightarrow> answers committed working (f a) c' S"
  shows "answers committed working (and_then p f) c S"
proof (rule answersI)
  fix s r s' assume run: "and_then p f s = (r, s')" and w: "working s = Some c"
  obtain r1 s1 where p: "p s = (r1, s1)" by fastforce
  note s1 = answersD[OF assms(1) p w]
  show "committed s' = committed s \<and> (\<forall>a. r = Inr a \<longrightarrow> (\<exists>c'. working s' = Some c' \<and> S a c'))"
  proof (cases r1)
    case (Inl e)
    with run p s1(1) show ?thesis by (auto simp: and_then_def)
  next
    case (Inr a)
    with s1(2) obtain c' where "working s1 = Some c'" "R a c'" by blast
    moreover from run p Inr have "f a s1 = (r, s')" by (simp add: and_then_def)
    ultimately show ?thesis using s1(1) answersD[OF assms(2)] by metis
  qed
qed

lemma answers_yields: "(\<And>a. r = Inr a \<Longrightarrow> R a c) \<Longrightarrow> answers committed working (yields r) c R"
  by (auto simp: answers_def yields_def split: sum.splits)

lemma answers_mono:
  "answers committed working p c R \<Longrightarrow> (\<And>a c'. R a c' \<Longrightarrow> S a c') \<Longrightarrow> answers committed working p c S"
  unfolding answers_def by (fastforce split: sum.splits)

lemma statementsD:
  assumes "statements_ok drv committed working"
  shows "answers committed working (sql_execute drv ''PRAGMA user_version'' []) c
      (\<lambda>rows c'. c' = c \<and> rows = [[SQL_integer (file_version c)]])"
    and "answers committed working (sql_execute drv SET_VERSION []) c
      (\<lambda>_ c'. c' = c\<lparr>file_version := SCHEMA_VERSION\<rparr>)"
    and "answers committed working (sql_execute drv SELECT_SQL [SQL_text (ascii typ), SQL_text (ascii name)]) c
      (\<lambda>rows c'. c' = c \<and> rows = map (\<lambda>(_, _, text). [case text of None \<Rightarrow> SQL_null | Some t \<Rightarrow> SQL_text t])
         (named c typ name))"
    and "answers committed working (sql_execute drv (table_info_of t) []) c (\<lambda>_ c'. c' = c)"
    and "answers committed working (sql_execute drv (index_list_of t) []) c (\<lambda>_ c'. c' = c)"
    and "(typ, name, ddl) \<in> set (v1_objects @ v2_objects) \<Longrightarrow> answers committed working (sql_execute drv ddl []) c
      (\<lambda>_ c'. named c typ name = [] \<and> (\<exists>text. normalize_sql text = normalize_sql (ascii ddl)
         \<and> c' = c\<lparr>objects := objects c @ [(ascii typ, ascii name, Some text)]\<rparr>))"
proof -
  note laws = assms[unfolded statements_ok_def]
  show "answers committed working (sql_execute drv ''PRAGMA user_version'' []) c
      (\<lambda>rows c'. c' = c \<and> rows = [[SQL_integer (file_version c)]])"
    by (rule laws[THEN conjunct1, THEN spec])
  show "answers committed working (sql_execute drv SET_VERSION []) c
      (\<lambda>_ c'. c' = c\<lparr>file_version := SCHEMA_VERSION\<rparr>)"
    by (rule laws[THEN conjunct2, THEN conjunct1, THEN spec])
  show "answers committed working (sql_execute drv SELECT_SQL [SQL_text (ascii typ), SQL_text (ascii name)]) c
      (\<lambda>rows c'. c' = c \<and> rows = map (\<lambda>(_, _, text). [case text of None \<Rightarrow> SQL_null | Some t \<Rightarrow> SQL_text t])
         (named c typ name))"
    by (rule laws[THEN conjunct2, THEN conjunct2, THEN conjunct1, THEN spec, THEN spec, THEN spec])
  note reads = laws[THEN conjunct2, THEN conjunct2, THEN conjunct2, THEN conjunct1, THEN spec, THEN spec, THEN mp]
  show "answers committed working (sql_execute drv (table_info_of t) []) c (\<lambda>_ c'. c' = c)"
    "answers committed working (sql_execute drv (index_list_of t) []) c (\<lambda>_ c'. c' = c)"
    by (rule reads, blast)+
  show "answers committed working (sql_execute drv ddl []) c
      (\<lambda>_ c'. named c typ name = [] \<and> (\<exists>text. normalize_sql text = normalize_sql (ascii ddl)
         \<and> c' = c\<lparr>objects := objects c @ [(ascii typ, ascii name, Some text)]\<rparr>))"
    if "(typ, name, ddl) \<in> set (v1_objects @ v2_objects)"
    using laws[THEN conjunct2, THEN conjunct2, THEN conjunct2, THEN conjunct2, THEN spec, THEN bspec, OF that]
    by simp
qed

lemma columns_inside:
  assumes "statements_ok drv committed working"
  shows "answers committed working (verify_table_columns drv t expected) c (\<lambda>_ c'. c' = c)"
  unfolding verify_table_columns_def
  by (rule answers_and_then[OF statementsD(4)[OF assms]]) (simp add: answers_yields)

lemma object_inside:
  assumes "statements_ok drv committed working"
  shows "answers committed working (verify_object_sql drv typ name ddl) c
    (\<lambda>_ c'. c' = c \<and> defined_as c (typ, name, ddl))"
  unfolding verify_object_sql_def
  by (rule answers_and_then[OF statementsD(3)[OF assms]])
     (auto intro!: answers_yields simp: defined_as_def split: list.splits option.splits if_splits)

lemma fetch_inside:
  assumes "answers committed working (sql_execute drv q []) c (\<lambda>rows c'. c' = c \<and> rows = [[v]])"
  shows "answers committed working (fetch_single drv q) c (\<lambda>v' c'. c' = c \<and> v' = v)"
  unfolding fetch_single_def by (rule answers_and_then[OF assms]) (auto intro: answers_yields)

lemma verify_v1_inside:
  assumes "statements_ok drv committed working"
  shows "answers committed working (verify_v1_schema drv) c
    (\<lambda>_ c'. c' = c \<and> (\<forall>obj\<in>set v1_objects. defined_as c obj))"
  unfolding verify_v1_schema_def v1_objects_def
  by (rule answers_and_then answers_yields columns_inside[OF assms] object_inside[OF assms]
        statementsD(5)[OF assms] | clarsimp)+

lemma verify_inside:
  assumes "statements_ok drv committed working"
  shows "answers committed working (verify_schema drv) c
    (\<lambda>_ c'. c' = c \<and> (\<forall>obj\<in>set (v1_objects @ v2_objects). defined_as c obj))"
  unfolding verify_schema_def v2_objects_def
  by (rule answers_and_then answers_yields columns_inside[OF assms] object_inside[OF assms]
        verify_v1_inside[OF assms] statementsD(5)[OF assms] | clarsimp)+

text \<open>A created object is found under its name, and later objects do not hide it.\<close>

definition grown :: "'r db_file \<Rightarrow> 'r db_file \<Rightarrow> bool" where
  "grown c c' \<longleftrightarrow> file_version c' = file_version c \<and> table_contents c' = table_contents c
     \<and> (\<exists>new. objects c' = objects c @ new)"

lemma grown_trans: "grown c d \<Longrightarrow> grown d e \<Longrightarrow> grown c e"
  by (auto simp: grown_def)

lemma defined_as_grown: "defined_as c obj \<Longrightarrow> grown c c' \<Longrightarrow> defined_as c' obj"
proof -
  assume "defined_as c obj" "grown c c'"
  obtain ty name ddl where fields: "obj = (ty, name, ddl)" by (cases obj)
  note \<open>defined_as c obj\<close>
  moreover from \<open>grown c c'\<close> obtain new where "named c' ty name = named c ty name @ new"
    by (auto simp: grown_def named_def)
  ultimately show ?thesis using fields
    by (cases "named c ty name") (auto simp: defined_as_def)
qed

lemma created_defined:
  assumes "named c typ name = []" "normalize_sql text = normalize_sql (ascii ddl)"
  shows "defined_as (c\<lparr>objects := objects c @ [(ascii typ, ascii name, Some text)]\<rparr>) (typ, name, ddl)"
  using assms by (simp add: defined_as_def named_def)

lemma creations_inside:
  assumes "statements_ok drv committed working" "set defs \<subseteq> set (v1_objects @ v2_objects)"
  shows "answers committed working (executes drv (map (\<lambda>(_, _, q). q) defs)) c
    (\<lambda>_ c'. grown c c' \<and> (\<forall>obj\<in>set defs. defined_as c' obj))"
  using assms(2)
proof (induction defs arbitrary: c)
  case Nil
  then show ?case by (auto intro: answers_yields simp: grown_def)
next
  case (Cons obj defs)
  obtain ty name ddl where obj: "obj = (ty, name, ddl)" by (cases obj)
  with Cons.prems have mem: "(ty, name, ddl) \<in> set (v1_objects @ v2_objects)" by simp
  have rest: "set defs \<subseteq> set (v1_objects @ v2_objects)" using Cons.prems by simp
  show ?case unfolding obj list.map prod.case executes.simps
  proof (rule answers_and_then[OF statementsD(6)[OF assms(1) mem]])
    fix rows c'
    assume "named c ty name = [] \<and> (\<exists>text. normalize_sql text = normalize_sql (ascii ddl)
         \<and> c' = c\<lparr>objects := objects c @ [(ascii ty, ascii name, Some text)]\<rparr>)"
    then have "grown c c'" "defined_as c' (ty, name, ddl)"
      by (auto simp: created_defined grown_def)
    then show "answers committed working (executes drv (map (\<lambda>(_, _, q). q) defs)) c'
        (\<lambda>_ c'. grown c c' \<and> (\<forall>obj\<in>set ((ty, name, ddl) # defs). defined_as c' obj))"
      by (intro answers_mono[OF Cons.IH[OF rest, of c']]) (auto intro: grown_trans defined_as_grown)
  qed
qed

lemma version_inside:
  assumes "statements_ok drv committed working" "grown c d"
    "file_version c \<in> {0, 1}" "\<forall>obj\<in>set (v1_objects @ v2_objects). defined_as d obj"
  shows "answers committed working (executes drv [SET_VERSION]) d (\<lambda>_ c'. schema_ok c' \<and> migrated c c')"
proof -
  have "defined_as (d\<lparr>file_version := SCHEMA_VERSION\<rparr>) obj = defined_as d obj" for obj
    by (simp add: defined_as_def named_def)
  with assms(2-4) show ?thesis
    by (simp del: set_append)
       (rule answers_and_then[OF statementsD(2)[OF assms(1)]], rule answers_yields,
        auto simp: schema_ok_def migrated_def grown_def)
qed

lemma ensure_schema_inside:
  assumes ok: "statements_ok drv committed working"
  shows "answers committed working (ensure_schema drv) c
    (\<lambda>_ c'. schema_ok c' \<and> (c' = c \<or> migrated c c'))"
  unfolding ensure_schema_def
proof (rule answers_and_then[OF fetch_inside[OF statementsD(1)[OF ok]]], elim conjE)
  fix v c' assume c: "c' = c" and v: "v = SQL_integer (file_version c)"
  have one: "answers committed working (executes drv MIGRATION_1_STATEMENTS) d
      (\<lambda>_ c'. grown d c' \<and> (\<forall>obj\<in>set v1_objects. defined_as c' obj))" for d
    unfolding migration_statements by (rule creations_inside[OF ok]) simp
  have two: "answers committed working (executes drv MIGRATION_2_STATEMENTS) d
      (\<lambda>_ c'. grown d c' \<and> (\<forall>obj\<in>set v2_objects. defined_as c' obj))" for d
    unfolding migration_statements by (rule creations_inside[OF ok]) simp
  have rest: "answers committed working
      (and_then (executes drv MIGRATION_2_STATEMENTS) (\<lambda>_. executes drv [SET_VERSION])) d
      (\<lambda>_ c'. schema_ok c' \<and> migrated c c')"
    if "file_version c \<in> {0, 1}" "grown c d" "\<forall>obj\<in>set v1_objects. defined_as d obj" for d
    by (rule answers_and_then[OF two], rule version_inside[OF ok _ that(1)])
       (use that in \<open>auto intro: grown_trans defined_as_grown\<close>)
  have self: "grown c c" by (simp add: grown_def)
  consider "file_version c = 0" | "file_version c = 1" | "file_version c = 2"
    | "file_version c \<notin> {0, 1, 2}" by auto
  then show "answers committed working (if v = SQL_integer 0
       then and_then (executes drv MIGRATION_1_STATEMENTS) (\<lambda>_.
            and_then (executes drv MIGRATION_2_STATEMENTS) (\<lambda>_. executes drv [SET_VERSION]))
       else if v = SQL_integer 1
       then and_then (verify_v1_schema drv) (\<lambda>_.
            and_then (executes drv MIGRATION_2_STATEMENTS) (\<lambda>_. executes drv [SET_VERSION]))
       else if v = SQL_integer SCHEMA_VERSION then verify_schema drv
       else yields (Inl Schema_version_error)) c'
      (\<lambda>_ c'. schema_ok c' \<and> (c' = c \<or> migrated c c'))"
  proof cases
    case 1
    then show ?thesis unfolding c v
      by (simp del: executes.simps) (rule answers_and_then[OF one], rule answers_mono[OF rest], auto)
  next
    case 2
    then show ?thesis unfolding c v
      by (simp del: executes.simps) (rule answers_and_then[OF verify_v1_inside[OF ok]],
        rule answers_mono[OF rest], use self in auto)
  next
    case 3
    then show ?thesis unfolding c v
      by (simp add: SCHEMA_VERSION_def del: set_append) (rule answers_mono[OF verify_inside[OF ok]],
        simp add: schema_ok_def SCHEMA_VERSION_def)
  next
    case 4
    then show ?thesis unfolding c v by (auto simp: SCHEMA_VERSION_def intro: answers_yields)
  qed
qed

section \<open>Opening\<close>

text \<open>A program that runs outside a transaction.\<close>

definition idles :: "('s \<Rightarrow> 'r db_file) \<Rightarrow> ('s \<Rightarrow> 'r db_file option) \<Rightarrow> ('r db_file \<Rightarrow> 'r db_file \<Rightarrow> bool)
    \<Rightarrow> ('s \<Rightarrow> (db_error + 'a) \<times> 's) \<Rightarrow> bool" where
  "idles committed working others p \<longleftrightarrow> (\<forall>s. leaves_alone committed working others s (snd (p s)))"

lemma idlesD:
  "idles committed working others p \<Longrightarrow> p s = (r, s') \<Longrightarrow> working s = None
     \<Longrightarrow> working s' = None \<and> others\<^sup>*\<^sup>* (committed s) (committed s')"
  unfolding idles_def leaves_alone_def by (metis snd_conv)

lemma idles_and_then:
  assumes "idles committed working others p" "\<And>a. idles committed working others (f a)"
  shows "idles committed working others (and_then p f)"
  using assms unfolding idles_def leaves_alone_def and_then_def
  by (auto split: prod.split sum.split) (metis rtranclp_trans snd_conv)+

lemma idles_yields: "idles committed working others (yields r)"
  by (simp add: idles_def leaves_alone_def yields_def)

lemma idles_persistence:
  "idles committed working others p \<Longrightarrow> idles committed working others (as_persistence_error caught p)"
  unfolding idles_def leaves_alone_def as_persistence_error_def
  by (auto split: prod.split sum.split) (metis snd_conv)+

lemma idles_execute:
  "idle_calls drv committed working others \<Longrightarrow> q \<noteq> ''BEGIN EXCLUSIVE''
     \<Longrightarrow> idles committed working others (sql_execute drv q [])"
  by (simp add: idle_calls_def idles_def)

lemma idles_fetch:
  "idle_calls drv committed working others \<Longrightarrow> q \<noteq> ''BEGIN EXCLUSIVE''
     \<Longrightarrow> idles committed working others (fetch_single drv q)"
  by (simp add: fetch_single_def idles_and_then idles_execute idles_yields)

lemma configure_pragmas_idles:
  "idle_calls drv committed working others \<Longrightarrow> idles committed working others (configure_pragmas drv)"
  unfolding configure_pragmas_def
  by (intro idles_and_then idles_persistence)
     (auto intro!: idles_and_then idles_execute idles_fetch idles_yields split: prod.split)

lemma ensure_schema_locked_result:
  assumes ok: "engine_ok drv committed working others" and w: "working s = None"
    and run: "ensure_schema_locked drv s = (res, s')"
  shows "\<exists>d. others\<^sup>*\<^sup>* (committed s) d
    \<and> (case res of Inr _ \<Rightarrow> working s' = None \<and> schema_ok (committed s') \<and> (committed s' = d \<or> migrated d (committed s'))
       | Inl e \<Rightarrow> committed s' = d
           \<or> is_sqlite_error e \<and> schema_ok (committed s') \<and> migrated d (committed s'))"
proof -
  have ctl: "control_ok drv committed working others" and stm: "statements_ok drv committed working"
    using ok by (simp_all add: engine_ok_def)
  note laws = ctl[unfolded control_ok_def]
  obtain rb sb where b: "sql_execute drv ''BEGIN EXCLUSIVE'' [] s = (rb, sb)" by fastforce
  from laws b w have others: "others\<^sup>*\<^sup>* (committed s) (committed sb)"
    and wb: "working sb = (case rb of Inl _ \<Rightarrow> None | Inr _ \<Rightarrow> Some (committed sb))" by blast+
  show ?thesis
  proof (cases rb)
    case (Inl e)
    with run b have "s' = sb" "\<exists>e. res = Inl e"
      by (auto simp: ensure_schema_locked_def and_then_def as_persistence_error_def)
    with others show ?thesis by auto
  next
    case (Inr rows)
    with wb have wb: "working sb = Some (committed sb)" by simp
    obtain re se where e: "ensure_schema drv sb = (re, se)" by fastforce
    note inside = answersD[OF ensure_schema_inside[OF stm, of "committed sb"] e wb]
    show ?thesis
    proof (cases re)
      case (Inl err)
      obtain rr sr where r: "sql_execute drv ''ROLLBACK'' [] se = (rr, sr)" by fastforce
      with laws have "committed sr = committed se" by blast
      moreover from run b Inr e Inl r have "(s' = sr \<or> s' = se) \<and> (\<exists>e. res = Inl e)"
        by (auto simp: ensure_schema_locked_def and_then_def as_persistence_error_def yields_def
            split: sum.splits if_splits)
      ultimately show ?thesis using inside(1) others by auto
    next
      case (Inr u)
      with inside(2) obtain c where c: "working se = Some c" "schema_ok c"
        "c = committed sb \<or> migrated (committed sb) c" by blast
      obtain rc sc where k: "sql_execute drv ''COMMIT'' [] se = (rc, sc)" by fastforce
      with laws c(1) have commit: "case rc of Inl e \<Rightarrow> is_sqlite_error e \<and> committed sc \<in> {committed se, c}
         | Inr _ \<Rightarrow> working sc = None \<and> committed sc = c" by blast
      from run b \<open>rb = Inr rows\<close> e Inr k have "s' = sc \<and> (case rc of Inl e \<Rightarrow> res = Inl e | Inr _ \<Rightarrow> res = Inr ())"
        by (auto simp: ensure_schema_locked_def and_then_def as_persistence_error_def yields_def
            split: sum.splits)
      with commit c inside(1) others show ?thesis
        by (intro exI[of _ "committed sb"]) (auto split: sum.splits)
    qed
  qed
qed

text \<open>
  C23. Opening a database establishes the program's schema or changes nothing: after a success the
  file has version 2 and all six objects with the text of the migrations up to white space, and it
  is what was found or a migration of it from version 0 or 1 that keeps every object and row; after
  a failure it is what was found, unless the final \<open>COMMIT\<close> itself failed.  No transaction is left
  open.
\<close>

theorem opening_is_all_or_nothing:
  assumes "engine_ok drv committed working others" "working s = None"
    "open_connection drv s = (res, s')"
  shows "\<exists>d. others\<^sup>*\<^sup>* (committed s) d \<and> working s' = None
    \<and> (case res of Inr _ \<Rightarrow> schema_ok (committed s') \<and> (committed s' = d \<or> migrated d (committed s'))
       | Inl e \<Rightarrow> committed s' = d
           \<or> is_sqlite_error e \<and> schema_ok (committed s') \<and> migrated d (committed s'))"
proof -
  have idle: "idle_calls drv committed working others" and ctl: "control_ok drv committed working others"
    using assms(1) by (simp_all add: engine_ok_def)
  obtain made s1 where m: "make_parent_directory drv s = (made, s1)" by fastforce
  with idle assms(2) have s1: "working s1 = None \<and> others\<^sup>*\<^sup>* (committed s) (committed s1)"
    unfolding idle_calls_def leaves_alone_def by (metis snd_conv)
  have conn: "idles committed working others (as_persistence_error is_sqlite_error (connect_file drv))"
    using idle by (intro idles_persistence) (simp add: idle_calls_def idles_def)
  obtain rc s2 where c: "as_persistence_error is_sqlite_error (connect_file drv) s1 = (rc, s2)" by fastforce
  from idlesD[OF conn c] s1 have s2: "working s2 = None \<and> others\<^sup>*\<^sup>* (committed s) (committed s2)"
    using rtranclp_trans by metis
  obtain rp s3 where p: "configure_pragmas drv s2 = (rp, s3)" by fastforce
  from idlesD[OF configure_pragmas_idles[OF idle] p] s2
  have s3: "working s3 = None \<and> others\<^sup>*\<^sup>* (committed s) (committed s3)"
    using rtranclp_trans by metis
  have close: "committed (close_handle drv t) = committed t" "working (close_handle drv t) = None" for t
    using ctl by (auto simp: control_ok_def)
  note run = assms(3)[unfolded open_connection_def and_then_def m]
  show ?thesis
  proof (cases "made = False \<or> (\<exists>e. rc = Inl e) \<or> (\<exists>e. rp = Inl e)")
    case True
    with run c p have "(\<exists>e. res = Inl e) \<and> (s' = s1 \<or> s' = s2 \<or> s' = close_handle drv s3)"
      by (cases made; cases rc) auto
    with s1 s2 s3 close have "working s' = None" "others\<^sup>*\<^sup>* (committed s) (committed s')" "\<exists>e. res = Inl e"
      by auto
    then show ?thesis by (intro exI[of _ "committed s'"]) auto
  next
    case False
    then have ok: "made" "rc = Inr ()" "rp = Inr ()" by (cases rc; cases rp; simp)+
    obtain rl s4 where l: "ensure_schema_locked drv s3 = (rl, s4)" by fastforce
    from ok run c p l have res: "(case rl of Inl e \<Rightarrow> res = Inl e \<and> s' = close_handle drv s4
        | Inr _ \<Rightarrow> res = Inr () \<and> s' = s4)" by (auto split: sum.splits)
    from s3 have "working s3 = None" by simp
    from ensure_schema_locked_result[OF assms(1) this l] obtain d where
      d: "others\<^sup>*\<^sup>* (committed s3) d" "case rl of Inr _ \<Rightarrow> working s4 = None \<and> schema_ok (committed s4) \<and> (committed s4 = d \<or> migrated d (committed s4))
       | Inl e \<Rightarrow> committed s4 = d
           \<or> is_sqlite_error e \<and> schema_ok (committed s4) \<and> migrated d (committed s4)" by blast
    from d(1) s3 have "others\<^sup>*\<^sup>* (committed s) d" using rtranclp_trans by metis
    with res d(2) close show ?thesis by (intro exI[of _ d]; cases rl) simp_all
  qed
qed

section \<open>A driver that keeps the laws\<close>

type_synonym sample_connection = "nat list db_file \<times> nat list db_file option"

definition visible :: "sample_connection \<Rightarrow> nat list db_file" where
  "visible s = (case snd s of None \<Rightarrow> fst s | Some c \<Rightarrow> c)"

text \<open>Settings, and what \<open>table_info\<close> and \<open>index_list\<close> report of existing tables.\<close>

definition sample_tables :: "(string \<times> column list) list" where
  "sample_tables = [(''jobs'', JOBS_COLUMNS), (''submission_attempts'', SUBMISSION_ATTEMPTS_COLUMNS),
     (''service_rate_limit_gate'', SERVICE_RATE_LIMIT_GATE_COLUMNS),
     (''attempt_observations'', ATTEMPT_OBSERVATIONS_COLUMNS)]"

definition sample_indexes :: "(string \<times> string \<times> int) list" where
  "sample_indexes = [(''submission_attempts'', ''one_started_attempt_per_job'', 1),
     (''attempt_observations'', ''attempt_observations_attempt_order'', 0)]"

definition sample_reports :: "nat list db_file \<Rightarrow> (string \<times> sql_value list list) list" where
  "sample_reports c =
     [(''PRAGMA journal_mode'', [[SQL_text (ascii ''delete'')]]), (''PRAGMA synchronous'', [[SQL_integer 2]]),
      (''PRAGMA foreign_keys'', [[SQL_integer 1]]), (''PRAGMA busy_timeout'', [[SQL_integer 5000]])]
     @ map (\<lambda>(t, cols). (table_info_of t, if named c ''table'' t = [] then [] else
         map (\<lambda>(n, ty, nn, pk). [SQL_integer 0, n, SQL_text ty, SQL_integer nn, SQL_null, SQL_integer pk]) cols))
       sample_tables
     @ map (\<lambda>(t, index, flag). (index_list_of t, if named c ''index'' index = [] then [] else
         [[SQL_integer 0, SQL_text (ascii index), SQL_integer flag, SQL_text (ascii ''c''), SQL_integer flag]]))
       sample_indexes"

definition sample_create :: "string \<Rightarrow> nat list db_file \<Rightarrow> nat list db_file option" where
  "sample_create q c = (case find_first (\<lambda>(_, _, ddl). ddl = q) (v1_objects @ v2_objects) of
     None \<Rightarrow> None
   | Some (ty, name, ddl) \<Rightarrow>
       if named c ty name = [] then Some (c\<lparr>objects := objects c @ [(ascii ty, ascii name, Some (ascii ddl))]\<rparr>)
       else None)"

definition sample_change :: "string \<Rightarrow> nat list db_file \<Rightarrow> nat list db_file option" where
  "sample_change q c = (if q = SET_VERSION then Some (c\<lparr>file_version := SCHEMA_VERSION\<rparr>) else sample_create q c)"

definition sample_execute :: "string \<Rightarrow> sql_value list \<Rightarrow> sample_connection
    \<Rightarrow> (db_error + sql_value list list) \<times> sample_connection" where
  "sample_execute q ps s =
     (if q = ''BEGIN EXCLUSIVE'' then (Inr [], (fst s, Some (fst s)))
      else if q = ''COMMIT'' then (case snd s of Some c \<Rightarrow> (Inr [], (c, None)) | None \<Rightarrow> (Inl Sqlite_operational, s))
      else if q = ''ROLLBACK'' then (Inr [], (fst s, None))
      else if q = ''PRAGMA user_version'' then (Inr [[SQL_integer (file_version (visible s))]], s)
      else if q = SELECT_SQL then
        (case ps of [SQL_text ty, SQL_text name] \<Rightarrow>
           (Inr (map (\<lambda>(_, _, text). [case text of None \<Rightarrow> SQL_null | Some t \<Rightarrow> SQL_text t])
              (filter (\<lambda>(t, n, _). t = ty \<and> n = name) (objects (visible s)))), s)
         | _ \<Rightarrow> (Inl Sqlite_other, s))
      else case map_of (sample_reports (visible s)) q of
        Some rows \<Rightarrow> (Inr rows, s)
      | None \<Rightarrow> (case snd s of
            None \<Rightarrow> (Inr [], s)
          | Some c \<Rightarrow> (case sample_change q c of
                Some c' \<Rightarrow> (Inr [], (fst s, Some c'))
              | None \<Rightarrow> (Inl Sqlite_operational, s))))"

definition sample_driver :: "sample_connection driver" where
  "sample_driver = \<lparr>make_parent_directory = Pair True, connect_file = Pair (Inr ()),
     sql_execute = sample_execute, close_handle = (\<lambda>s. (fst s, None))\<rparr>"

lemma sample_sql [simp]: "sql_execute sample_driver = sample_execute"
  "make_parent_directory sample_driver = Pair True" "connect_file sample_driver = Pair (Inr ())"
  "close_handle sample_driver = (\<lambda>s. (fst s, None))"
  by (simp_all add: sample_driver_def)

lemmas ddl_texts = jobs_ddl_def submission_attempts_ddl_def one_started_ddl_def gate_ddl_def
  observations_ddl_def observations_index_ddl_def

text \<open>The statements are told apart by their first characters.\<close>

lemma statement_texts:
  "SET_VERSION = ''PRAGMA user_version = 2''" "\<exists>rest. SELECT_SQL = CHR ''S'' # rest"
  "(ty, name, ddl) \<in> set (v1_objects @ v2_objects) \<Longrightarrow> \<exists>rest. ddl = CHR 0x0A # rest"
  "\<exists>rest. table_info_of t = ''PRAGMA t'' @ rest" "\<exists>rest. index_list_of t = ''PRAGMA i'' @ rest"
  by (auto simp: v1_objects_def v2_objects_def ddl_texts SET_VERSION_def SELECT_SQL_def table_info_of_def index_list_of_def)

lemma reports_pragma: "q \<in> dom (map_of (sample_reports c)) \<Longrightarrow>
    (\<exists>r. q = ''PRAGMA t'' @ r) \<or> (\<exists>r. q = ''PRAGMA i'' @ r) \<or> q \<in> {''PRAGMA journal_mode'', ''PRAGMA synchronous'',
      ''PRAGMA foreign_keys'', ''PRAGMA busy_timeout''}"
  using statement_texts(4,5)
  by (auto simp: sample_reports_def dom_map_of_conv_image_fst sample_tables_def sample_indexes_def
    simp del: append_Cons append_Nil)

lemma reports_other:
  "map_of (sample_reports c) (CHR 0x0A # r) = None" "map_of (sample_reports c) SET_VERSION = None"
proof -
  have "CHR 0x0A # r \<notin> dom (map_of (sample_reports c))" using reports_pragma[of "CHR 0x0A # r" c] by auto
  then show "map_of (sample_reports c) (CHR 0x0A # r) = None" by (simp add: domIff)
  have "SET_VERSION \<notin> dom (map_of (sample_reports c))"
    using reports_pragma[of SET_VERSION c] by (auto simp: SET_VERSION_def)
  then show "map_of (sample_reports c) SET_VERSION = None" by (simp add: domIff)
qed

lemma sample_calls:
  "q \<noteq> ''BEGIN EXCLUSIVE'' \<Longrightarrow> snd s = None \<Longrightarrow> snd (snd (sample_execute q ps s)) = None
     \<and> fst (snd (sample_execute q ps s)) = fst s"
  by (simp add: sample_execute_def visible_def split: list.split sql_value.split option.split)

lemma sample_idle: "idle_calls sample_driver fst snd (\<lambda>_ _. False)"
  using sample_calls by (simp add: idle_calls_def leaves_alone_def)

lemma sample_control: "control_ok sample_driver fst snd (\<lambda>_ _. False)"
  by (auto simp: control_ok_def sample_execute_def)

lemma not_created: "q = CHR ''P'' # r \<Longrightarrow> sample_create q c = None"
proof -
  assume "q = CHR ''P'' # r"
  with statement_texts(3) have "find_first (\<lambda>(_, _, ddl). ddl = q) (v1_objects @ v2_objects) = None"
    unfolding find_first_None by fastforce
  then show ?thesis by (simp add: sample_create_def)
qed

lemma sample_reads:
  assumes "q = ''PRAGMA t'' @ r \<or> q = ''PRAGMA i'' @ r"
  shows "answers fst snd (sample_execute q []) c (\<lambda>_ c'. c' = c)"
proof -
  have "sample_change q c = None"
    using assms by (auto simp: sample_change_def SET_VERSION_def not_created)
  with assms show ?thesis
    by (auto simp: answers_def sample_execute_def visible_def SELECT_SQL_def split: option.splits)
qed

lemma ddl_distinct: "distinct (map (\<lambda>(_, _, q). q) (v1_objects @ v2_objects))"
  by code_simp

lemma find_first_distinct:
  "distinct (map f xs) \<Longrightarrow> x \<in> set xs \<Longrightarrow> find_first (\<lambda>y. f y = f x) xs = Some x"
  by (rule find_first_unique) (auto simp: distinct_map inj_on_def)

lemma sample_creates:
  assumes "(ty, name, ddl) \<in> set (v1_objects @ v2_objects)"
  shows "find_first (\<lambda>(_, _, q). q = ddl) (v1_objects @ v2_objects) = Some (ty, name, ddl)"
  using find_first_distinct[OF ddl_distinct assms] by (simp add: case_prod_unfold)

lemma sample_statements: "statements_ok sample_driver fst snd"
  unfolding statements_ok_def
proof (intro conjI allI impI ballI)
  fix c :: "nat list db_file"
  show "answers fst snd (sql_execute sample_driver ''PRAGMA user_version'' []) c
      (\<lambda>rows c'. c' = c \<and> rows = [[SQL_integer (file_version c)]])"
    by (simp add: answers_def sample_execute_def visible_def)
  show "answers fst snd (sql_execute sample_driver SET_VERSION []) c (\<lambda>_ c'. c' = c\<lparr>file_version := SCHEMA_VERSION\<rparr>)"
    using reports_other(2) by (simp add: answers_def sample_execute_def SET_VERSION_def SELECT_SQL_def visible_def sample_change_def)
  show "answers fst snd (sql_execute sample_driver SELECT_SQL [SQL_text (ascii ty), SQL_text (ascii name)]) c
      (\<lambda>rows c'. c' = c \<and> rows = map (\<lambda>(_, _, text). [case text of None \<Rightarrow> SQL_null | Some t \<Rightarrow> SQL_text t]) (named c ty name))"
    for ty name by (simp add: answers_def sample_execute_def SELECT_SQL_def visible_def named_def)
  show "answers fst snd (sql_execute sample_driver q []) c (\<lambda>_ c'. c' = c)"
    if "\<exists>t. q = table_info_of t \<or> q = index_list_of t" for q
    using that statement_texts(4,5) sample_reads by (metis sample_sql(1))
next
  fix c :: "nat list db_file" and obj
  assume obj: "obj \<in> set (v1_objects @ v2_objects)"
  obtain ty name ddl where fields: "obj = (ty, name, ddl)" by (cases obj)
  with obj obtain rest where ddl: "ddl = CHR 0x0A # rest" using statement_texts(3) by blast
  have "sample_change ddl c = (if named c ty name = []
      then Some (c\<lparr>objects := objects c @ [(ascii ty, ascii name, Some (ascii ddl))]\<rparr>) else None)"
    using sample_creates obj fields unfolding sample_change_def sample_create_def ddl by (simp add: SET_VERSION_def)
  with reports_other(1)[of c rest] have "answers fst snd (sample_execute ddl []) c (\<lambda>_ c'. named c ty name = []
      \<and> c' = c\<lparr>objects := objects c @ [(ascii ty, ascii name, Some (ascii ddl))]\<rparr>)"
    unfolding ddl by (auto simp: answers_def sample_execute_def SELECT_SQL_def visible_def split: if_splits)
  then show "case obj of (ty, name, ddl) \<Rightarrow> answers fst snd (sql_execute sample_driver ddl []) c
     (\<lambda>_ c'. named c ty name = [] \<and> (\<exists>text. normalize_sql text = normalize_sql (ascii ddl)
       \<and> c' = c\<lparr>objects := objects c @ [(ascii ty, ascii name, Some text)]\<rparr>))"
    unfolding fields prod.case sample_sql by (rule answers_mono) blast
qed

lemma sample_engine_ok: "engine_ok sample_driver fst snd (\<lambda>_ _. False)"
  by (simp add: engine_ok_def sample_idle sample_control sample_statements)

definition sample_file :: "nat list db_file" where
  "sample_file = \<lparr>file_version = 0, objects = [], table_contents = [7]\<rparr>"

definition sample_opened :: "sample_connection \<Rightarrow> sample_connection" where
  "sample_opened s = snd (open_connection sample_driver s)"

lemma sample_opening: "open_connection sample_driver (sample_file, None) = (Inr (), sample_opened (sample_file, None))"
proof -
  have "fst (open_connection sample_driver (sample_file, None)) = Inr ()" by code_simp
  then show ?thesis by (simp add: sample_opened_def prod_eq_iff)
qed

lemma nobody_else: "(\<lambda>_ _. False)\<^sup>*\<^sup>* c d \<Longrightarrow> d = c"
  by (induction rule: rtranclp_induct) auto

lemma witness_opening_is_all_or_nothing:
  "schema_ok (fst (sample_opened (sample_file, None)))
     \<and> table_contents (fst (sample_opened (sample_file, None))) = [7]"
proof -
  have "snd (sample_file, None :: nat list db_file option) = None" by simp
  from opening_is_all_or_nothing[OF sample_engine_ok this sample_opening] nobody_else
  have "schema_ok (fst (sample_opened (sample_file, None)))"
    "table_contents (fst (sample_opened (sample_file, None))) = table_contents sample_file"
    by (fastforce simp: migrated_def)+
  then show ?thesis by (simp add: sample_file_def)
qed

end
