(* ===== verification/Guarantee.thy ===== *)
theory Guarantee
  imports Admission
begin

text \<open>
  Rely and guarantee.  The rely: what other processes commit while this one holds no lock are steps
  of the same state machine.  The guarantee: each transaction, whatever it returns or raises,
  moves the durable database by such steps, provided the caller names an attempt together with
  its Job.
\<close>

section \<open>The rely\<close>

definition cooperative :: "env \<Rightarrow> bool" where
  "cooperative e \<longleftrightarrow> (\<forall>n d. db_ok d \<longrightarrow> db_steps d (others_at e n d))"

text \<open>Progress: the same environment and a durable database some steps later.\<close>

definition progress :: "world \<Rightarrow> world \<Rightarrow> bool" where
  "progress w w' \<longleftrightarrow> the_env w' = the_env w \<and> db_steps (durable w) (durable w')"

lemma progress_refl [simp]: "progress w w"
  by (simp add: progress_def)

lemma progress_trans: "progress w w1 \<Longrightarrow> progress w1 w2 \<Longrightarrow> progress w w2"
  by (auto simp: progress_def)

lemma seen_steps: "cooperative (the_env w) \<Longrightarrow> db_ok (durable w) \<Longrightarrow> db_steps (durable w) (seen w)"
  by (simp add: cooperative_def seen_def)

lemma seen_ok: "cooperative (the_env w) \<Longrightarrow> db_ok (durable w) \<Longrightarrow> db_ok (seen w)"
  using seen_steps db_steps_ok by blast

lemma progress_ok: "progress w w' \<Longrightarrow> db_ok (durable w) \<Longrightarrow> db_ok (durable w')"
  by (auto simp: progress_def intro: db_steps_ok)

text \<open>A world fit to run a transaction in.\<close>

definition sound :: "world \<Rightarrow> bool" where
  "sound w \<longleftrightarrow> cooperative (the_env w) \<and> db_ok (durable w)"

lemma sound_progress: "sound w \<Longrightarrow> progress w w' \<Longrightarrow> sound w'"
  by (auto simp: sound_def progress_ok progress_def intro: db_steps_ok)

lemma others_progress: "sound w \<Longrightarrow> progress w (others_commit w)"
  using seen_steps by (simp add: sound_def progress_def durable_others)

lemma settled_progress:
  assumes "sound w" "settled w d w'" "db_steps (seen w) d"
  shows "progress w w'"
  using assms seen_steps unfolding sound_def settled_def progress_def quiet_def
  by (metis rtranclp_trans)

lemma aborted_progress: "sound w \<Longrightarrow> aborted w e w' \<Longrightarrow> progress w w'"
  using seen_steps unfolding sound_def aborted_def progress_def quiet_def by auto

lemma idle_progress: "idle w w' \<Longrightarrow> sound w \<Longrightarrow> progress w w'"
proof (induction rule: idle.induct)
  case (idle_refl w w')
  then show ?case by (simp add: progress_def quiet_def)
next
  case (idle_pass w w1 w2)
  then show ?case
    using settled_progress[of w1 "seen w1" w2] sound_progress by (blast intro: progress_trans)
qed

section \<open>What a caller knows of an attempt\<close>

definition known_attempt :: "database \<Rightarrow> string \<Rightarrow> string \<Rightarrow> int \<Rightarrow> bool" where
  "known_attempt d jid aid number \<longleftrightarrow>
     (case select_attempt d aid of
        None \<Rightarrow> False
      | Some a \<Rightarrow> attempt_job_id a = jid \<and> attempt_number a = number)"

lemma known_attempt_steps:
  assumes "known_attempt d jid aid number" "db_steps d d'" "db_ok d"
  shows "known_attempt d' jid aid number"
proof -
  from assms(1) obtain a where a: "select_attempt d aid = Some a" "attempt_job_id a = jid"
    "attempt_number a = number" by (auto simp: known_attempt_def split: option.splits)
  from db_le_select_attempt[OF db_steps_le[OF assms(2,3)] db_steps_ok[OF assms(2,3)] a(1)]
  obtain a' where "select_attempt d' aid = Some a'" "attempt_le a a'" by blast
  with a show ?thesis by (simp add: known_attempt_def attempt_le_def)
qed

lemma known_attempt_progress:
  "known_attempt (durable w) jid aid number \<Longrightarrow> progress w w' \<Longrightarrow> sound w \<Longrightarrow>
     known_attempt (durable w') jid aid number"
  by (auto simp: progress_def sound_def intro: known_attempt_steps)

section \<open>The guarantee of each transaction\<close>

lemma renew_steps:
  assumes "owned w jid aid token generation"
    "update_attempt aid (with_lease expires) (seen w) = Inr d'"
  shows "db_steps (seen w) d'"
  using assms by (auto elim!: owned_rows intro: step_renew)

lemma claim_steps:
  assumes "select_attempt d aid = Some a" "claimable j a t g x now"
    "update_attempt aid (with_claim token (fencing_generation a + 1) expires) d = Inr d'"
  shows "db_steps d d'"
  using assms by (auto simp: claimable_def intro: step_claim)

lemma owned_active:
  assumes "owned w jid aid token generation" "known_attempt (seen w) jid aid number"
    "select_job (seen w) jid = Some j" "select_attempt (seen w) aid = Some a"
  shows "active (seen w) jid aid j a" "attempt_number a = number"
  using assms by (auto elim!: owned_rows simp: active_def known_attempt_def)

lemma active_frame:
  "active d jid aid j a \<Longrightarrow> jobs d' = jobs d \<Longrightarrow> submission_attempts d' = submission_attempts d \<Longrightarrow>
     active d' jid aid j a"
  by (simp add: active_def select_job_def select_attempt_def)

lemma gate_steps: "db_steps d (gate_after w delay d)"
  unfolding gate_after_def by (rule r_into_rtranclp, rule step_gate)

lemma gate_frame [simp]:
  "jobs (gate_after w delay d) = jobs d"
  "submission_attempts (gate_after w delay d) = submission_attempts d"
  "attempt_observations (gate_after w delay d) = attempt_observations d"
  by (simp_all add: gate_after_def advance_gate_def)

lemma final_ending:
  assumes "disposition ev \<noteq> Retained" "evidence_ok ev"
  shows "ending a (final_change ev now delay) (final_state ev (attempt_number a))"
  using assms
  by (cases "disposition ev")
    (auto simp: final_change_def final_state_def evidence_ok_def
      intro: ending.intros)

lemma finalize_steps:
  assumes "active d jid aid j a" "number = attempt_number a"
    "disposition ev \<noteq> Retained" "evidence_ok ev"
    "insert_observation_row r (final_gate w ev delay d) = Inr d1"
    "update_attempt aid (final_change ev now delay) d1 = Inr d2"
    "update_job jid (with_job_state (final_state ev number) now') d2 = Inr d'"
  shows "db_steps d d'"
proof -
  have "db_steps d (final_gate w ev delay d)" by (simp add: final_gate_def gate_steps)
  moreover have "db_step (final_gate w ev delay d) d1" using assms(5) by (rule step_observe)
  moreover have "active d1 jid aid j a"
    by (rule active_frame[OF assms(1)])
      (simp_all add: insert_observation_rowD(1)[OF assms(5)] final_gate_def)
  then have "db_step d1 d'"
    using step_end[OF _ final_ending[OF assms(3,4)] assms(6)] assms(2,7) by simp
  ultimately show ?thesis by (meson rtranclp.rtrancl_into_rtrancl)
qed

lemma record_steps:
  assumes "active d jid aid j a"
    "disp = R_matched \<Longrightarrow> status \<in> {Some 200, Some 201} \<and> rid \<noteq> None"
    "update_attempt aid (record_change disp now status rid) d = Inr d1"
    "update_job jid (with_job_state (record_state disp) now') d1 = Inr d'"
  shows "db_steps d d'"
proof -
  have "ending a (record_change disp now status rid) (record_state disp)"
    using assms(2) by (cases disp) (auto simp: record_change_def record_state_def intro: ending.intros)
  from step_end[OF assms(1) this assms(3,4)] show ?thesis by blast
qed

lemma late_row:
  assumes "find_first actionable_row (unconsumed_late_rows d aid) = Some row"
  shows "row \<in> set (attempt_observations d)" "is_late row" "consumed_at row = None"
    "observed_attempt_id row = aid" "actionable_row row"
  using find_first_SomeD[OF assms] by (auto simp: unconsumed_late_rows_def)

lemma late_ending:
  assumes "actionable_row row"
  shows "ending a (late_change row now delay) (late_state row (attempt_number a))"
  using assms
  by (auto simp: late_change_def late_state_def actionable_row_def is_actionable_late_evidence_def
      intro: ending.intros)

lemma late_steps:
  assumes "active d jid aid j a" "find_first actionable_row (unconsumed_late_rows d aid) = Some row"
    "update_attempt aid (late_change row now delay)
       (late_gate w row delay (update_observation (observation_id row) (with_consumed now) d)) = Inr d2"
    "update_job jid (with_job_state (late_state row (attempt_number a)) now') d2 = Inr d'"
  shows "db_steps d d'"
proof -
  let ?d = "update_observation (observation_id row) (with_consumed now) d"
  note row = late_row[OF assms(2)]
  have "db_step d ?d" by (rule step_consume) (use row in simp_all)
  moreover have "db_steps ?d (late_gate w row delay ?d)" by (simp add: late_gate_def gate_steps)
  moreover have "active (late_gate w row delay ?d) jid aid j a"
    using assms(1) by (rule active_frame) (simp_all add: late_gate_def update_observation_def)
  then have "db_step (late_gate w row delay ?d) d'"
    using late_ending[OF row(5)] assms(3,4) by (rule step_end)
  ultimately show ?thesis by (meson converse_rtranclp_into_rtranclp rtranclp.rtrancl_into_rtrancl)
qed

lemma authorization_steps:
  assumes "authorization now expires d j number token eligible r d'" "select_job d (job_id j) = Some j"
    "startable d j number"
  shows "db_steps d d'"
  using assms by (auto elim!: authorizationE intro: step_start)

lemma routing_steps:
  assumes "routing now expires d j token r d'" "select_job d (job_id j) = Some j"
  shows "db_steps d d'"
  using assms(1)
proof (cases rule: routing.cases)
  case routing_pending
  with assms(2) show ?thesis by (auto intro: authorization_steps simp: startable_def)
next
  case (routing_scheduled l t ms i)
  with assms(2) show ?thesis by (auto intro: authorization_steps simp: startable_def)
qed simp_all

lemma admission_steps:
  assumes "admission now expires supplied key bytes token d r d'" "db_ok d"
  shows "db_steps d d'"
  using assms(1)
proof (cases rule: admission.cases)
  case (admission_created jid d1)
  have "db_step d d1" using admission_created(2) by (rule step_create)
  moreover have "keys_ok d1" using db_step_ok[OF \<open>db_step d d1\<close> assms(2)] by (rule db_okD)
  then have "select_job d1 jid = Some (new_job jid key bytes now)"
    using insert_job_rowD(1)[OF admission_created(2)] by (simp add: select_job_iff)
  then have "db_steps d1 d'"
    using admission_created(3) by (intro authorization_steps) (auto simp: startable_def)
  ultimately show ?thesis by (rule converse_rtranclp_into_rtranclp)
next
  case (admission_existing j)
  have "select_job d (job_id j) = Some j"
    using find_job_by_keyD[OF admission_existing(2)] db_okD(2)[OF assms(2)] by (simp add: select_job_iff)
  with admission_existing(4) show ?thesis by (rule routing_steps)
qed simp

end
