(* ===== verification/Contracts.thy ===== *)
theory Contracts
  imports Transactions Guarantee
begin

text \<open>
  The promises of the transactions as a caller relies on them: they move the database by steps
  of the state machine of \<open>Lifecycle\<close>, databases reached that way keep the bounds of ADR-006,
  finished work is final, one recovery wins, a key stays bound to its payload.
\<close>

section \<open>Every transaction is a sequence of steps\<close>

text \<open>
  \<open>moves p w\<close>: when \<open>p\<close> returns, its transaction is closed and the durable database some steps
  after the one it found; when it raises, nothing of it is durable.
\<close>

definition moves :: "'a prog \<Rightarrow> world \<Rightarrow> bool" where
  "moves p w \<longleftrightarrow>
     wp p (\<lambda>_ w'. open_tx w' = None \<and> db_steps (seen w) (durable w'))
       (\<lambda>e w'. durable w' \<in> {durable w, seen w}
          \<and> (e \<in> {PersistenceError, OperationalError} \<longrightarrow> open_tx w' = None)) w"

lemma observe_steps: "insert_observation_row r d = Inr d' \<Longrightarrow> db_steps d d'"
  by (rule r_into_rtranclp) (rule step_observe)

lemmas moves_defs = moves_def settled_def aborted_def

lemma renew_lease_moves:
  "open_tx w = None \<Longrightarrow> moves (renew_lease jid aid token generation lease) w"
  unfolding moves_def
  by (rule wp_renew_lease) (auto simp: moves_defs intro: renew_steps)

lemma claim_moves:
  "open_tx w = None \<Longrightarrow> moves (claim_expired_attempt jid aid t g x token lease) w"
  unfolding moves_def
  by (rule wp_claim_expired_attempt) (auto simp: moves_defs intro: claim_steps)

lemma append_observation_moves:
  "open_tx w = None \<Longrightarrow>
     moves (append_observation aid sid ordinal op generation cat cert status rid delay diag) w"
  unfolding moves_def
  by (rule wp_append_observation) (auto simp: moves_defs intro: observe_steps)

lemma append_late_observation_moves:
  "open_tx w = None \<Longrightarrow> moves (append_late_observation aid generation cat op status rid delay diag) w"
  unfolding moves_def
  by (rule wp_append_late_observation) (auto simp: moves_defs intro: observe_steps)

lemma advance_gate_moves:
  "open_tx w = None \<Longrightarrow> moves (advance_gate_for_reconciliation_rate_limit delay) w"
  unfolding moves_def
  by (rule wp_advance_gate) (auto simp: moves_defs intro: gate_steps)

lemma authorize_moves:
  "open_tx w = None \<Longrightarrow> moves (authorize_reconciliation_request jid aid token generation lease earliest) w"
  unfolding moves_def
  by (rule wp_authorize_reconciliation_request) (auto simp: moves_defs intro: renew_steps)

lemma record_moves:
  assumes "open_tx w = None" "known_attempt (seen w) jid aid number"
    "disp = R_matched \<Longrightarrow> status \<in> {Some 200, Some 201} \<and> rid \<noteq> None"
  shows "moves (record_reconciliation_result jid aid token generation disp status rid) w"
  unfolding moves_def
proof (rule wp_record_reconciliation_result[OF assms(1)])
  fix j a d1 d' w'
  assume own: "owned w jid aid token generation" "select_job (seen w) jid = Some j"
      "select_attempt (seen w) aid = Some a"
    and run: "update_attempt aid (record_change disp (now_text w) status rid) (seen w) = Inr d1"
      "update_job jid (with_job_state (record_state disp) (now_text w)) d1 = Inr d'"
      "settled w d' w'"
  from record_steps[OF owned_active(1)[OF own(1) assms(2) own(2,3)] assms(3) run(1,2)] run(3)
  show "open_tx w' = None \<and> db_steps (seen w) (durable w')" by (simp add: settled_def)
qed (simp_all add: moves_defs)

lemma consume_moves:
  assumes "open_tx w = None" "known_attempt (seen w) jid aid number"
  shows "moves (consume_late_observations jid aid token generation) w"
  unfolding moves_def
proof (rule wp_consume_late_observations[OF assms(1)])
  fix j a row delay d2 d' w'
  assume own: "owned w jid aid token generation" "select_job (seen w) jid = Some j"
      "select_attempt (seen w) aid = Some a"
    and run: "find_first actionable_row (unconsumed_late_rows (seen w) aid) = Some row"
      "update_attempt aid (late_change row (now_text w) delay)
         (late_gate w row delay
           (update_observation (observation_id row) (with_consumed (now_text w)) (seen w))) = Inr d2"
      "update_job jid (with_job_state (late_state row (attempt_number a)) (now_text w)) d2 = Inr d'"
      "settled w d' w'"
  from late_steps[OF owned_active(1)[OF own(1) assms(2) own(2,3)] run(1-3)] run(4)
  show "open_tx w' = None \<and> db_steps (seen w) (durable w')" by (simp add: settled_def)
qed (simp_all add: moves_defs)

lemma finalize_moves:
  assumes "open_tx w = None" "known_attempt (seen w) jid aid number" "evidence_ok ev"
  shows "moves (finalize_submission_attempt jid aid number token generation ev) w"
  unfolding moves_def
proof (rule wp_finalize_submission_attempt[OF assms(1)])
  fix j a parsed delay rdelay diag cat rid r d1 d2 d' w'
  assume own: "owned w jid aid token generation" "select_job (seen w) jid = Some j"
      "select_attempt (seen w) aid = Some a"
    and run: "disposition ev \<noteq> Retained"
      "insert_observation_row r (final_gate w ev delay (seen w)) = Inr d1"
      "update_attempt aid (final_change ev (now_text w) delay) d1 = Inr d2"
      "update_job jid (with_job_state (final_state ev number) (now_text w)) d2 = Inr d'"
      "settled w d' w'"
  note act = owned_active[OF own(1) assms(2) own(2,3)]
  have "db_steps (seen w) d'"
    by (rule finalize_steps[OF act(1) _ run(1) assms(3) run(2-4)]) (simp add: act(2))
  with run(5) show "open_tx w' = None \<and> db_steps (seen w) (durable w')" by (simp add: settled_def)
qed (auto simp: moves_defs intro: observe_steps)

text \<open>
  The pre-side-effect transaction tries again when its key is taken: \<open>idle w w1\<close> are the passes
  before the last, which changed nothing.
\<close>

lemma admission_moves:
  assumes "sound w" "open_tx w = None"
  shows "wp (run_pre_side_effect_transaction n supplied bytes token lease)
    (\<lambda>_ w'. \<exists>w1. idle w w1 \<and> open_tx w' = None \<and> db_steps (seen w1) (durable w'))
    (\<lambda>e w'. \<exists>w1. idle w w1 \<and> durable w' \<in> {durable w1, seen w1}) w"
proof (rule wp_run_pre_side_effect_transaction[OF idle_refl])
  fix w1 key r d' w'
  assume w1: "idle w w1" and run: "admission (now_text w1) (start_lease w1 lease) supplied key bytes token (seen w1) r d'" "settled w1 d' w'"
  have "sound w1" using sound_progress idle_progress w1 assms(1) by blast
  then have "db_steps (seen w1) d'" using run(1) seen_ok by (auto simp: sound_def intro: admission_steps)
  with w1 run(2) show "\<exists>w1. idle w w1 \<and> open_tx w' = None \<and> db_steps (seen w1) (durable w')"
    by (auto simp: settled_def)
qed (use assms(2) in \<open>auto simp: aborted_def\<close>)


text \<open>
  C6. Refinement: each of the nine transactions that work on an attempt, whatever it returns,
  moved the durable database by steps of the state machine of Jobs and attempts, committed
  together; whatever it raises, nothing of it is durable.  The pre-side-effect transaction does
  the same in its last pass, the passes before it changed nothing.
\<close>

theorem transactions_refine_the_lifecycle:
  assumes "sound w" "open_tx w = None" "known_attempt (seen w) jid aid number" "evidence_ok ev"
    "disp = R_matched \<longrightarrow> status \<in> {Some 200, Some 201} \<and> rid \<noteq> None"
  shows "moves (renew_lease jid aid token generation lease) w
    \<and> moves (claim_expired_attempt jid aid captured captured_generation captured_expiry token lease) w
    \<and> moves (finalize_submission_attempt jid aid number token generation ev) w
    \<and> moves (authorize_reconciliation_request jid aid token generation lease earliest) w
    \<and> moves (advance_gate_for_reconciliation_rate_limit delay) w
    \<and> moves (record_reconciliation_result jid aid token generation disp status rid) w
    \<and> moves (append_observation aid sid ordinal op generation cat cert hs rr ms diag) w
    \<and> moves (append_late_observation aid generation lcat op hs rr ms diag) w
    \<and> moves (consume_late_observations jid aid token generation) w
    \<and> wp (run_pre_side_effect_transaction n supplied bytes token lease)
      (\<lambda>_ w'. \<exists>w1. idle w w1 \<and> open_tx w' = None \<and> db_steps (seen w1) (durable w'))
      (\<lambda>e w'. \<exists>w1. idle w w1 \<and> durable w' \<in> {durable w1, seen w1}) w"
  using assms(5)
  by (intro conjI renew_lease_moves claim_moves finalize_moves[OF _ assms(3,4)] authorize_moves
      advance_gate_moves record_moves[OF _ assms(3)] append_observation_moves
      append_late_observation_moves consume_moves[OF _ assms(3)] admission_moves[OF assms(1)] assms(2))
    simp_all

lemma witness_transactions_refine_the_lifecycle:
  "moves (finalize_submission_attempt ''j1'' ''a1'' 1 ''owner'' 1 not_sent_sample)
     (initial_world accepting_env (sample_db ''9''))"
proof -
  let ?w = "initial_world accepting_env (sample_db ''9'')"
  have "sound ?w" "open_tx ?w = None" "known_attempt (seen ?w) ''j1'' ''a1'' 1"
    "evidence_ok not_sent_sample" "R_conflict = R_matched \<longrightarrow> None \<in> {Some 200, Some 201} \<and> None \<noteq> None"
    using sample_db_ok
    by (simp_all add: sound_def cooperative_def initial_world_def accepting_env_def sample_env_def
        known_attempt_def seen_def sample_db_def select_attempt_def sample_attempt_def
        not_sent_sample_def evidence_ok_def)
  from transactions_refine_the_lifecycle[OF this, THEN conjunct2, THEN conjunct2, THEN conjunct1]
  show ?thesis .
qed

section \<open>What every reachable database satisfies\<close>

lemma terminal_attempts_step:
  assumes "db_step d d'" "db_ok d" "j \<in> set (jobs d)" "terminal_state (jstate j)"
  shows "attempts_of d' (job_id j) = attempts_of d (job_id j)"
proof -
  note keys = db_okD(2)[OF assms(2)]
  have keep: "attempts_of d' (job_id j) = attempts_of d (job_id j)"
    if "select_attempt d aid = Some a" "astate a = A_STARTED" "\<And>b. attempt_job_id (f b) = attempt_job_id b"
      "submission_attempts d' = map (\<lambda>r. if attempt_id r = aid then f r else r) (submission_attempts d)"
    for aid a f
  proof -
    have "job_id j \<noteq> attempt_job_id a"
    proof
      assume "job_id j = attempt_job_id a"
      with select_attemptD[OF that(1)] that(2) have "jstate j = SUBMITTING"
        by (intro started_in_submitting(1)[OF assms(2,3)]) simp_all
      with assms(4) show False by (simp add: terminal_state_def)
    qed
    from attempts_of_update_other[OF keys that(1,3) this] that(4) show ?thesis by (simp add: attempts_of_def)
  qed
  from assms(1) show ?thesis
  proof (cases rule: db_step.cases)
    case (step_create jid key bytes now)
    from insert_job_rowD(1)[OF this] show ?thesis by (simp add: attempts_of_def)
  next
    case (step_start jid j' number aid now token expires d1)
    have "jid \<noteq> job_id j"
    proof
      assume "jid = job_id j"
      with step_start(1) assms(3) keys have "j' = j" by (metis option.inject select_job_iff)
      with step_start(2) assms(4) show False by (auto simp: startable_def terminal_state_def)
    qed
    with insert_attempt_rowD(1)[OF step_start(3)] update_jobD(1)[OF step_start(4)]
    show ?thesis by (simp add: attempts_of_def)
  next
    case (step_renew aid a expires)
    show ?thesis
      by (rule keep[OF step_renew(1,2), of "with_lease expires"]) (simp_all add: update_attemptD(1)[OF step_renew(3)])
  next
    case (step_claim aid a token expires)
    show ?thesis
      by (rule keep[OF step_claim(1,2), of "with_claim token (fencing_generation a + 1) expires"]) (simp_all add: update_attemptD(1)[OF step_claim(3)])
  next
    case (step_end jid aid j' a change s d1 now)
    have a: "select_attempt d aid = Some a" "astate a = A_STARTED" using step_end(1) by (simp_all add: active_def)
    show ?thesis
      by (rule keep[OF a, of change])
        (simp_all add: ending_keeps[OF step_end(2)] update_attemptD(1)[OF step_end(3)]
          update_jobD(1)[OF step_end(4)])
  next
    case (step_observe r)
    from insert_observation_rowD(1)[OF this] show ?thesis by (simp add: attempts_of_def)
  next
    case (step_consume r now)
    then show ?thesis by (simp add: attempts_of_def update_observation_def)
  next
    case (step_gate candidate now)
    then show ?thesis by (simp add: attempts_of_def advance_gate_def)
  qed
qed

lemma terminal_job_step:
  assumes "db_step d d'" "db_ok d" "j \<in> set (jobs d)" "terminal_state (jstate j)"
  shows "j \<in> set (jobs d')"
  using db_step_le[OF assms(1,2)] assms(3,4) extends_member[of job_le "jobs d" "jobs d'" j]
  by (auto simp: db_le_def job_le_def)

text \<open>
  C11. Finished work is final: once a Job succeeded, failed permanently or became ambiguous, no
  sequence of transactions of any number of processes changes its row, adds an attempt to it or
  changes one of its attempts.
\<close>

theorem finished_work_is_final:
  assumes "db_steps d d'" "db_ok d" "j \<in> set (jobs d)" "jstate j \<in> {SUCCEEDED, FAILED_PERMANENT, AMBIGUOUS}"
  shows "j \<in> set (jobs d') \<and> attempts_of d' (job_id j) = attempts_of d (job_id j)"
  using assms(1)
proof (induction rule: rtranclp_induct)
  case base
  show ?case using assms(3) by simp
next
  case (step d1 d2)
  note ok = db_steps_ok[OF step(1) assms(2)] and terminal = assms(4)[folded terminal_state_def]
  from step.IH terminal_job_step[OF step(2) ok _ terminal] terminal_attempts_step[OF step(2) ok _ terminal]
  show ?case by simp
qed


lemma witness_finished_work_is_final:
  "sample_job SUCCEEDED \<in> set (jobs (advance_gate ''5'' ''4'' completed_db))
   \<and> attempts_of (advance_gate ''5'' ''4'' completed_db) ''j1'' = attempts_of completed_db ''j1''"
proof -
  have "db_steps completed_db (advance_gate ''5'' ''4'' completed_db)"
    by (rule r_into_rtranclp) (rule step_gate)
  from finished_work_is_final[OF this completed_db_ok, of "sample_job SUCCEEDED"]
  show ?thesis by (simp add: completed_db_def sample_job_def)
qed

text \<open>
  C8. The bounds of ADR-006 in every database the transactions can reach: the attempts of a Job
  are numbered from one without gaps and are at most three, all but the last failed retryably,
  at most one is active and it is the last one of a \<open>SUBMITTING\<close> Job, and a Job that succeeded has
  an attempt with a 200 or 201 and a remote request id.
\<close>

theorem lifecycle_is_bounded:
  assumes "db_steps empty_database d" "j \<in> set (jobs d)"
  shows "map attempt_number (attempts_of d (job_id j)) = [1..int (length (attempts_of d (job_id j)))]
    \<and> length (attempts_of d (job_id j)) \<le> 3
    \<and> (\<forall>a\<in>set (butlast (attempts_of d (job_id j))). astate a = A_RETRYABLE_FAILURE)
    \<and> (\<forall>a\<in>set (attempts_of d (job_id j)). astate a = A_STARTED \<longrightarrow>
         jstate j = SUBMITTING \<and> a = last (attempts_of d (job_id j)))
    \<and> (jstate j = SUCCEEDED \<longrightarrow> (\<exists>a\<in>set (attempts_of d (job_id j)).
         astate a = A_SUCCEEDED \<and> http_status a \<in> {Some 200, Some 201} \<and> remote_request_id a \<noteq> None))"
proof -
  have ok: "db_ok d" using db_steps_ok[OF assms(1) empty_database_ok] .
  note shape = job_shape_of[OF ok assms(2)]
  have "last (attempts_of d (job_id j)) \<in> set (attempts_of d (job_id j))" if "jstate j = SUCCEEDED"
    using shape that by (simp add: job_shape_def last_fits_def)
  with shape have "jstate j = SUCCEEDED \<longrightarrow> (\<exists>a\<in>set (attempts_of d (job_id j)).
      astate a = A_SUCCEEDED \<and> http_status a \<in> {Some 200, Some 201} \<and> remote_request_id a \<noteq> None)"
    by (auto simp: job_shape_def last_fits_def success_evidence_ok_def)
  moreover have "\<forall>a\<in>set (attempts_of d (job_id j)). astate a = A_STARTED \<longrightarrow>
      jstate j = SUBMITTING \<and> a = last (attempts_of d (job_id j))"
    using started_in_submitting[OF ok assms(2)] by (auto simp: attempts_of_job)
  ultimately show ?thesis using shape by (simp add: job_shape_def)
qed

lemma witness_lifecycle_is_bounded:
  "length (attempts_of (empty_database\<lparr>jobs := [new_job ''j1'' ''k1'' ''{}'' ''0'']\<rparr>) ''j1'') \<le> 3"
proof -
  let ?d = "empty_database\<lparr>jobs := [new_job ''j1'' ''k1'' ''{}'' ''0'']\<rparr>"
  have "insert_job_row (new_job ''j1'' ''k1'' ''{}'' ''0'') empty_database = Inr ?d"
    by (simp add: insert_job_row_def empty_database_def job_checks_def new_job_def)
  then have "db_steps empty_database ?d" by (intro r_into_rtranclp step_create)
  from lifecycle_is_bounded[OF this, of "new_job ''j1'' ''k1'' ''{}'' ''0''"] show ?thesis by simp
qed

section \<open>Claims\<close>

lemma select_updated_attempt:
  assumes "update_attempt aid f d = Inr d'" "select_attempt d aid = Some a"
    "\<And>b. attempt_id (f b) = attempt_id b"
  shows "select_attempt d' aid = Some (f a)"
  using assms(2) select_attemptD[OF assms(2)]
  unfolding select_attempt_def update_attemptD(1)[OF assms(1)]
  by (simp add: find_first_map_update assms(3))

lemma rejected_when_changed:
  assumes "open_tx w = None" "\<And>a. select_attempt (seen w) aid = Some a \<Longrightarrow> fencing_generation a \<noteq> g"
  shows "wp (claim_expired_attempt jid aid t g x token lease)
    (\<lambda>r w'. r = ClaimRejected \<and> settled w (seen w) w') (aborted w) w"
  by (rule wp_claim_expired_attempt[OF assms(1)]) (use assms(2) in \<open>auto simp: claimable_def\<close>)

text \<open>
  C9. A recovery is exclusive: when a claim of an expired lease succeeded, no claim that captured
  the same generation succeeds any more, whoever makes it and whatever happened in between; it
  is rejected and changes nothing.
\<close>

theorem one_recovery_wins:
  assumes "db_ok (seen w)" "open_tx w = None"
    "claim_expired_attempt jid aid t g x token lease w = (Inr (ClaimSucceeded j a), w1)"
    "db_steps (durable w1) (seen w2)" "open_tx w2 = None"
  shows "wp (claim_expired_attempt jid' aid t' g x' token' lease')
    (\<lambda>r w'. r = ClaimRejected \<and> settled w2 (seen w2) w') (aborted w2) w2"
proof -
  let ?post = "\<lambda>r w'. case r of ClaimRejected \<Rightarrow> True
    | ClaimSucceeded _ _ \<Rightarrow> db_ok (durable w') \<and> (\<exists>a'. select_attempt (durable w') aid = Some a' \<and> g < fencing_generation a')"
  have "wp (claim_expired_attempt jid aid t g x token lease) ?post (\<lambda>_ _. True) w"
  proof (rule wp_claim_expired_attempt[OF assms(2)])
    fix j a d' w'
    assume sel: "select_attempt (seen w) aid = Some a" and cl: "claimable j a t g x (now_text w)"
      and up: "update_attempt aid (with_claim token (fencing_generation a + 1) (lease_until w lease))
         (seen w) = Inr d'" and w': "settled w d' w'"
    have "db_ok d'" using claim_steps[OF sel cl up] assms(1) by (rule db_steps_ok)
    moreover have "select_attempt d' aid = Some (with_claim token (fencing_generation a + 1) (lease_until w lease) a)"
      by (rule select_updated_attempt[OF up sel]) simp
    ultimately show "?post (ClaimSucceeded j (with_claim token (fencing_generation a + 1) (lease_until w lease) a)) w'"
      using w' cl by (simp add: settled_def claimable_def with_claim_def)
  qed simp_all
  from wp_return[OF this assms(3)] obtain a' where a': "db_ok (durable w1)"
    "select_attempt (durable w1) aid = Some a'" "g < fencing_generation a'" by auto
  from db_le_select_attempt[OF db_steps_le[OF assms(4) a'(1)] db_steps_ok[OF assms(4) a'(1)] a'(2)]
  obtain a2 where "select_attempt (seen w2) aid = Some a2" "attempt_le a' a2" .
  with a'(3) show ?thesis by (intro rejected_when_changed[OF assms(5)]) (auto simp: attempt_le_def)
qed


lemma sample_claim:
  "case claim_expired_attempt ''j1'' ''a1'' (Some ''owner'') 1 (Some ''0'') ''rescuer'' 60
      (initial_world accepting_env (sample_db ''0'')) of
     (Inr (ClaimSucceeded j a), w1) \<Rightarrow> True | _ \<Rightarrow> False"
  by code_simp

lemma witness_one_recovery_wins:
  "case claim_expired_attempt ''j1'' ''a1'' (Some ''owner'') 1 (Some ''0'') ''rescuer'' 60
      (initial_world accepting_env (sample_db ''0'')) of
     (Inr (ClaimSucceeded j a), w1) \<Rightarrow>
       wp (claim_expired_attempt ''j1'' ''a1'' (Some ''owner'') 1 (Some ''0'') ''late'' 60)
         (\<lambda>r w'. r = ClaimRejected) (\<lambda>_ _. True) (initial_world accepting_env (durable w1))
   | _ \<Rightarrow> False"
proof -
  let ?w = "initial_world accepting_env (sample_db ''0'')"
  have seen: "seen (initial_world accepting_env d) = d" "open_tx (initial_world accepting_env d) = None" for d
    by (simp_all add: seen_def initial_world_def accepting_env_def sample_env_def)
  from sample_claim obtain j a w1 where
    c: "claim_expired_attempt ''j1'' ''a1'' (Some ''owner'') 1 (Some ''0'') ''rescuer'' 60 ?w
      = (Inr (ClaimSucceeded j a), w1)"
    by (auto split: prod.splits sum.splits claim_result.splits)
  let ?w2 = "initial_world accepting_env (durable w1)"
    and ?late = "claim_expired_attempt ''j1'' ''a1'' (Some ''owner'') 1 (Some ''0'') ''late'' 60"
  have "db_ok (seen ?w)" by (simp add: seen sample_db_ok)
  then have "wp ?late (\<lambda>r w'. r = ClaimRejected \<and> settled ?w2 (seen ?w2) w') (aborted ?w2) ?w2"
    by (rule one_recovery_wins[OF _ seen(2) c]) (simp_all add: seen)
  then have "wp ?late (\<lambda>r w'. r = ClaimRejected) (\<lambda>_ _. True) ?w2" by (rule wp_mono) simp_all
  with c show ?thesis by simp
qed

end
