(* ===== verification/Bindings.thy ===== *)
theory Bindings
  imports Contracts
begin

text \<open>
  Keys and payloads: a key is bound to one payload for ever, and what the pre-side-effect
  transaction answers to a key that is already bound or to a payload the schema does not accept.
\<close>

section \<open>What an admission tells\<close>

definition bindings :: "database \<Rightarrow> (string \<times> payload) list" where
  "bindings d = map (\<lambda>j. (idempotency_key j, payload_canonical j)) (jobs d)"

text \<open>\<open>key\<close> is bound to a Job with this payload.\<close>

definition bound :: "string \<Rightarrow> payload \<Rightarrow> database \<Rightarrow> bool" where
  "bound key bytes d \<longleftrightarrow> (key, bytes) \<in> set (bindings d)"

lemma bindings_simps [simp]:
  "bindings (d\<lparr>submission_attempts := x\<rparr>) = bindings d"
  "bindings (d\<lparr>jobs := xs @ [j]\<rparr>) = bindings (d\<lparr>jobs := xs\<rparr>) @ [(idempotency_key j, payload_canonical j)]"
  "bindings (d\<lparr>jobs := jobs d\<rparr>) = bindings d"
  by (simp_all add: bindings_def)

lemma bindings_update_job: "update_job jid (with_job_state s now) d = Inr d' \<Longrightarrow> bindings d' = bindings d"
  by (auto simp: bindings_def dest!: update_jobD(1))

lemma bindings_authorization:
  "authorization now expires d j number token eligible r d' \<Longrightarrow> bindings d' = bindings d"
  by (erule authorizationE) (auto simp: bindings_update_job dest!: insert_attempt_rowD(1))

lemma bound_steps:
  assumes "bound key bytes d" "db_steps d d'" "db_ok d"
  shows "bound key bytes d'"
proof -
  from assms(1) obtain j where j: "j \<in> set (jobs d)" "idempotency_key j = key" "payload_canonical j = bytes"
    by (auto simp: bound_def bindings_def)
  have "extends job_le (jobs d) (jobs d')" using db_steps_le[OF assms(2,3)] by (simp add: db_le_def)
  from extends_member[OF this j(1)] obtain j' where "j' \<in> set (jobs d')" "job_le j j'" .
  with j show ?thesis by (auto simp: bound_def bindings_def job_le_def intro!: image_eqI[of _ _ j'])
qed

lemma admission_bound:
  assumes "admission now expires supplied key bytes token d r d'" "db_ok d" "r \<noteq> IdempotencyConflict"
  shows "bound key bytes d'"
proof (cases "find_job_by_key d key")
  case None
  with assms(1) obtain jid d1 where "insert_job_row (new_job jid key bytes now) d = Inr d1"
    "authorization now expires d1 (new_job jid key bytes now) 1 token None r d'"
    by (auto elim: admissionE)
  then show ?thesis
    by (auto simp: bound_def bindings_authorization new_job_def dest!: insert_job_rowD(1))
next
  case (Some j)
  with assms(1,3) have "payload_canonical j = bytes" by (auto elim: admissionE)
  then have "bound key bytes d" using find_job_by_keyD[OF Some] by (auto simp: bound_def bindings_def)
  then show ?thesis using admission_steps[OF assms(1,2)] assms(2) by (rule bound_steps)
qed

lemma admission_conflict:
  assumes "admission now expires supplied key bytes token d IdempotencyConflict d'" "db_ok d"
  shows "supplied \<noteq> None" "\<not> bound key bytes d"
proof -
  from assms(1) obtain j where j: "supplied \<noteq> None" "find_job_by_key d key = Some j"
    "payload_canonical j \<noteq> bytes"
    by (auto elim!: admissionE authorizationE routingE)
  show "supplied \<noteq> None" by (rule j(1))
  show "\<not> bound key bytes d"
    using j find_job_by_keyD[OF j(2)] db_okD(2)[OF assms(2)] key_unique[of idempotency_key "jobs d"]
    by (auto simp: bound_def bindings_def keys_ok_def)
qed

lemma admission_deferred: "admission now expires supplied key bytes token d (NotYetEligible j t) d' \<Longrightarrow> idempotency_key j = key"
  by (auto elim!: admissionE authorizationE routingE simp: new_job_def dest: find_job_by_keyD)

section \<open>What the pre-side-effect transaction answers\<close>

text \<open>
  C7. Refinement: whatever the pre-side-effect transaction returns is what the specification
  \<open>admission\<close> of routing and authorization prescribes for the database of its last pass, for the
  time that is the first reading of the clock in this pass (against it gates, eligibility and the
  liveness of a lease are decided, with it new rows are stamped) and for a lease of \<open>lease\<close>
  seconds from the second reading, and exactly the database it prescribes is committed; the
  passes before changed nothing.  When it raises, nothing of it is durable.
\<close>

theorem admission_is_refined:
  assumes "open_tx w = None"
  shows "wp (run_pre_side_effect_transaction n supplied bytes token lease)
    (\<lambda>r w'. \<exists>w1 key d'. idle w w1 \<and> (supplied \<noteq> None \<longrightarrow> supplied = Some key)
       \<and> clock_n w \<le> clock_n w1 \<and> clock_n w' = clock_n w1 + clock_reads r
       \<and> admission (now_text w1) (start_lease w1 lease) supplied key bytes token (seen w1) r d'
       \<and> settled w1 d' w')
    (\<lambda>e w'. e = Out_of_fuel \<and> idle w w' \<or> (\<exists>w1. idle w w1 \<and> aborted w1 e w')) w"
proof (rule wp_run_pre_side_effect_transaction[OF idle_refl])
  fix w1 key r d' w'
  assume "idle w w1" "supplied \<noteq> None \<Longrightarrow> supplied = Some key"
    "admission (now_text w1) (start_lease w1 lease) supplied key bytes token (seen w1) r d'"
    "settled w1 d' w'" "clock_n w' = clock_n w1 + clock_reads r"
  then show "\<exists>w1 key d'. idle w w1 \<and> (supplied \<noteq> None \<longrightarrow> supplied = Some key)
       \<and> clock_n w \<le> clock_n w1 \<and> clock_n w' = clock_n w1 + clock_reads r
       \<and> admission (now_text w1) (start_lease w1 lease) supplied key bytes token (seen w1) r d'
       \<and> settled w1 d' w'"
    by (intro exI[of _ w1] exI[of _ key] exI[of _ d'] conjI) (auto dest: idle_clock)
qed (use assms in auto)

lemma sample_sound: "sound (initial_world accepting_env (sample_db expires))"
  "open_tx (initial_world accepting_env d) = None"
  by (simp_all add: sound_def cooperative_def initial_world_def accepting_env_def sample_env_def sample_db_ok)

lemma sample_admission:
  "case run_pre_side_effect_transaction 3 (Some ''k1'') ''{}'' ''t'' 60
      (initial_world accepting_env (sample_db ''9'')) of
     (Inr (JobInProgress j), w') \<Rightarrow> True | _ \<Rightarrow> False"
  by code_simp

lemma witness_admission_is_refined:
  "\<exists>j w1 d'. admission (now_text w1) (start_lease w1 60) (Some ''k1'') ''k1'' ''{}'' ''t''
     (seen w1) (JobInProgress j) d' \<and> the_env w1 = accepting_env"
proof -
  let ?w = "initial_world accepting_env (sample_db ''9'')"
  from sample_admission obtain j w' where
    "run_pre_side_effect_transaction 3 (Some ''k1'') ''{}'' ''t'' 60 ?w = (Inr (JobInProgress j), w')"
    by (auto split: prod.splits sum.splits pre_side_effect_result.splits)
  from wp_return[OF admission_is_refined[OF sample_sound(2)] this] obtain w1 d' where
    "idle ?w w1" "admission (now_text w1) (start_lease w1 60) (Some ''k1'') ''k1'' ''{}'' ''t''
       (seen w1) (JobInProgress j) d'" by auto
  moreover from this(1) have "the_env w1 = accepting_env"
    using idle_quiet[of ?w w1] by (simp add: quiet_def initial_world_def)
  ultimately show ?thesis by (intro exI[of _ j] exI[of _ w1] exI[of _ d'] conjI)
qed

lemma bound_seen:
  assumes "sound w" "bound key other (durable w)" "idle w w1"
  shows "db_ok (seen w1) \<and> bound key other (seen w1)"
proof -
  from idle_progress[OF assms(3,1)] have p: "progress w w1" .
  then have s: "sound w1" using sound_progress assms(1) by blast
  have "db_steps (durable w) (seen w1)"
    using p s seen_steps[of w1] by (auto simp: progress_def sound_def)
  with assms(1,2) show ?thesis by (auto simp: sound_def intro: bound_steps db_steps_ok)
qed

lemma bound_unique: "db_ok d \<Longrightarrow> bound key b1 d \<Longrightarrow> bound key b2 d \<Longrightarrow> b1 = b2"
  using key_unique[of idempotency_key "jobs d"]
  by (auto simp: bound_def bindings_def db_ok_def keys_ok_def)

text \<open>
  C25. A supplied key that is bound to another payload is never given a new Job or attempt: the
  only result is the conflict, and the database stays what the transaction found.
\<close>

theorem bound_key_is_refused:
  assumes "sound w" "open_tx w = None" "bound key other (durable w)" "other \<noteq> bytes"
  shows "wp (run_pre_side_effect_transaction n (Some key) bytes token lease)
    (\<lambda>r w'. r = IdempotencyConflict \<and> (\<exists>w1. idle w w1 \<and> settled w1 (seen w1) w'))
    (\<lambda>e w'. e = Out_of_fuel \<and> idle w w' \<or> (\<exists>w1. idle w w1 \<and> aborted w1 e w')) w"
proof (rule wp_run_pre_side_effect_transaction[OF idle_refl])
  fix w1 k r d' w'
  assume w1: "idle w w1" and k: "Some key \<noteq> None \<Longrightarrow> Some key = Some k"
    and run: "admission (now_text w1) (start_lease w1 lease) (Some key) k bytes token (seen w1) r d'" "settled w1 d' w'"
  from bound_seen[OF assms(1,3) w1] have ok: "db_ok (seen w1)" "bound key other (seen w1)" by simp_all
  have conflict: "r = IdempotencyConflict"
  proof (rule ccontr)
    assume "r \<noteq> IdempotencyConflict"
    with run(1) ok(1) k have "bound key bytes d'" by (auto dest: admission_bound)
    moreover have "db_steps (seen w1) d'" using run(1) ok(1) by (rule admission_steps)
    then have "db_ok d'" "bound key other d'" using ok db_steps_ok bound_steps by blast+
    ultimately show False using bound_unique assms(4) by blast
  qed
  then have "d' = seen w1" using run(1) by (auto elim!: admissionE authorizationE routingE)
  with w1 run(2) conflict show "r = IdempotencyConflict \<and> (\<exists>w1. idle w w1 \<and> settled w1 (seen w1) w')"
    by blast
qed (use assms(2) in auto)


lemma witness_bound_key_is_refused:
  "wp (run_pre_side_effect_transaction 3 (Some ''k1'') ''[]'' ''t'' 60)
     (\<lambda>r w'. r = IdempotencyConflict) (\<lambda>_ _. True) (initial_world accepting_env (sample_db ''9''))"
proof -
  have "bound ''k1'' ''{}'' (durable (initial_world accepting_env (sample_db ''9'')))"
    by (simp add: bound_def bindings_def initial_world_def sample_db_def sample_job_def)
  from bound_key_is_refused[OF sample_sound this, of "''[]''" 3 "''t''" 60, simplified]
  show ?thesis by (rule wp_mono) simp_all
qed

section \<open>The loops around the inserts\<close>

lemma wp_insert_job_Suc:
  "open_tx w = Some d \<Longrightarrow> fault_at (the_env w) = (\<lambda>_. Ok_stmt) \<Longrightarrow>
     wp (insert_job (Suc n) r) Q E w =
       (case insert_job_row r d of
          Inl v \<Rightarrow>
            if mentions_job_id v
            then wp (insert_job n (r\<lparr>job_id := id_at (the_env w) (id_n w)\<rparr>)) Q E
                   ((next_stmt w)\<lparr>id_n := Suc (id_n w)\<rparr>)
            else E (IntegrityError v) (next_stmt w)
        | Inr d' \<Rightarrow> Q r ((next_stmt w)\<lparr>open_tx := Some d'\<rparr>))"
  by (simp add: wp_simps current_db_def stmt_fault_def Let_def split: sum.split)

text \<open>
  C37. Identifier collisions only cost retries: an \<open>INSERT\<close> of a Job whose identifier is taken is
  repeated with the next generated identifiers, and it ends with the row inserted as soon as one
  of them is free, in at most one attempt per identifier drawn.
\<close>

theorem insert_job_ends:
  assumes "open_tx w = Some d" "fault_at (the_env w) = (\<lambda>_. Ok_stmt)" "job_checks r"
    "idempotency_key r \<notin> set (map idempotency_key (jobs d))" "k < n"
    "k = 0 \<and> job_id r \<notin> set (map job_id (jobs d))
     \<or> 0 < k \<and> id_at (the_env w) (id_n w + k - 1) \<notin> set (map job_id (jobs d))"
  shows "wp (insert_job n r)
    (\<lambda>r' w'. r' = r\<lparr>job_id := job_id r'\<rparr> \<and> insert_job_row r' d = Inr (d\<lparr>jobs := jobs d @ [r']\<rparr>)
       \<and> open_tx w' = Some (d\<lparr>jobs := jobs d @ [r']\<rparr>))
    (\<lambda>_ _. False) w"
  using assms
proof (induction n arbitrary: r w k)
  case 0
  then show ?case by simp
next
  case (Suc n)
  show ?case
  proof (cases "job_id r \<in> set (map job_id (jobs d))")
    case False
    with Suc.prems show ?thesis
      by (simp add: wp_insert_job_Suc insert_job_row_def del: insert_job.simps)
  next
    case True
    let ?r = "r\<lparr>job_id := id_at (the_env w) (id_n w)\<rparr>" and ?w = "(next_stmt w)\<lparr>id_n := Suc (id_n w)\<rparr>"
    have row: "insert_job_row r d = Inl Unique_jobs_job_id"
      using True Suc.prems(3,4) by (auto simp: insert_job_row_def)
    from True Suc.prems(6) obtain m where k: "k = Suc m" by (cases k) auto
    have free: "m = 0 \<and> job_id ?r \<notin> set (map job_id (jobs d))
        \<or> 0 < m \<and> id_at (the_env ?w) (id_n ?w + m - 1) \<notin> set (map job_id (jobs d))"
      using Suc.prems(6) k by (cases m) auto
    have "wp (insert_job n ?r)
      (\<lambda>r' w'. r' = ?r\<lparr>job_id := job_id r'\<rparr> \<and> insert_job_row r' d = Inr (d\<lparr>jobs := jobs d @ [r']\<rparr>)
         \<and> open_tx w' = Some (d\<lparr>jobs := jobs d @ [r']\<rparr>))
      (\<lambda>_ _. False) ?w"
      by (rule Suc.IH[OF _ _ _ _ _ free]) (use Suc.prems(1-5) k in \<open>simp_all add: job_checks_def\<close>)
    with row Suc.prems(1,2) show ?thesis
      by (simp add: wp_insert_job_Suc mentions_job_id_def del: insert_job.simps)
  qed
qed

lemma witness_insert_job_ends:
  "wp (insert_job 2 (new_job ''j1'' ''k2'' ''{}'' ''0''))
     (\<lambda>r' w'. job_id r' \<noteq> ''j1'' \<and> open_tx w' \<noteq> None) (\<lambda>_ _. False)
     ((initial_world accepting_env (sample_db ''9''))\<lparr>open_tx := Some (sample_db ''9'')\<rparr>)"
proof -
  let ?w = "(initial_world accepting_env (sample_db ''9''))\<lparr>open_tx := Some (sample_db ''9'')\<rparr>"
  have "wp (insert_job 2 (new_job ''j1'' ''k2'' ''{}'' ''0''))
    (\<lambda>r' w'. r' = (new_job ''j1'' ''k2'' ''{}'' ''0'')\<lparr>job_id := job_id r'\<rparr>
       \<and> insert_job_row r' (sample_db ''9'') = Inr ((sample_db ''9'')\<lparr>jobs := jobs (sample_db ''9'') @ [r']\<rparr>)
       \<and> open_tx w' = Some ((sample_db ''9'')\<lparr>jobs := jobs (sample_db ''9'') @ [r']\<rparr>))
    (\<lambda>_ _. False) ?w"
    by (rule insert_job_ends[where k = 1])
      (simp_all add: initial_world_def accepting_env_def sample_env_def sample_db_def sample_job_def
        new_job_def job_checks_def)
  then show ?thesis
    by (rule wp_mono) (auto simp: insert_job_row_def sample_db_def sample_job_def split: if_splits)
qed

text \<open>
  C36. A payload over the schema's limit of 1 MiB is never admitted under a generated key: the
  \<open>INSERT\<close> violates the CHECK constraint, \<open>except sqlite3.IntegrityError\<close> takes that for a taken
  key and tries the next one, so that no number of passes returns or raises.
\<close>

theorem oversized_payload_never_returns:
  assumes "open_tx w = None" "fault_at (the_env w) = (\<lambda>_. Ok_stmt)" "1048576 < length bytes"
  shows "fst (run_pre_side_effect_transaction n None bytes token lease w) = Inl Out_of_fuel"
proof -
  have insert: "wp (insert_job m (new_job jid key bytes now)) (\<lambda>_ _. False)
      (\<lambda>e w'. e = Out_of_fuel \<or> e = IntegrityError Check_failed \<and> w' = next_stmt w1) w1"
    if "open_tx w1 = Some d" "fault_at (the_env w1) = (\<lambda>_. Ok_stmt)" for m jid key now w1 d
    using that assms(3) by (cases m)
      (simp_all add: wp_insert_job_Suc wp_raise insert_job_row_def job_checks_def new_job_def mentions_job_id_def
        del: insert_job.simps(2))
  have pass: "wp (pre_side_effect_pass None key bytes token lease)
      (\<lambda>r w'. r = None \<and> open_tx w' = None \<and> fault_at (the_env w') = (\<lambda>_. Ok_stmt))
      (\<lambda>e _. e = Out_of_fuel) w1"
    if "open_tx w1 = Some d" "fault_at (the_env w1) = (\<lambda>_. Ok_stmt)" for key w1 d
    using that
    by (auto simp: pre_side_effect_pass_def create_job_def formatted_now_def wp_simps stmt_fault_def Let_def
        split: option.split intro!: wp_mono[OF insert])
  have "wp (run_pre_side_effect_transaction n None bytes token lease) (\<lambda>_ _. False) (\<lambda>e _. e = Out_of_fuel) w"
    using assms(1,2)
  proof (induction n arbitrary: w)
    case (Suc n)
    then show ?case
      by (auto simp: wp_simps stmt_fault_def Let_def intro!: wp_mono[OF pass])
  qed (simp add: wp_raise)
  then show ?thesis by (auto simp: wp_def split: prod.splits sum.splits)
qed


lemma witness_oversized_payload_never_returns:
  "fst (run_pre_side_effect_transaction 7 None (replicate 1048577 (CHR ''x'')) ''t'' 60
     (initial_world accepting_env empty_database)) = Inl Out_of_fuel"
  by (rule oversized_payload_never_returns)
    (simp_all add: initial_world_def accepting_env_def sample_env_def)

end
