(* ===== verification/Endings.thy ===== *)
theory Endings
  imports Bindings
begin

text \<open>
  How an attempt ends: the table of \<open>finalize_submission_attempt\<close> row by row, the consumption of
  late evidence, the delay before a retry, and what never changes in the records.
\<close>

section \<open>Rows rewritten\<close>

text \<open>\<open>d'\<close> has the Jobs and attempts of \<open>d\<close> but for the Job \<open>jid\<close> and the attempt \<open>aid\<close>.\<close>

definition rewritten ::
  "database \<Rightarrow> database \<Rightarrow> string \<Rightarrow> (job_row \<Rightarrow> job_row) \<Rightarrow> string \<Rightarrow> (attempt_row \<Rightarrow> attempt_row) \<Rightarrow> bool" where
  "rewritten d d' jid f aid g \<longleftrightarrow>
     jobs d' = map (\<lambda>j. if job_id j = jid then f j else j) (jobs d)
     \<and> submission_attempts d' = map (\<lambda>a. if attempt_id a = aid then g a else a) (submission_attempts d)"

lemma rewritten_updates:
  assumes "update_attempt aid g d1 = Inr d2" "update_job jid f d2 = Inr d'"
    "jobs d1 = jobs d" "submission_attempts d1 = submission_attempts d"
  shows "rewritten d d' jid f aid g" "attempt_observations d' = attempt_observations d1"
    "service_rate_limit_gate d' = service_rate_limit_gate d1"
  using assms(3,4) by (simp_all add: rewritten_def update_jobD(1)[OF assms(2)] update_attemptD(1)[OF assms(1)])

lemma rewritten_id: "rewritten d (d\<lparr>attempt_observations := x\<rparr>) jid id aid id"
  by (simp add: rewritten_def map_idI)

text \<open>The observation of a submission, as far as the evidence determines it.\<close>

definition observes :: "submission_evidence \<Rightarrow> string \<Rightarrow> int \<Rightarrow> database \<Rightarrow> database \<Rightarrow> bool" where
  "observes ev aid generation d d' \<longleftrightarrow>
     (\<exists>r. attempt_observations d' = attempt_observations d @ [r]
        \<and> observed_attempt_id r = aid \<and> operation r = SUBMISSION \<and> \<not> is_late r
        \<and> observed_fencing_generation r = generation
        \<and> dispatch_certainty r = certainty_of ev \<and> observed_http_status r = ev_http_status ev)"

lemma observes_insert:
  assumes "insert_observation_row r d1 = Inr d2" "attempt_observations d1 = attempt_observations d"
    "is_submission_observation d aid at generation (certainty_of ev) cat (ev_http_status ev) rid delay diag r"
    "attempt_observations d' = attempt_observations d2"
  shows "observes ev aid generation d d'"
proof -
  have "observed_attempt_id r = aid \<and> operation r = SUBMISSION \<and> \<not> is_late r
      \<and> observed_fencing_generation r = generation
      \<and> dispatch_certainty r = certainty_of ev \<and> observed_http_status r = ev_http_status ev"
    using assms(3) by (cases r) (simp add: is_submission_observation_def same_evidence_def observation_def)
  with assms(2,4) show ?thesis by (simp add: observes_def insert_observation_rowD(1)[OF assms(1)])
qed

section \<open>Finalization\<close>

text \<open>
  The table of finalization: what becomes of the Job \<open>j\<close> and the attempt \<open>a\<close> (their updates \<open>f\<close>
  and \<open>g\<close>) and what is returned, by disposition and by the number of the attempt.
\<close>

inductive finalized ::
  "submission_evidence \<Rightarrow> int \<Rightarrow> timestamp \<Rightarrow> int \<Rightarrow> job_row \<Rightarrow> attempt_row
   \<Rightarrow> (job_row \<Rightarrow> job_row) \<Rightarrow> (attempt_row \<Rightarrow> attempt_row) \<Rightarrow> submission_record_result \<Rightarrow> bool" where
  finalized_succeeded:
    "disposition ev = Succeeded \<Longrightarrow> f = with_job_state SUCCEEDED now \<Longrightarrow>
     g = with_success now (ev_http_status ev) (ev_remote_request_id ev) \<Longrightarrow>
     finalized ev number now delay j a f g (SubmissionFinalized (f j) (g a))"
| finalized_permanent:
    "disposition ev = Permanent_failure \<Longrightarrow> f = with_job_state FAILED_PERMANENT now \<Longrightarrow>
     g = with_permanent now (ev_http_status ev) (ev_error_category ev) \<Longrightarrow>
     finalized ev number now delay j a f g (SubmissionFinalized (f j) (g a))"
| finalized_scheduled:
    "disposition ev = Retryable_failure \<Longrightarrow> number < 3 \<Longrightarrow> f = with_job_state RETRY_SCHEDULED now \<Longrightarrow>
     g = with_retryable now (ev_http_status ev) (ev_error_category ev) delay \<Longrightarrow>
     finalized ev number now delay j a f g (SubmissionRetryScheduled (f j) (g a))"
| finalized_exhausted:
    "disposition ev = Retryable_failure \<Longrightarrow> 3 \<le> number \<Longrightarrow> f = with_job_state FAILED_PERMANENT now \<Longrightarrow>
     g = with_retryable now (ev_http_status ev) (ev_error_category ev) delay \<Longrightarrow>
     finalized ev number now delay j a f g (SubmissionFinalized (f j) (g a))"
| finalized_retained:
    "disposition ev = Retained \<Longrightarrow> finalized ev number now delay j a id id (SubmissionRetained j a)"

lemma final_result_finalized:
  "disposition ev \<noteq> Retained \<Longrightarrow>
     finalized ev number now delay j a (with_job_state (final_state ev number) now)
       (final_change ev now delay) (final_result ev number now delay j a)"
  by (cases "disposition ev")
    (auto simp: final_state_def final_change_def final_result_def retry_job_state_def
      MAX_SUBMISSION_ATTEMPTS_def Let_def intro: finalized.intros)

text \<open>
  C12. The table of finalization: an owner that finalizes appends exactly one observation with the
  evidence of the request, and by disposition the Job and its attempt end as succeeded, as a
  permanent failure, as a retryable failure (with the retry scheduled while the budget of three
  attempts lasts and a permanent failure of the Job after it), or both stay as they are when the
  evidence is retained for reconciliation.  No other row changes, and the gate moves only for a
  rate limit, to at least the delay from now.
\<close>

theorem finalization_is_exact:
  assumes "open_tx w = None" "owned w jid aid token generation"
  shows "wp (finalize_submission_attempt jid aid number token generation ev)
    (\<lambda>r w'. open_tx w' = None \<and> observes ev aid generation (seen w) (durable w')
       \<and> (\<exists>j a f g delay. select_job (seen w) jid = Some j \<and> select_attempt (seen w) aid = Some a
            \<and> finalized ev number (now_text w) delay j a f g r
            \<and> rewritten (seen w) (durable w') jid f aid g
            \<and> service_rate_limit_gate (durable w') = service_rate_limit_gate (final_gate w ev delay (seen w))))
    (aborted w) w"
  (is "wp _ ?Q _ _")
proof (rule wp_finalize_submission_attempt[OF assms(1)])
  fix j a parsed delay rdelay diag cat rid r d1 d2 d' w'
  assume sel: "select_job (seen w) jid = Some j" "select_attempt (seen w) aid = Some a"
    and disp: "disposition ev \<noteq> Retained"
    and obs: "is_submission_observation (seen w) aid (now_text w) generation (certainty_of ev) cat
        (ev_http_status ev) rid rdelay diag r" "insert_observation_row r (final_gate w ev delay (seen w)) = Inr d1"
    and up: "update_attempt aid (final_change ev (now_text w) delay) d1 = Inr d2"
      "update_job jid (with_job_state (final_state ev number) (now_text w)) d2 = Inr d'"
    and w': "settled w d' w'"
  have gate: "attempt_observations (final_gate w ev delay (seen w)) = attempt_observations (seen w)"
    "jobs (final_gate w ev delay (seen w)) = jobs (seen w)"
    "submission_attempts (final_gate w ev delay (seen w)) = submission_attempts (seen w)"
    by (simp_all add: final_gate_def)
  note d1 = insert_observation_rowD(1)[OF obs(2)]
  have rw: "rewritten (seen w) d' jid (with_job_state (final_state ev number) (now_text w))
      aid (final_change ev (now_text w) delay)"
    "attempt_observations d' = attempt_observations d1"
    "service_rate_limit_gate d' = service_rate_limit_gate (final_gate w ev delay (seen w))"
    using rewritten_updates[OF up, of "seen w"] d1 gate by simp_all
  have "observes ev aid generation (seen w) d'"
    by (rule observes_insert[OF obs(2) gate(1) obs(1) rw(2)])
  with sel w' rw(1,3) final_result_finalized[OF disp]
  show "?Q (final_result ev number (now_text w) delay j a) w'"
    unfolding settled_def by blast
next
  fix j a r d' w'
  assume sel: "select_job (seen w) jid = Some j" "select_attempt (seen w) aid = Some a"
    and disp: "disposition ev = Retained"
    and obs: "is_submission_observation (seen w) aid (now_text w) generation (certainty_of ev)
        (ev_error_category ev) (ev_http_status ev) None None None r" "insert_observation_row r (seen w) = Inr d'"
    and w': "settled w d' w'"
  have "observes ev aid generation (seen w) d'" by (rule observes_insert[OF obs(2) refl obs(1) refl])
  moreover have "rewritten (seen w) d' jid id aid id"
    "service_rate_limit_gate d' = service_rate_limit_gate (final_gate w ev 0 (seen w))"
    using rewritten_id by (simp_all add: insert_observation_rowD(1)[OF obs(2)] final_gate_def disp)
  ultimately show "?Q (SubmissionRetained j a) w'"
    using sel w' finalized_retained[OF disp] unfolding settled_def by blast
qed (use assms(2) in auto)

lemma witness_finalization_is_exact:
  "wp (finalize_submission_attempt ''j1'' ''a1'' 1 ''owner'' 1 not_sent_sample)
     (\<lambda>r w'. length (attempt_observations (durable w')) = 1) (\<lambda>_ _. True)
     (initial_world accepting_env (sample_db ''9''))"
proof -
  let ?w = "initial_world accepting_env (sample_db ''9'')"
  have "open_tx ?w = None" "owned ?w ''j1'' ''a1'' ''owner'' 1"
    by (simp_all add: initial_world_def owned_def owns_active_attempt_def after_now_def now_text_def
        now_instant_def seen_def accepting_env_def sample_env_def sample_db_def select_job_def
        select_attempt_def sample_job_def sample_attempt_def) code_simp
  from finalization_is_exact[OF this, of 1 not_sent_sample] show ?thesis
    by (rule wp_mono)
      (auto simp: observes_def seen_def initial_world_def accepting_env_def sample_env_def sample_db_def)
qed


section \<open>Late evidence\<close>

text \<open>
  The table of late evidence: an attempt ends on a row only with the HTTP status its category
  stands for, and a success only with a remote request id.
\<close>

inductive late_ended ::
  "observation_row \<Rightarrow> int \<Rightarrow> timestamp \<Rightarrow> int \<Rightarrow> (job_row \<Rightarrow> job_row) \<Rightarrow> (attempt_row \<Rightarrow> attempt_row) \<Rightarrow> bool" where
  late_processed:
    "evidence_category row = Some ''processed'' \<Longrightarrow> observed_http_status row \<in> {Some 200, Some 201} \<Longrightarrow>
     observed_remote_request_id row \<noteq> None \<Longrightarrow>
     late_ended row number now delay (with_job_state SUCCEEDED now)
       (with_success now (observed_http_status row) (observed_remote_request_id row))"
| late_rejected:
    "(evidence_category row, observed_http_status row)
       \<in> {(Some ''validation_rejected'', Some 400), (Some ''idempotency_conflict'', Some 409)} \<Longrightarrow>
     late_ended row number now delay (with_job_state FAILED_PERMANENT now)
       (with_permanent now (observed_http_status row) (evidence_category row))"
| late_limited:
    "evidence_category row = Some ''rate_limited'' \<Longrightarrow> observed_http_status row = Some 429 \<Longrightarrow>
     (\<And>ms. observed_retry_after_ms row = Some ms \<Longrightarrow> ms \<le> delay) \<Longrightarrow>
     late_ended row number now delay
       (with_job_state (if number < 3 then RETRY_SCHEDULED else FAILED_PERMANENT) now)
       (with_retryable now (observed_http_status row) (Some ''rate_limited'') delay)"

lemma late_ended_change:
  assumes "actionable_row row"
  shows "late_ended row number now (late_delay w number row) (with_job_state (late_state row number) now)
    (late_change row now (late_delay w number row))"
proof -
  consider "evidence_category row = Some ''processed''" | "evidence_category row = Some ''rate_limited''"
    | c where "evidence_category row = Some c" "c \<in> {''validation_rejected'', ''idempotency_conflict''}"
    using assms by (auto simp: actionable_row_def is_actionable_late_evidence_def late_permanent_status_def
        split: option.splits if_splits)
  then show ?thesis
  proof cases
    case 1
    with assms show ?thesis
      by (auto simp: late_state_def late_change_def actionable_row_def is_actionable_late_evidence_def
          intro!: late_processed)
  next
    case 2
    moreover have "observed_http_status row = Some 429"
      using assms 2 by (simp add: actionable_row_def is_actionable_late_evidence_def late_permanent_status_def)
    moreover have "ms \<le> late_delay w number row" if "observed_retry_after_ms row = Some ms" for ms
      using that by (simp add: late_delay_def effective_delay_ms_def)
    ultimately show ?thesis using late_limited[of row "late_delay w number row" number now]
      by (simp add: late_state_def late_change_def retry_job_state_def MAX_SUBMISSION_ATTEMPTS_def)
  next
    case 3
    have "(evidence_category row, observed_http_status row)
        \<in> {(Some ''validation_rejected'', Some 400), (Some ''idempotency_conflict'', Some 409)}"
      using assms 3 by (auto simp: actionable_row_def is_actionable_late_evidence_def
          late_permanent_status_def split: if_splits)
    from late_rejected[OF this] show ?thesis
      using 3 by (auto simp: late_state_def late_change_def)
  qed
qed

text \<open>
  C24. Late evidence: the owner's consumption acts on the first unconsumed actionable row of the
  attempt in sequence order, marks exactly that row consumed and ends the attempt and its Job as
  the row's category and HTTP status say; without such a row nothing changes.
\<close>

theorem late_evidence_ends_the_attempt:
  assumes "open_tx w = None" "owned w jid aid token generation"
  shows "wp (consume_late_observations jid aid token generation)
    (\<lambda>r w'. open_tx w' = None
       \<and> (case find_first actionable_row (unconsumed_late_rows (seen w) aid) of
            None \<Rightarrow> r = NoActionableLateEvidence \<and> durable w' = seen w
          | Some row \<Rightarrow>
              (\<exists>j a f g delay. select_job (seen w) jid = Some j \<and> select_attempt (seen w) aid = Some a
                 \<and> late_ended row (attempt_number a) (now_text w) delay f g
                 \<and> r = LateEvidenceConsumed (f j) (g a)
                 \<and> rewritten (seen w) (durable w') jid f aid g
                 \<and> attempt_observations (durable w') =
                     map (\<lambda>x. if observation_id x = observation_id row
                               then x\<lparr>consumed_at := Some (now_text w)\<rparr> else x)
                       (attempt_observations (seen w)))))
    (aborted w) w"
  (is "wp _ ?Q _ _")
proof (rule wp_consume_late_observations[OF assms(1)])
  fix w' assume "settled w (seen w) w'" "\<forall>r\<in>set (unconsumed_late_rows (seen w) aid). \<not> actionable_row r"
  moreover from this(2) have "find_first actionable_row (unconsumed_late_rows (seen w) aid) = None"
    by (simp add: find_first_None)
  ultimately show "?Q NoActionableLateEvidence w'"
    by (simp add: settled_def)
next
  fix j a and row :: observation_row and delay d2 d' w'
  let ?d = "update_observation (observation_id row) (with_consumed (now_text w)) (seen w)"
  assume sel: "select_job (seen w) jid = Some j" "select_attempt (seen w) aid = Some a"
    and row: "find_first actionable_row (unconsumed_late_rows (seen w) aid) = Some row"
    and delay: "delay = late_delay w (attempt_number a) row"
    and up: "update_attempt aid (late_change row (now_text w) delay) (late_gate w row delay ?d) = Inr d2"
      "update_job jid (with_job_state (late_state row (attempt_number a)) (now_text w)) d2 = Inr d'"
    and w': "settled w d' w'"
  have gate: "jobs (late_gate w row delay ?d) = jobs (seen w)"
    "submission_attempts (late_gate w row delay ?d) = submission_attempts (seen w)"
    "attempt_observations (late_gate w row delay ?d) = attempt_observations ?d"
    by (simp_all add: late_gate_def update_observation_def)
  have "late_ended row (attempt_number a) (now_text w) delay
      (with_job_state (late_state row (attempt_number a)) (now_text w)) (late_change row (now_text w) delay)"
    unfolding delay by (rule late_ended_change) (use find_first_SomeD[OF row] in simp)
  moreover have "attempt_observations d' =
      map (\<lambda>x. if observation_id x = observation_id row then x\<lparr>consumed_at := Some (now_text w)\<rparr> else x)
        (attempt_observations (seen w))"
    using rewritten_updates(2)[OF up gate(1,2)] gate(3) by (simp add: update_observation_def with_consumed_def)
  ultimately show "?Q (LateEvidenceConsumed (with_job_state (late_state row (attempt_number a)) (now_text w) j)
      (late_change row (now_text w) delay a)) w'"
    using sel row w' rewritten_updates(1)[OF up gate(1,2)] by (auto simp: settled_def)
qed (use assms(2) in auto)

lemma witness_late_evidence_ends_the_attempt:
  "wp (consume_late_observations ''j1'' ''a1'' ''owner'' 1)
     (\<lambda>r w'. \<exists>j a. r = LateEvidenceConsumed j a) (\<lambda>_ _. True) (initial_world accepting_env late_db)"
proof -
  let ?w = "initial_world accepting_env late_db"
  have seen: "seen ?w = late_db"
    by (simp add: seen_def initial_world_def accepting_env_def sample_env_def)
  have "open_tx ?w = None" "owned ?w ''j1'' ''a1'' ''owner'' 1"
    by (simp_all add: seen initial_world_def owned_def owns_active_attempt_def after_now_def now_text_def
        now_instant_def accepting_env_def sample_env_def late_db_def sample_db_def select_job_def
        select_attempt_def sample_job_def sample_attempt_def) code_simp
  note ended = late_evidence_ends_the_attempt[OF this]
  have "find_first actionable_row (unconsumed_late_rows late_db ''a1'') = Some sample_late"
    by code_simp
  with ended show ?thesis by (intro wp_mono[OF ended]) (auto simp: seen)
qed

section \<open>Delays\<close>

text \<open>
  C33. The delay before a retry is bounded: it is not negative and at most an hour, an accepted
  \<open>Retry-After\<close> is never undercut, and without one the delay stays under the backoff cap
  \<open>min 30000 (500 * 2 ^ (n - 1))\<close>, whatever the random source draws in its range.
\<close>

theorem retry_delay_is_bounded:
  assumes "parse_retry_after values now = Inr parsed"
    "\<And>lo hi. lo \<le> hi \<Longrightarrow> lo \<le> randint lo hi \<and> randint lo hi \<le> hi"
    "delay = effective_delay_ms (policy_delay_ms n randint) (server_delay_of parsed)"
  shows "0 \<le> delay \<and> delay \<le> 3600000
    \<and> (case parsed of
         RetryAfterAccepted s \<Rightarrow> s \<le> delay \<and> length values = 1
       | RetryAfterRejected _ \<Rightarrow> delay \<le> min 30000 (500 * 2 ^ nat (n - 1)))"
proof -
  have cap: "0 \<le> policy_delay_ms n randint" "policy_delay_ms n randint \<le> backoff_cap_ms n"
    using assms(2)[of 0 "backoff_cap_ms n"] backoff_cap_bounds(1)[of n]
    by (simp_all add: policy_delay_ms_def)
  show ?thesis
  proof (cases parsed)
    case (RetryAfterAccepted s)
    with parse_retry_after_accepted[of "values" now s] assms(1,3) cap backoff_cap_bounds(2)[of n]
    show ?thesis by (auto simp: effective_delay_ms_def server_delay_of_def max_def)
  next
    case (RetryAfterRejected d)
    with assms(3) cap backoff_cap_bounds(2)[of n] show ?thesis
      by (auto simp: effective_delay_ms_def server_delay_of_def backoff_cap_ms_def MAX_CAP_MS_def
          BASE_DELAY_MS_def)
  qed
qed

lemma witness_retry_delay_is_bounded:
  "effective_delay_ms (policy_delay_ms 1 (\<lambda>lo hi. hi)) (Some 2000) \<le> 3600000"
proof -
  have "parse_retry_after [''2''] 0 = Inr (RetryAfterAccepted 2000)" by code_simp
  from retry_delay_is_bounded[OF this, of "\<lambda>lo hi. hi" "effective_delay_ms (policy_delay_ms 1 (\<lambda>lo hi. hi)) (Some 2000)" 1]
  show ?thesis by (simp add: server_delay_of_def)
qed

section \<open>Records\<close>

text \<open>
  Records are kept: from any well-formed database on, whatever transactions of any processes
  follow, every row is still there with its identity; a finished Job and a completed attempt are
  unchanged, a fencing generation does not decrease and a change of owner increases it, an
  observation changes only by being consumed, once and if it is late, and the gate does not move
  back.
\<close>

lemma records_are_kept:
  assumes "db_steps d d'" "db_ok d"
  shows "(\<forall>j\<in>set (jobs d). \<exists>j'\<in>set (jobs d'). job_id j' = job_id j \<and> idempotency_key j' = idempotency_key j
        \<and> payload_canonical j' = payload_canonical j \<and> created_at j' = created_at j
        \<and> (jstate j \<in> {SUCCEEDED, FAILED_PERMANENT, AMBIGUOUS} \<longrightarrow> j' = j))
    \<and> (\<forall>a\<in>set (submission_attempts d). \<exists>a'\<in>set (submission_attempts d'). attempt_id a' = attempt_id a
        \<and> attempt_job_id a' = attempt_job_id a \<and> attempt_number a' = attempt_number a
        \<and> fencing_generation a \<le> fencing_generation a'
        \<and> (astate a' = A_STARTED \<and> owner_token a' \<noteq> owner_token a \<longrightarrow> fencing_generation a < fencing_generation a')
        \<and> (astate a \<noteq> A_STARTED \<longrightarrow> a' = a))
    \<and> (\<forall>r\<in>set (attempt_observations d). \<exists>r'\<in>set (attempt_observations d').
          r' = r\<lparr>consumed_at := consumed_at r'\<rparr>
        \<and> (consumed_at r' \<noteq> consumed_at r \<longrightarrow> consumed_at r = None \<and> is_late r))
    \<and> (\<forall>t. read_gate_not_before d = Some t \<longrightarrow> (\<exists>t'. read_gate_not_before d' = Some t' \<and> t \<le> t'))"
proof -
  have le: "db_le d d'" using assms by (rule db_steps_le)
  have "\<exists>j'\<in>set (jobs d'). job_le j j'" if "j \<in> set (jobs d)" for j
    using le that by (auto simp: db_le_def elim: extends_member)
  moreover have "\<exists>a'\<in>set (submission_attempts d'). attempt_le a a'" if "a \<in> set (submission_attempts d)" for a
    using le that by (auto simp: db_le_def elim: extends_member)
  moreover have "\<exists>r'\<in>set (attempt_observations d'). observation_le r r'" if "r \<in> set (attempt_observations d)" for r
    using le that by (auto simp: db_le_def elim: extends_member)
  moreover have "gate_le (read_gate_not_before d) (read_gate_not_before d')" using le by (simp add: db_le_def)
  ultimately show ?thesis
    unfolding job_le_def attempt_le_def observation_le_def terminal_state_def
    by (intro conjI) (fastforce, fastforce, fastforce, auto simp: gate_le_def split: option.splits)
qed


lemma witness_records_are_kept:
  "\<exists>j'\<in>set (jobs (advance_gate ''5'' ''4'' completed_db)). job_id j' = ''j1'' \<and> jstate j' = SUCCEEDED"
proof -
  have "db_steps completed_db (advance_gate ''5'' ''4'' completed_db)"
    by (rule r_into_rtranclp) (rule step_gate)
  from records_are_kept[OF this completed_db_ok] show ?thesis
    by (intro bexI[of _ "sample_job SUCCEEDED"]) (simp_all add: completed_db_def sample_job_def)
qed

end
