(* ===== verification/Json.thy ===== *)
theory Json
  imports Text Policies
begin

text \<open>
  JSON documents as \<open>canonical_json.loads_strict\<close> reads them: CPython's \<open>json\<close> scanner with the
  two hooks of \<open>canonical_json.py\<close> (no duplicate member, no \<open>NaN\<close> or \<open>Infinity\<close>).  The lemmas
  show that every scan consumes input, so the fuel given to it is enough.
\<close>

section \<open>Values\<close>

text \<open>A binary64 number: a fraction with its sign, or an infinity.\<close>

datatype double =
    Double (is_negative: bool) (double_num: int) (double_den: int)
  | Infinite bool

datatype json =
    JNull
  | JBool bool
  | JInt int
  | JFloat double
  | JStr ustr
  | JArr "json list"
  | JObj "(ustr \<times> json) list"

text \<open>
  What parsing raises: a \<open>ValueError\<close> (\<open>JSONDecodeError\<close>, \<open>DuplicateMemberError\<close>, the integer
  digit limit) or the interpreter's \<open>RecursionError\<close>, which is no \<open>ValueError\<close>.  \<open>Json_fuel\<close>
  marks a scan the model stopped; \<open>scan_fuel\<close> shows that it never does.
\<close>

datatype json_error = Json_ValueError | Json_RecursionError | Json_fuel

section \<open>Strings\<close>

definition hex_digit :: "nat \<Rightarrow> nat option" where
  "hex_digit c =
     (if 48 \<le> c \<and> c \<le> 57 then Some (c - 48)
      else if 97 \<le> c \<and> c \<le> 102 then Some (c - 87)
      else if 65 \<le> c \<and> c \<le> 70 then Some (c - 55) else None)"

fun hex_value :: "nat \<Rightarrow> nat list \<Rightarrow> nat option" where
  "hex_value acc [] = Some acc"
| "hex_value acc (c # s) =
     (case hex_digit c of None \<Rightarrow> None | Some d \<Rightarrow> hex_value (16 * acc + d) s)"

text \<open>The four digits of a \<open>\u\<close> escape.\<close>

definition hex4 :: "ustr \<Rightarrow> nat option" where
  "hex4 s = (if length s < 4 then None else hex_value 0 (take 4 s))"

text \<open>After a high surrogate: a \<open>\u\<close> escape of a low one.\<close>

definition low_escape :: "ustr \<Rightarrow> nat option" where
  "low_escape s =
     (if take 2 s = [92, 117] then
        (case hex4 (drop 2 s) of Some v \<Rightarrow> if is_low_surrogate v then Some v else None | None \<Rightarrow> None)
      else None)"

definition join_surrogates :: "nat \<Rightarrow> nat \<Rightarrow> nat" where
  "join_surrogates h l = 0x10000 + (h - 0xD800) * 0x400 + (l - 0xDC00)"

definition simple_escape :: "nat \<Rightarrow> nat option" where
  "simple_escape c = map_of [(34, 34), (92, 92), (47, 47), (98, 8), (102, 12), (110, 10), (114, 13), (116, 9)] c"

definition prepend :: "nat \<Rightarrow> (ustr \<times> ustr) option \<Rightarrow> (ustr \<times> ustr) option" where
  "prepend c = map_option (\<lambda>(u, r). (c # u, r))"

text \<open>A string after its opening quote: the text and what follows the closing quote.\<close>

fun scan_string :: "ustr \<Rightarrow> (ustr \<times> ustr) option" where
  "scan_string [] = None"
| "scan_string (c # s) =
     (if c = 34 then Some ([], s)
      else if c \<le> 31 then None
      else if c \<noteq> 92 then prepend c (scan_string s)
      else (case s of
        [] \<Rightarrow> None
      | e # t \<Rightarrow>
          if e = 117 then
            (case hex4 t of
               None \<Rightarrow> None
             | Some v \<Rightarrow>
                 if is_high_surrogate v then
                   (case low_escape (drop 4 t) of
                      Some l \<Rightarrow> prepend (join_surrogates v l) (scan_string (drop 10 t))
                    | None \<Rightarrow> prepend v (scan_string (drop 4 t)))
                 else prepend v (scan_string (drop 4 t)))
          else (case simple_escape e of None \<Rightarrow> None | Some d \<Rightarrow> prepend d (scan_string t))))"

section \<open>Numbers\<close>

definition is_dec :: "nat \<Rightarrow> bool" where
  "is_dec c \<longleftrightarrow> 48 \<le> c \<and> c \<le> 57"

definition read_dec :: "ustr \<Rightarrow> int" where
  "read_dec s = foldl (\<lambda>acc c. 10 * acc + (int c - 48)) 0 s"

text \<open>\<open>eat c s\<close> is the rest of \<open>s\<close> after an initial \<open>c\<close>.\<close>

definition eat :: "nat \<Rightarrow> ustr \<Rightarrow> ustr option" where
  "eat c s = (case s of [] \<Rightarrow> None | d # r \<Rightarrow> if d = c then Some r else None)"

text \<open>
  \<open>float(token)\<close> of a token with the digits of \<open>m\<close> and decimal exponent \<open>x\<close>: correctly rounded,
  infinite from \<open>2 ^ 1024\<close> on.  (Below the normal range the fraction keeps the precision a
  subnormal would lose; nothing here depends on that.)
\<close>

definition to_double :: "bool \<Rightarrow> int \<Rightarrow> int \<Rightarrow> double" where
  "to_double neg m x =
     (if m = 0 then Double neg 0 1
      else let (n, d) = (if 0 \<le> x then round_double (m * 10 ^ nat x) 1 else round_double m (10 ^ nat (- x)))
           in if 2 ^ 1024 * d \<le> n then Infinite neg else Double neg n d)"

text \<open>The integer part: \<open>0\<close> or digits without a leading zero.\<close>

definition int_part :: "ustr \<Rightarrow> ustr option" where
  "int_part s = (case s of [] \<Rightarrow> None | c # r \<Rightarrow>
     if c = 48 then Some [c] else if is_dec c then Some (takeWhile is_dec s) else None)"

definition frac_part :: "ustr \<Rightarrow> ustr" where
  "frac_part s = (case eat 46 s of None \<Rightarrow> [] | Some r \<Rightarrow> takeWhile is_dec r)"

text \<open>The exponent with its length, when \<open>e\<close>, an optional sign and at least one digit are there.\<close>

definition exp_part :: "ustr \<Rightarrow> (int \<times> nat) option" where
  "exp_part s = (case s of [] \<Rightarrow> None | c # r \<Rightarrow>
     if c \<noteq> 101 \<and> c \<noteq> 69 then None
     else let signed = (case r of [] \<Rightarrow> False | d # _ \<Rightarrow> d = 43 \<or> d = 45);
              ds = takeWhile is_dec (if signed then tl r else r);
              n = 1 + (if signed then 1 else 0) + length ds
          in if ds = [] then None
             else Some (if signed \<and> hd r = 45 then - read_dec ds else read_dec ds, n))"

definition scan_unsigned :: "bool \<Rightarrow> ustr \<Rightarrow> json_error + json \<times> ustr" where
  "scan_unsigned neg s = (case int_part s of
     None \<Rightarrow> Inl Json_ValueError
   | Some ds \<Rightarrow>
       let s2 = drop (length ds) s; fs = frac_part s2;
           s3 = (if fs = [] then s2 else drop (Suc (length fs)) s2)
       in case exp_part s3 of
            Some (x, n) \<Rightarrow>
              Inr (JFloat (to_double neg (read_dec (ds @ fs)) (x - int (length fs))), drop n s3)
          | None \<Rightarrow>
              if fs \<noteq> [] then
                Inr (JFloat (to_double neg (read_dec (ds @ fs)) (- int (length fs))), s3)
              else if INT_MAX_STR_DIGITS < int (length ds) then Inl Json_ValueError
              else Inr (JInt (if neg then - read_dec ds else read_dec ds), s3))"

definition scan_number :: "ustr \<Rightarrow> json_error + json \<times> ustr" where
  "scan_number s =
     (case eat 45 s of Some t \<Rightarrow> scan_unsigned True t | None \<Rightarrow> scan_unsigned False s)"

section \<open>Documents\<close>

definition is_ws :: "nat \<Rightarrow> bool" where
  "is_ws c \<longleftrightarrow> c = 32 \<or> c = 9 \<or> c = 10 \<or> c = 13"

definition skip_ws :: "ustr \<Rightarrow> ustr" where
  "skip_ws = dropWhile is_ws"

definition eat_word :: "string \<Rightarrow> ustr \<Rightarrow> ustr option" where
  "eat_word w s =
     (if take (length w) s = ascii w then Some (drop (length w) s) else None)"

text \<open>\<open>_object_pairs_hook\<close>: the object, or a \<open>ValueError\<close> when a member name repeats.\<close>

definition object_pairs_hook :: "(ustr \<times> json) list \<Rightarrow> json_error + json" where
  "object_pairs_hook pairs =
     (if distinct (map fst pairs) then Inr (JObj pairs) else Inl Json_ValueError)"

text \<open>
  \<open>scan_once\<close> of CPython's scanner.  \<open>depth\<close> is how many containers may still be entered before
  the interpreter's recursion limit; every call costs one unit of fuel.
\<close>

fun scan_once :: "nat \<Rightarrow> nat \<Rightarrow> ustr \<Rightarrow> json_error + json \<times> ustr"
  and scan_members :: "nat \<Rightarrow> nat \<Rightarrow> ustr \<Rightarrow> json_error + (ustr \<times> json) list \<times> ustr"
  and scan_elements :: "nat \<Rightarrow> nat \<Rightarrow> ustr \<Rightarrow> json_error + json list \<times> ustr"
where
  "scan_once 0 depth s = Inl Json_fuel"
| "scan_once (Suc f) depth s =
     (case s of
        [] \<Rightarrow> Inl Json_ValueError
      | c # t \<Rightarrow>
          if c = 34 then
            (case scan_string t of None \<Rightarrow> Inl Json_ValueError | Some (u, r) \<Rightarrow> Inr (JStr u, r))
          else if c = 123 then
            (case depth of
               0 \<Rightarrow> Inl Json_RecursionError
             | Suc d \<Rightarrow>
                 (case eat 125 (skip_ws t) of
                    Some r \<Rightarrow> Inr (JObj [], r)
                  | None \<Rightarrow>
                      (case scan_members f d (skip_ws t) of
                         Inl e \<Rightarrow> Inl e
                       | Inr (ms, r) \<Rightarrow>
                           (case object_pairs_hook ms of Inl e \<Rightarrow> Inl e | Inr v \<Rightarrow> Inr (v, r)))))
          else if c = 91 then
            (case depth of
               0 \<Rightarrow> Inl Json_RecursionError
             | Suc d \<Rightarrow>
                 (case eat 93 (skip_ws t) of
                    Some r \<Rightarrow> Inr (JArr [], r)
                  | None \<Rightarrow>
                      (case scan_elements f d (skip_ws t) of
                         Inl e \<Rightarrow> Inl e
                       | Inr (vs, r) \<Rightarrow> Inr (JArr vs, r))))
          else (case (eat_word ''null'' s, eat_word ''true'' s, eat_word ''false'' s) of
              (Some r, _, _) \<Rightarrow> Inr (JNull, r)
            | (_, Some r, _) \<Rightarrow> Inr (JBool True, r)
            | (_, _, Some r) \<Rightarrow> Inr (JBool False, r)
            | _ \<Rightarrow>
                if eat_word ''NaN'' s \<noteq> None \<or> eat_word ''Infinity'' s \<noteq> None
                   \<or> eat_word ''-Infinity'' s \<noteq> None
                then Inl Json_ValueError
                else scan_number s))"
| "scan_members 0 depth s = Inl Json_fuel"
| "scan_members (Suc f) depth s =
     (case eat 34 s of
        None \<Rightarrow> Inl Json_ValueError
      | Some s1 \<Rightarrow>
          (case scan_string s1 of
             None \<Rightarrow> Inl Json_ValueError
           | Some (k, s2) \<Rightarrow>
               (case eat 58 (skip_ws s2) of
                  None \<Rightarrow> Inl Json_ValueError
                | Some s3 \<Rightarrow>
                    (case scan_once f depth (skip_ws s3) of
                       Inl e \<Rightarrow> Inl e
                     | Inr (v, s4) \<Rightarrow>
                         (case (eat 125 (skip_ws s4), eat 44 (skip_ws s4)) of
                            (Some r, _) \<Rightarrow> Inr ([(k, v)], r)
                          | (None, Some s5) \<Rightarrow>
                              (case scan_members f depth (skip_ws s5) of
                                 Inl e \<Rightarrow> Inl e
                               | Inr (ms, r) \<Rightarrow> Inr ((k, v) # ms, r))
                          | _ \<Rightarrow> Inl Json_ValueError)))))"
| "scan_elements 0 depth s = Inl Json_fuel"
| "scan_elements (Suc f) depth s =
     (case scan_once f depth s of
        Inl e \<Rightarrow> Inl e
      | Inr (v, s1) \<Rightarrow>
          (case (eat 93 (skip_ws s1), eat 44 (skip_ws s1)) of
             (Some r, _) \<Rightarrow> Inr ([v], r)
           | (None, Some s2) \<Rightarrow>
               (case scan_elements f depth (skip_ws s2) of
                  Inl e \<Rightarrow> Inl e
                | Inr (vs, r) \<Rightarrow> Inr (v # vs, r))
           | _ \<Rightarrow> Inl Json_ValueError))"

text \<open>
  \<open>loads_strict\<close>; a text that starts with a byte order mark is refused by \<open>json.loads\<close>.
\<close>

definition loads_strict :: "nat \<Rightarrow> ustr \<Rightarrow> json_error + json" where
  "loads_strict limit doc =
     (if eat 0xFEFF doc \<noteq> None then Inl Json_ValueError
      else case scan_once (2 * length doc + 1) limit (skip_ws doc) of
             Inl e \<Rightarrow> Inl e
           | Inr (v, r) \<Rightarrow> if skip_ws r = [] then Inr v else Inl Json_ValueError)"

section \<open>Every scan makes progress\<close>

lemma eat_Some: "eat c s = Some r \<longleftrightarrow> s = c # r"
  by (auto simp: eat_def split: list.splits)

lemma eat_shorter: "eat c s = Some r \<Longrightarrow> length r < length s"
  by (simp add: eat_Some)

lemma skip_ws_le: "length (skip_ws s) \<le> length s"
  by (simp add: skip_ws_def length_dropWhile_le)

lemma prepend_Some: "prepend c x = Some (u, r) \<longleftrightarrow> (\<exists>v. x = Some (v, r) \<and> u = c # v)"
  by (auto simp: prepend_def)

lemma scan_string_shorter: "scan_string s = Some (u, r) \<Longrightarrow> length r < length s"
proof (induction s arbitrary: u r rule: scan_string.induct)
  case 1
  then show ?case by simp
next
  case (2 c s)
  show ?case
  proof (cases "c = 34 \<or> c \<le> 31 \<or> c \<noteq> 92")
    case True
    with 2 show ?thesis by (fastforce simp: prepend_Some split: if_splits)
  next
    case False
    with 2 show ?thesis
      by (fastforce simp: prepend_Some split: list.splits option.splits if_splits)
  qed
qed

lemma eat_word_Cons: "eat_word (w # ws) (c # s) = (if of_char w = c then eat_word ws s else None)"
  by (auto simp: eat_word_def)

lemma eat_word_shorter: "eat_word w s = Some r \<Longrightarrow> w \<noteq> [] \<Longrightarrow> length r < length s"
  by (auto simp: eat_word_def split: if_splits) (metis ascii_simps(1) ascii_inj length_drop length_greater_0_conv diff_less take_eq_Nil)

lemma int_part_shorter: "int_part s = Some ds \<Longrightarrow> length (drop (length ds) s) < length s"
  by (auto simp: int_part_def split: list.splits if_splits)

lemma scan_unsigned_shorter:
  assumes "scan_unsigned neg s = Inr (v, r)"
  shows "length r < length s"
proof -
  from assms obtain ds where ds: "int_part s = Some ds"
    by (auto simp: scan_unsigned_def split: option.splits)
  with assms have "length r \<le> length (drop (length ds) s)"
    by (auto simp: scan_unsigned_def Let_def split: option.splits if_splits)
  with int_part_shorter[OF ds] show ?thesis by linarith
qed

lemma scan_number_shorter: "scan_number s = Inr (v, r) \<Longrightarrow> length r < length s"
  by (fastforce simp: scan_number_def split: option.splits dest: scan_unsigned_shorter eat_shorter)

lemma scan_once_cases:
  assumes "scan_once (Suc f) d s = Inr (v, r)"
    and "\<And>t u. s = 34 # t \<Longrightarrow> scan_string t = Some (u, r) \<Longrightarrow> v = JStr u \<Longrightarrow> P"
    and "\<And>t d'. s = 123 # t \<Longrightarrow> d = Suc d' \<Longrightarrow> eat 125 (skip_ws t) = Some r \<Longrightarrow> v = JObj [] \<Longrightarrow> P"
    and "\<And>t d' ms. s = 123 # t \<Longrightarrow> d = Suc d' \<Longrightarrow> scan_members f d' (skip_ws t) = Inr (ms, r) \<Longrightarrow>
           object_pairs_hook ms = Inr v \<Longrightarrow> P"
    and "\<And>t d'. s = 91 # t \<Longrightarrow> d = Suc d' \<Longrightarrow> eat 93 (skip_ws t) = Some r \<Longrightarrow> v = JArr [] \<Longrightarrow> P"
    and "\<And>t d' vs. s = 91 # t \<Longrightarrow> d = Suc d' \<Longrightarrow> scan_elements f d' (skip_ws t) = Inr (vs, r) \<Longrightarrow>
           v = JArr vs \<Longrightarrow> P"
    and "\<And>w. w \<noteq> [] \<Longrightarrow> eat_word w s = Some r \<Longrightarrow> v \<in> {JNull, JBool True, JBool False} \<Longrightarrow> P"
    and "scan_number s = Inr (v, r) \<Longrightarrow> P"
  shows P
proof (cases s)
  case Nil
  with assms(1) show P by simp
next
  case (Cons c t)
  consider "c = 34" | "c = 123" | "c = 91" | "c \<noteq> 34" "c \<noteq> 123" "c \<noteq> 91" by blast
  then show P
  proof cases
    case 1
    with assms(1) Cons show P by (auto split: option.splits intro: assms(2))
  next
    case 2
    with assms(1) Cons show P
      by (auto split: nat.splits option.splits sum.splits intro: assms(3) assms(4))
  next
    case 3
    with assms(1) Cons show P
      by (auto split: nat.splits option.splits sum.splits intro: assms(5) assms(6))
  next
    case 4
    with assms(1) Cons show P
      by (auto split: option.splits if_splits intro: assms(7)[of "''null''"] assms(7)[of "''true''"]
          assms(7)[of "''false''"] assms(8) simp del: eat_word_def)
  qed
qed

lemma scan_members_cases:
  assumes "scan_members (Suc f) d s = Inr (ms, r)"
  obtains s1 k s2 s3 v s4 where "eat 34 s = Some s1" "scan_string s1 = Some (k, s2)"
    "eat 58 (skip_ws s2) = Some s3" "scan_once f d (skip_ws s3) = Inr (v, s4)"
    "eat 125 (skip_ws s4) = Some r \<and> ms = [(k, v)]
     \<or> (\<exists>s5 ms'. eat 44 (skip_ws s4) = Some s5 \<and> scan_members f d (skip_ws s5) = Inr (ms', r)
          \<and> ms = (k, v) # ms')"
  using assms by (auto split: option.splits sum.splits)

lemma scan_elements_cases:
  assumes "scan_elements (Suc f) d s = Inr (vs, r)"
  obtains v s1 where "scan_once f d s = Inr (v, s1)"
    "eat 93 (skip_ws s1) = Some r \<and> vs = [v]
     \<or> (\<exists>s2 vs'. eat 44 (skip_ws s1) = Some s2 \<and> scan_elements f d (skip_ws s2) = Inr (vs', r)
          \<and> vs = v # vs')"
  using assms by (auto split: option.splits sum.splits)

lemma scan_shorter:
  "scan_once f d s = Inr (v, r) \<Longrightarrow> length r < length s"
  "scan_members f d s = Inr (ms, r) \<Longrightarrow> length r < length s"
  "scan_elements f d s = Inr (vs, r) \<Longrightarrow> length r < length s"
proof (induction f arbitrary: d s v ms vs r)
  case (Suc f)
  {
    case 1
    then show ?case
    proof (rule scan_once_cases)
    next
      fix t d' assume "s = 123 # t" "eat 125 (skip_ws t) = Some r"
      then show ?thesis using eat_shorter skip_ws_le[of t] by fastforce
    next
      fix t d' ms assume "s = 123 # t" "scan_members f d' (skip_ws t) = Inr (ms, r)"
      then show ?thesis using Suc.IH(2) skip_ws_le[of t] by fastforce
    next
      fix t d' assume "s = 91 # t" "eat 93 (skip_ws t) = Some r"
      then show ?thesis using eat_shorter skip_ws_le[of t] by fastforce
    next
      fix t d' vs assume "s = 91 # t" "scan_elements f d' (skip_ws t) = Inr (vs, r)"
      then show ?thesis using Suc.IH(3) skip_ws_le[of t] by fastforce
    qed (auto dest: scan_string_shorter scan_number_shorter eat_word_shorter)
  next
    case 2
    then show ?case
    proof (rule scan_members_cases)
      fix s1 k s2 s3 v' s4
      assume s: "eat 34 s = Some s1" "scan_string s1 = Some (k, s2)" "eat 58 (skip_ws s2) = Some s3"
        "scan_once f d (skip_ws s3) = Inr (v', s4)"
        and alt: "eat 125 (skip_ws s4) = Some r \<and> ms = [(k, v')]
          \<or> (\<exists>s5 ms'. eat 44 (skip_ws s4) = Some s5 \<and> scan_members f d (skip_ws s5) = Inr (ms', r)
               \<and> ms = (k, v') # ms')"
      have "length s4 < length s"
        using eat_shorter[OF s(1)] scan_string_shorter[OF s(2)] eat_shorter[OF s(3)] Suc.IH(1)[OF s(4)]
          skip_ws_le[of s2] skip_ws_le[of s3] by linarith
      moreover from alt have "length r \<le> length s4"
      proof (elim disjE exE conjE)
        assume "eat 125 (skip_ws s4) = Some r"
        from eat_shorter[OF this] skip_ws_le[of s4] show ?thesis by linarith
      next
        fix s5 ms' assume m: "eat 44 (skip_ws s4) = Some s5" "scan_members f d (skip_ws s5) = Inr (ms', r)"
        from eat_shorter[OF m(1)] Suc.IH(2)[OF m(2)] skip_ws_le[of s4] skip_ws_le[of s5]
        show ?thesis by linarith
      qed
      ultimately show ?thesis by linarith
    qed
  next
    case 3
    then show ?case
    proof (rule scan_elements_cases)
      fix v' s1
      assume s: "scan_once f d s = Inr (v', s1)"
        and alt: "eat 93 (skip_ws s1) = Some r \<and> vs = [v']
          \<or> (\<exists>s2 vs'. eat 44 (skip_ws s1) = Some s2 \<and> scan_elements f d (skip_ws s2) = Inr (vs', r)
               \<and> vs = v' # vs')"
      from alt have "length r \<le> length s1"
      proof (elim disjE exE conjE)
        assume "eat 93 (skip_ws s1) = Some r"
        from eat_shorter[OF this] skip_ws_le[of s1] show ?thesis by linarith
      next
        fix s2 vs' assume m: "eat 44 (skip_ws s1) = Some s2" "scan_elements f d (skip_ws s2) = Inr (vs', r)"
        from eat_shorter[OF m(1)] Suc.IH(3)[OF m(2)] skip_ws_le[of s1] skip_ws_le[of s2]
        show ?thesis by linarith
      qed
      with Suc.IH(1)[OF s] show ?thesis by linarith
    qed
  }
qed simp_all

section \<open>The fuel is enough\<close>

lemma scan_once_error:
  assumes "scan_once (Suc f) d s = Inl e"
  shows "e \<noteq> Json_fuel \<or> (\<exists>c t d'. s = c # t \<and>
    (scan_members f d' (skip_ws t) = Inl e \<or> scan_elements f d' (skip_ws t) = Inl e))"
proof (cases s)
  case Nil
  with assms show ?thesis by auto
next
  case (Cons c t)
  have num: "scan_number s \<noteq> Inl Json_fuel"
    by (auto simp: scan_number_def scan_unsigned_def Let_def split: option.split)
  consider "c = 34" | "c = 123" | "c = 91" | "c \<noteq> 34" "c \<noteq> 123" "c \<noteq> 91" by blast
  then show ?thesis
  proof cases
    case 1
    with assms Cons show ?thesis by (auto split: option.splits)
  next
    case 2
    with assms Cons show ?thesis
      by (auto simp: object_pairs_hook_def split: nat.splits option.splits sum.splits if_splits)
  next
    case 3
    with assms Cons show ?thesis
      by (auto split: nat.splits option.splits sum.splits)
  next
    case 4
    with assms Cons num show ?thesis
      by (auto split: option.splits if_splits)
  qed
qed

lemma scan_fuel:
  "2 * length s + 1 \<le> f \<Longrightarrow> scan_once f d s \<noteq> Inl Json_fuel"
  "2 * length s + 1 \<le> f \<Longrightarrow> scan_members f d s \<noteq> Inl Json_fuel"
  "2 * length s + 2 \<le> f \<Longrightarrow> scan_elements f d s \<noteq> Inl Json_fuel"
proof (induction f arbitrary: d s)
  case (Suc f)
  {
    case 1
    have "scan_members f d' (skip_ws t) \<noteq> Inl Json_fuel" "scan_elements f d' (skip_ws t) \<noteq> Inl Json_fuel"
      if "s = c # t" for c t d'
      using 1 that skip_ws_le[of t] by (intro Suc.IH; simp)+
    with scan_once_error[of f d s Json_fuel] show ?case by blast
  next
    case 2
    have "scan_once f d (skip_ws s3) \<noteq> Inl Json_fuel"
      if "eat 34 s = Some s1" "scan_string s1 = Some (k, s2)" "eat 58 (skip_ws s2) = Some s3" for s1 k s2 s3
      using 2 eat_shorter[OF that(1)] scan_string_shorter[OF that(2)] eat_shorter[OF that(3)]
        skip_ws_le[of s2] skip_ws_le[of s3] by (intro Suc.IH(1)) linarith
    moreover have "scan_members f d (skip_ws s5) \<noteq> Inl Json_fuel"
      if "eat 34 s = Some s1" "scan_string s1 = Some (k, s2)" "eat 58 (skip_ws s2) = Some s3"
        "scan_once f d (skip_ws s3) = Inr (v, s4)" "eat 44 (skip_ws s4) = Some s5" for s1 k s2 s3 v s4 s5
      using 2 eat_shorter[OF that(1)] scan_string_shorter[OF that(2)] eat_shorter[OF that(3)]
        scan_shorter(1)[OF that(4)] eat_shorter[OF that(5)]
        skip_ws_le[of s2] skip_ws_le[of s3] skip_ws_le[of s4] skip_ws_le[of s5]
      by (intro Suc.IH(2)) linarith
    ultimately show ?case by (auto split: option.split sum.split)
  next
    case 3
    have "scan_once f d s \<noteq> Inl Json_fuel" using 3 by (intro Suc.IH(1)) simp
    moreover have "scan_elements f d (skip_ws s2) \<noteq> Inl Json_fuel"
      if "scan_once f d s = Inr (v, s1)" "eat 44 (skip_ws s1) = Some s2" for v s1 s2
      using 3 scan_shorter(1)[OF that(1)] eat_shorter[OF that(2)] skip_ws_le[of s1] skip_ws_le[of s2]
      by (intro Suc.IH(3)) linarith
    ultimately show ?case by (auto split: option.split sum.split)
  }
qed simp_all

lemma loads_strict_fuel: "loads_strict limit doc \<noteq> Inl Json_fuel"
proof -
  have "scan_once (2 * length doc + 1) limit (skip_ws doc) \<noteq> Inl Json_fuel"
    using skip_ws_le[of doc] by (intro scan_fuel(1)) simp
  then show ?thesis
    by (auto simp: loads_strict_def simp del: scan_once.simps split: sum.split)
qed

end
