(* ===== verification/Json_Writing.thy ===== *)
theory Json_Writing
  imports Json
begin

text \<open>
  \<open>json.dumps\<close> with its default \<open>ensure_ascii\<close>, as the simulator's server and the command line
  call it, and the proof that \<open>loads_strict\<close> reads back what it writes.
\<close>

section \<open>Writing\<close>

definition hex_char :: "nat \<Rightarrow> nat" where
  "hex_char d = (if d < 10 then 48 + d else 87 + d)"

definition unicode_escape :: "nat \<Rightarrow> ustr" where
  "unicode_escape v =
     [92, 117, hex_char (v div 4096), hex_char (v div 256 mod 16), hex_char (v div 16 mod 16), hex_char (v mod 16)]"

definition short_escape :: "nat \<Rightarrow> nat option" where
  "short_escape c = map_of [(34, 34), (92, 92), (10, 110), (13, 114), (9, 116), (12, 102), (8, 98)] c"

text \<open>\<open>ensure_ascii\<close>: everything but printable ASCII is escaped.\<close>

definition escape_char :: "nat \<Rightarrow> ustr" where
  "escape_char c =
     (case short_escape c of
        Some e \<Rightarrow> [92, e]
      | None \<Rightarrow>
          if 32 \<le> c \<and> c \<le> 126 then [c]
          else if c < 0x10000 then unicode_escape c
          else unicode_escape (0xD800 + (c - 0x10000) div 0x400)
               @ unicode_escape (0xDC00 + (c - 0x10000) mod 0x400))"

definition dump_string :: "ustr \<Rightarrow> ustr" where
  "dump_string u = 34 # concat (map escape_char u) @ [34]"

definition dump_int :: "int \<Rightarrow> ustr" where
  "dump_int n = ascii (if n < 0 then CHR ''-'' # str_int (- n) else str_int n)"

fun commas :: "ustr list \<Rightarrow> ustr" where
  "commas [] = []"
| "commas [x] = x"
| "commas (x # y # xs) = x @ [44, 32] @ commas (y # xs)"

text \<open>\<open>json.dumps(value)\<close>; \<open>float_repr\<close> stands for \<open>float.__repr__\<close>, which no document here uses.\<close>

fun dumps :: "(double \<Rightarrow> ustr) \<Rightarrow> json \<Rightarrow> ustr" where
  "dumps float_repr JNull = ascii ''null''"
| "dumps float_repr (JBool b) = (if b then ascii ''true'' else ascii ''false'')"
| "dumps float_repr (JInt n) = dump_int n"
| "dumps float_repr (JFloat x) = float_repr x"
| "dumps float_repr (JStr u) = dump_string u"
| "dumps float_repr (JArr vs) = 91 # commas (map (dumps float_repr) vs) @ [93]"
| "dumps float_repr (JObj ms) =
     123 # commas (map (\<lambda>(k, v). dump_string k @ [58, 32] @ dumps float_repr v) ms) @ [125]"

text \<open>
  The documents the program writes: no floats, scalar texts, distinct members, integers within
  the digit limit, nested at most as deep as the reader follows.
\<close>

fun plain_json :: "nat \<Rightarrow> json \<Rightarrow> bool" where
  "plain_json d JNull \<longleftrightarrow> True"
| "plain_json d (JBool b) \<longleftrightarrow> True"
| "plain_json d (JInt n) \<longleftrightarrow> int (length (str_int \<bar>n\<bar>)) \<le> INT_MAX_STR_DIGITS"
| "plain_json d (JFloat x) \<longleftrightarrow> False"
| "plain_json d (JStr u) \<longleftrightarrow> list_all is_scalar u"
| "plain_json d (JArr vs) \<longleftrightarrow> (case d of 0 \<Rightarrow> False | Suc d' \<Rightarrow> list_all (plain_json d') vs)"
| "plain_json d (JObj ms) \<longleftrightarrow>
     (case d of 0 \<Rightarrow> False
      | Suc d' \<Rightarrow> distinct (map fst ms) \<and> list_all (\<lambda>(k, v). list_all is_scalar k \<and> plain_json d' v) ms)"

text \<open>
  Anything else \<open>json.dumps\<close> can be given: the names of an object may repeat, and the only floats are
  the three that it writes as constants, \<open>NaN\<close> and the infinities.  \<open>unambiguous\<close> is what the two
  hooks of \<open>canonical_json.py\<close> leave of it.
\<close>

definition non_finite :: "ustr list" where
  "non_finite = [ascii ''NaN'', ascii ''Infinity'', ascii ''-Infinity'']"

fun written :: "(double \<Rightarrow> ustr) \<Rightarrow> nat \<Rightarrow> json \<Rightarrow> bool" where
  "written fr d JNull \<longleftrightarrow> True"
| "written fr d (JBool b) \<longleftrightarrow> True"
| "written fr d (JInt n) \<longleftrightarrow> int (length (str_int \<bar>n\<bar>)) \<le> INT_MAX_STR_DIGITS"
| "written fr d (JFloat x) \<longleftrightarrow> fr x \<in> set non_finite"
| "written fr d (JStr u) \<longleftrightarrow> list_all is_scalar u"
| "written fr d (JArr vs) \<longleftrightarrow> (case d of 0 \<Rightarrow> False | Suc d' \<Rightarrow> list_all (written fr d') vs)"
| "written fr d (JObj ms) \<longleftrightarrow>
     (case d of 0 \<Rightarrow> False
      | Suc d' \<Rightarrow> list_all (\<lambda>(k, v). list_all is_scalar k \<and> written fr d' v) ms)"

fun unambiguous :: "json \<Rightarrow> bool" where
  "unambiguous (JFloat x) \<longleftrightarrow> False"
| "unambiguous (JArr vs) \<longleftrightarrow> list_all unambiguous vs"
| "unambiguous (JObj ms) \<longleftrightarrow> distinct (map fst ms) \<and> list_all (\<lambda>(k, v). unambiguous v) ms"
| "unambiguous _ \<longleftrightarrow> True"

lemma plain_written: "plain_json d v \<Longrightarrow> written fr d v \<and> unambiguous v"
  by (induction d v rule: plain_json.induct) (fastforce simp: list_all_iff split: nat.splits)+

section \<open>What is written is read back\<close>

lemma hex_digit_char: "d < 16 \<Longrightarrow> hex_digit (hex_char d) = Some d"
  by (auto simp: hex_digit_def hex_char_def)

lemma hex4_digits:
  "a < 16 \<Longrightarrow> b < 16 \<Longrightarrow> c < 16 \<Longrightarrow> d < 16 \<Longrightarrow>
     hex4 (hex_char a # hex_char b # hex_char c # hex_char d # r) = Some (((a * 16 + b) * 16 + c) * 16 + d)"
  by (simp add: hex4_def hex_digit_char mult.commute)

lemma hex4_escape:
  assumes "v < 0x10000"
  shows "hex4 (drop 2 (unicode_escape v) @ r) = Some v"
proof -
  have a: "v div 4096 < 16" using assms by (simp add: div_less_iff_less_mult)
  have "v div 256 div 16 = v div 4096" "v div 16 div 16 = v div 256" by (simp_all flip: div_mult2_eq)
  then have "v div 4096 * 16 + v div 256 mod 16 = v div 256"
    "v div 256 * 16 + v div 16 mod 16 = v div 16" "v div 16 * 16 + v mod 16 = v"
    by (metis div_mult_mod_eq)+
  with hex4_digits[OF a, of "v div 256 mod 16" "v div 16 mod 16" "v mod 16" r] show ?thesis
    by (simp add: unicode_escape_def)
qed

lemma scan_unicode_escape:
  assumes "v < 0x10000" "\<not> is_high_surrogate v"
  shows "scan_string (unicode_escape v @ r) = prepend v (scan_string r)"
proof -
  have "hex4 (drop 2 (unicode_escape v) @ r) = Some v" by (rule hex4_escape[OF assms(1)])
  with assms(2) show ?thesis by (simp add: unicode_escape_def)
qed

lemma scan_surrogate_pair:
  assumes "v < 0x10000" "is_high_surrogate v" "w < 0x10000" "is_low_surrogate w"
  shows "scan_string (unicode_escape v @ unicode_escape w @ r)
    = prepend (join_surrogates v w) (scan_string r)"
proof -
  have "hex4 (drop 2 (unicode_escape v) @ unicode_escape w @ r) = Some v"
    "hex4 (drop 2 (unicode_escape w) @ r) = Some w"
    by (rule hex4_escape[OF assms(1)]) (rule hex4_escape[OF assms(3)])
  with assms(2,4) show ?thesis by (simp add: unicode_escape_def low_escape_def)
qed

lemma scan_escape:
  assumes "is_scalar c"
  shows "scan_string (escape_char c @ r) = prepend c (scan_string r)"
proof (cases "short_escape c")
  case (Some e)
  then show ?thesis
    by (auto simp: escape_char_def hex4_def simple_escape_def short_escape_def split: if_splits)
next
  case None
  consider "32 \<le> c" "c \<le> 126" | "c < 0x10000" "\<not> (32 \<le> c \<and> c \<le> 126)" | "0x10000 \<le> c" by linarith
  then show ?thesis
  proof cases
    case 1
    moreover from None have "c \<noteq> 34" "c \<noteq> 92" by (auto simp: short_escape_def)
    ultimately show ?thesis using None by (simp add: escape_char_def)
  next
    case 2
    moreover have "\<not> is_high_surrogate c" using assms by (auto simp: is_scalar_def is_high_surrogate_def)
    ultimately show ?thesis using None by (auto simp: escape_char_def scan_unicode_escape simp del: scan_string.simps)
  next
    case 3
    define x where "x = c - 0x10000"
    have x: "x < 0x100000" "c = 0x10000 + x" using 3 assms by (simp_all add: x_def is_scalar_def)
    have "x div 0x400 < 0x400" "x mod 0x400 < 0x400" using x by (simp_all add: div_less_iff_less_mult)
    then have "is_high_surrogate (0xD800 + x div 0x400)" "is_low_surrogate (0xDC00 + x mod 0x400)"
      "0xD800 + x div 0x400 < 0x10000" "0xDC00 + x mod 0x400 < 0x10000"
      by (simp_all add: is_high_surrogate_def is_low_surrogate_def)
    moreover have "join_surrogates (0xD800 + x div 0x400) (0xDC00 + x mod 0x400) = c"
      using x by (simp add: join_surrogates_def)
    moreover have "escape_char c = unicode_escape (0xD800 + x div 0x400) @ unicode_escape (0xDC00 + x mod 0x400)"
      using 3 None by (auto simp: escape_char_def x_def)
    ultimately show ?thesis by (simp add: scan_surrogate_pair del: scan_string.simps)
  qed
qed

lemma scan_dump_string:
  "list_all is_scalar u \<Longrightarrow> scan_string (concat (map escape_char u) @ 34 # r) = Some (u, r)"
  by (induction u) (simp_all add: scan_escape prepend_def del: scan_string.simps, simp)

text \<open>Integers.\<close>

lemma str_int_digits: "0 \<le> n \<Longrightarrow> c \<in> set (str_int n) \<Longrightarrow> is_digit c"
proof (induction n rule: str_int.induct)
  case (1 n)
  then show ?case by (subst (asm) (2) str_int.simps) (auto simp: pos_imp_zdiv_nonneg_iff split: if_splits)
qed

lemma read_str_int: "0 \<le> n \<Longrightarrow> read_digits (str_int n) = n"
proof (induction n rule: str_int.induct)
  case (1 n)
  then show ?case
    by (subst str_int.simps) (auto simp: read_digits_append pos_imp_zdiv_nonneg_iff read_digits_def[of "[_]"])
qed

lemma str_int_first: "0 < n \<Longrightarrow> \<exists>d ds. str_int n = digit_char d # ds \<and> 0 < d \<and> d < 10"
proof (induction n rule: str_int.induct)
  case (1 n)
  show ?case
  proof (cases "n < 10")
    case True
    with 1 show ?thesis by (subst str_int.simps) auto
  next
    case False
    then have "0 < n div 10" by (simp add: pos_imp_zdiv_pos_iff)
    with 1 False show ?thesis by (subst str_int.simps) auto
  qed
qed

lemma read_dec_ascii: "read_dec (ascii s) = read_digits s"
proof -
  have "int (of_char c) = of_char c" for c :: char by (rule of_nat_of_char)
  then show ?thesis by (simp add: read_dec_def read_digits_def digit_val_def ascii_def foldl_map)
qed

lemma is_dec_of_char: "is_dec (of_char c) \<longleftrightarrow> is_digit c"
proof -
  have "(of_char c :: int) = int (of_char c)" by (simp add: of_nat_of_char)
  then show ?thesis by (simp add: is_dec_def is_digit_def)
qed

text \<open>What may follow a value inside a document, or its end.\<close>

definition delimited :: "ustr \<Rightarrow> bool" where
  "delimited r \<longleftrightarrow> r = [] \<or> hd r \<in> {44, 93, 125}"

lemma delimited_parts:
  assumes "delimited r"
  shows "frac_part r = []" "exp_part r = None" "takeWhile is_dec r = []"
  using assms by (cases r; auto simp: delimited_def frac_part_def eat_def exp_part_def is_dec_def)+

lemma int_part_str_int:
  assumes "0 \<le> m" "delimited r"
  shows "int_part (ascii (str_int m) @ r) = Some (ascii (str_int m))"
proof (cases "m = 0")
  case True
  moreover have "str_int 0 = ''0''" by code_simp
  ultimately show ?thesis by (simp add: int_part_def)
next
  case False
  with assms(1) obtain d ds where d: "str_int m = digit_char d # ds" "0 < d" "d < 10"
    using str_int_first[of m] by auto
  have "is_dec c" if "c \<in> set (ascii (str_int m))" for c
    using that str_int_digits[OF assms(1)] by (auto simp: ascii_def is_dec_of_char)
  then have w: "takeWhile is_dec (ascii (str_int m) @ r) = ascii (str_int m)"
    using delimited_parts(3)[OF assms(2)] by (simp add: takeWhile_append2)
  have "(of_char (digit_char d) :: nat) \<noteq> 48"
  proof
    assume "(of_char (digit_char d) :: nat) = 48"
    then have "int (of_char (digit_char d)) = 48" by simp
    then have "(of_char (digit_char d) :: int) = 48" by (simp add: of_nat_of_char)
    with d show False by (simp add: of_digit_char)
  qed
  moreover have "is_dec (of_char (digit_char d))" using d by (simp add: is_dec_of_char)
  ultimately show ?thesis using w d(1) by (simp add: int_part_def)
qed

lemma scan_unsigned_str_int:
  assumes "0 \<le> m" "delimited r" "int (length (str_int m)) \<le> INT_MAX_STR_DIGITS"
  shows "scan_unsigned neg (ascii (str_int m) @ r) = Inr (JInt (if neg then - m else m), r)"
  using assms int_part_str_int[OF assms(1,2)] delimited_parts[OF assms(2)]
  by (simp add: scan_unsigned_def read_dec_ascii read_str_int Let_def)

lemma str_int_not_minus: "0 \<le> n \<Longrightarrow> eat 45 (ascii (str_int n) @ r) = None"
proof -
  assume n: "0 \<le> n"
  obtain c s where s: "str_int n = c # s" by (cases "str_int n") (auto simp: str_int.simps[of n] split: if_splits)
  with str_int_digits[OF n, of c] have "is_dec (of_char c)" by (simp add: is_dec_of_char)
  with s show ?thesis by (auto simp: eat_def is_dec_def)
qed

lemma scan_dump_int:
  assumes "delimited r" "int (length (str_int \<bar>n\<bar>)) \<le> INT_MAX_STR_DIGITS"
  shows "scan_number (dump_int n @ r) = Inr (JInt n, r)"
proof (cases "n < 0")
  case True
  with assms show ?thesis
    by (simp add: scan_number_def dump_int_def eat_def scan_unsigned_str_int)
next
  case False
  with assms show ?thesis
    by (simp add: scan_number_def dump_int_def str_int_not_minus scan_unsigned_str_int)
qed

text \<open>The first character tells the kinds of documents apart.\<close>

lemma dump_int_first:
  "\<exists>c s. dump_int n = c # s \<and> (c = 45 \<and> (\<exists>d t. s = d # t \<and> is_dec d) \<or> is_dec c)"
proof -
  obtain c s where s: "str_int \<bar>n\<bar> = c # s"
    by (cases "str_int \<bar>n\<bar>") (auto simp: str_int.simps[of "\<bar>n\<bar>"] split: if_splits)
  then have "is_dec (of_char c)" using str_int_digits[of "\<bar>n\<bar>" c] by (simp add: is_dec_of_char)
  with s show ?thesis by (cases "n < 0") (auto simp: dump_int_def)
qed

lemma scan_once_int:
  assumes "delimited r" "int (length (str_int \<bar>n\<bar>)) \<le> INT_MAX_STR_DIGITS"
  shows "scan_once (Suc f) d (dump_int n @ r) = Inr (JInt n, r)"
proof -
  from dump_int_first[of n] obtain c s where
    cs': "dump_int n = c # s \<and> (c = 45 \<and> (\<exists>d t. s = d # t \<and> is_dec d) \<or> is_dec c)" by (elim exE)
  note cs = conjunct1[OF cs'] conjunct2[OF cs']
  note cs(1)
  moreover have "c \<noteq> 110" "c \<noteq> 116" "c \<noteq> 102" "c \<noteq> 78" "c \<noteq> 73" "c = 45 \<Longrightarrow> \<exists>d t. s = d # t \<and> d \<noteq> 73"
    using cs(2) by (auto simp: is_dec_def)
  then have "eat_word ''null'' (c # s @ r) = None" "eat_word ''true'' (c # s @ r) = None"
    "eat_word ''false'' (c # s @ r) = None" "eat_word ''NaN'' (c # s @ r) = None"
    "eat_word ''Infinity'' (c # s @ r) = None"
    by (simp_all add: eat_word_Cons)
  moreover have "eat_word ''-Infinity'' (c # s @ r) = None"
  proof (cases "c = 45")
    case True
    with \<open>c = 45 \<Longrightarrow> _\<close> obtain d t where "s = d # t" "d \<noteq> 73" by blast
    then show ?thesis by (simp add: eat_word_Cons)
  qed (simp add: eat_word_Cons)
  moreover have "c \<noteq> 34" "c \<noteq> 123" "c \<noteq> 91" using cs(2) by (auto simp: is_dec_def)
  ultimately show ?thesis using scan_dump_int[OF assms] by simp
qed

lemma skip_ws_id: "s = c # t \<Longrightarrow> \<not> is_ws c \<Longrightarrow> skip_ws s = s"
  by (simp add: skip_ws_def)

lemma dumps_first:
  assumes "written fr d v"
  shows "\<exists>c s. dumps fr v = c # s \<and> \<not> is_ws c \<and> c \<notin> {93, 125, 44, 58, 0xFEFF}"
proof (cases v)
  case (JInt n)
  then show ?thesis using dump_int_first[of n] by (auto simp: is_dec_def is_ws_def)
qed (use assms in \<open>auto simp: is_ws_def dump_string_def non_finite_def\<close>)

text \<open>The constants are not taken for numbers or other words.\<close>

lemma scan_non_finite:
  "fr x \<in> set non_finite \<Longrightarrow> scan_once (Suc f) d (dumps fr (JFloat x) @ r) = Inl Json_ValueError"
  by (auto simp: non_finite_def eat_word_def)

text \<open>
  Scanning the text of \<open>v\<close> gives \<open>v\<close> or the \<open>ValueError\<close> of an ambiguous document, whatever may follow.
\<close>

definition reads_back :: "(double \<Rightarrow> ustr) \<Rightarrow> nat \<Rightarrow> json \<Rightarrow> bool" where
  "reads_back fr d v \<longleftrightarrow>
     (\<forall>f r. delimited r \<longrightarrow> 2 * length (dumps fr v) \<le> f \<longrightarrow>
        scan_once (Suc f) d (dumps fr v @ r) = (if unambiguous v then Inr (v, r) else Inl Json_ValueError))"

lemma reads_backD:
  assumes "reads_back fr d v" "delimited r" "2 * length (dumps fr v) < f"
  shows "scan_once f d (dumps fr v @ r) = (if unambiguous v then Inr (v, r) else Inl Json_ValueError)"
  using assms unfolding reads_back_def by (cases f) (auto simp del: scan_once.simps)

lemma commas_Cons: "xs \<noteq> [] \<Longrightarrow> commas (x # xs) = x @ 44 # 32 # commas xs"
  by (cases xs) auto

lemma skip_ws_value: "written fr d v \<Longrightarrow> skip_ws (32 # dumps fr v @ r) = dumps fr v @ r"
  "written fr d v \<Longrightarrow> skip_ws (dumps fr v @ r) = dumps fr v @ r"
  using dumps_first[of fr d v] by (auto simp: skip_ws_def is_ws_def)

lemma skip_ws_values:
  "written fr d v \<Longrightarrow> skip_ws (32 # commas (map (dumps fr) (v # vs)) @ r) = commas (map (dumps fr) (v # vs)) @ r"
  "written fr d v \<Longrightarrow> skip_ws (commas (map (dumps fr) (v # vs)) @ r) = commas (map (dumps fr) (v # vs)) @ r"
  using dumps_first[of fr d v] by (cases vs; auto simp: skip_ws_def is_ws_def)+

lemma scan_elements_dumps:
  assumes "vs \<noteq> []" "\<forall>v\<in>set vs. written fr d v \<and> reads_back fr d v"
    "2 * length (commas (map (dumps fr) vs)) + 2 \<le> f"
  shows "scan_elements f d (commas (map (dumps fr) vs) @ 93 # r) =
    (if list_all unambiguous vs then Inr (vs, r) else Inl Json_ValueError)"
  using assms
proof (induction vs arbitrary: f)
  case (Cons v vs)
  then obtain g where f: "f = Suc g" by (cases f) auto
  have ws: "skip_ws (93 # r) = 93 # r" "\<And>t. skip_ws (44 # t) = 44 # t" by (simp_all add: skip_ws_def is_ws_def)
  show ?case
  proof (cases "vs = []")
    case True
    have "scan_once g d (dumps fr v @ 93 # r) = (if unambiguous v then Inr (v, 93 # r) else Inl Json_ValueError)"
      using Cons.prems True f by (intro reads_backD) (auto simp: delimited_def)
    with True f ws show ?thesis by (simp add: eat_def)
  next
    case False
    with Cons.prems(2) obtain w us where vs: "vs = w # us" "written fr d w" by (cases vs) auto
    have len: "2 * length (dumps fr v) + 2 * length (commas (map (dumps fr) vs)) + 5 \<le> g"
      using Cons.prems(3) False f by (simp add: commas_Cons)
    have "scan_once g d (dumps fr v @ 44 # 32 # commas (map (dumps fr) vs) @ 93 # r)
        = (if unambiguous v then Inr (v, 44 # 32 # commas (map (dumps fr) vs) @ 93 # r) else Inl Json_ValueError)"
      using Cons.prems(2) len by (intro reads_backD) (auto simp: delimited_def)
    moreover have "scan_elements g d (commas (map (dumps fr) vs) @ 93 # r) =
        (if list_all unambiguous vs then Inr (vs, r) else Inl Json_ValueError)"
      using Cons.prems(2) False len by (intro Cons.IH) auto
    ultimately show ?thesis
      using False f ws skip_ws_values(1)[OF vs(2), of us "93 # r"] by (simp add: commas_Cons eat_def vs(1))
  qed
qed simp

definition dump_member :: "(double \<Rightarrow> ustr) \<Rightarrow> ustr \<times> json \<Rightarrow> ustr" where
  "dump_member fr = (\<lambda>(k, v). dump_string k @ [58, 32] @ dumps fr v)"

lemma skip_ws_members:
  "skip_ws (32 # commas (map (dump_member fr) (m # ms)) @ r) = commas (map (dump_member fr) (m # ms)) @ r"
  "skip_ws (commas (map (dump_member fr) (m # ms)) @ r) = commas (map (dump_member fr) (m # ms)) @ r"
  "eat 125 (commas (map (dump_member fr) (m # ms)) @ r) = None"
  by (cases ms; cases m; simp add: skip_ws_def is_ws_def dump_member_def dump_string_def eat_def)+

lemma scan_member:
  assumes "list_all is_scalar k" "written fr d v" "reads_back fr d v" "2 * length (dumps fr v) < g" "delimited t"
  shows "scan_members (Suc g) d (dump_member fr (k, v) @ t) =
    (if \<not> unambiguous v then Inl Json_ValueError
     else case (eat 125 (skip_ws t), eat 44 (skip_ws t)) of
       (Some r, _) \<Rightarrow> Inr ([(k, v)], r)
     | (None, Some s5) \<Rightarrow>
         (case scan_members g d (skip_ws s5) of Inl e \<Rightarrow> Inl e | Inr (ms, r) \<Rightarrow> Inr ((k, v) # ms, r))
     | _ \<Rightarrow> Inl Json_ValueError)"
proof -
  have "scan_string (concat (map escape_char k) @ 34 # 58 # 32 # dumps fr v @ t) = Some (k, 58 # 32 # dumps fr v @ t)"
    using scan_dump_string[OF assms(1)] .
  moreover have "skip_ws (58 # 32 # dumps fr v @ t) = 58 # 32 # dumps fr v @ t"
    by (simp add: skip_ws_def is_ws_def)
  ultimately show ?thesis
    using reads_backD[OF assms(3,5,4)] skip_ws_value(1)[OF assms(2)]
    by (simp add: dump_member_def dump_string_def eat_def)
qed

lemma scan_members_dumps:
  assumes "ms \<noteq> []"
    "\<forall>(k, v)\<in>set ms. list_all is_scalar k \<and> written fr d v \<and> reads_back fr d v"
    "2 * length (commas (map (dump_member fr) ms)) \<le> f"
  shows "scan_members f d (commas (map (dump_member fr) ms) @ 125 # r) =
    (if list_all (\<lambda>(k, v). unambiguous v) ms then Inr (ms, r) else Inl Json_ValueError)"
  using assms
proof (induction ms arbitrary: f)
  case (Cons m ms)
  obtain k v where m: "m = (k, v)" by (cases m)
  have long: "length (dumps fr v) < length (dump_member fr m)" by (simp add: dump_member_def m dump_string_def)
  have mine: "list_all is_scalar k" "written fr d v" "reads_back fr d v" using Cons.prems(2) m by auto
  have ws: "skip_ws (125 # r) = 125 # r" "\<And>t. skip_ws (44 # t) = 44 # t" by (simp_all add: skip_ws_def is_ws_def)
  show ?case
  proof (cases "ms = []")
    case True
    with Cons.prems(3) long obtain g where "f = Suc g" "2 * length (dumps fr v) < g" by (cases f) auto
    with True ws scan_member[OF mine, of g "125 # r"] m show ?thesis by (simp add: eat_def delimited_def)
  next
    case False
    with Cons.prems(3) have len: "2 * length (dump_member fr m) + 2 * length (commas (map (dump_member fr) ms)) + 4 \<le> f"
      by (simp add: commas_Cons)
    with long obtain g where g: "f = Suc g" "2 * length (dumps fr v) < g" by (cases f) auto
    have "scan_members g d (commas (map (dump_member fr) ms) @ 125 # r) =
        (if list_all (\<lambda>(k, v). unambiguous v) ms then Inr (ms, r) else Inl Json_ValueError)"
      using Cons.prems(2) False len g by (intro Cons.IH) auto
    moreover obtain m' ms' where ms: "ms = m' # ms'" using False by (cases ms) auto
    ultimately show ?thesis
      using g ws scan_member[OF mine g(2), of "44 # 32 # commas (map (dump_member fr) ms) @ 125 # r"] m
        skip_ws_members(1)[of fr m' ms' "125 # r"] False
      by (simp add: eat_def delimited_def commas_Cons ms)
  qed
qed simp

lemma written_reads_back: "written fr d v \<Longrightarrow> reads_back fr d v"
proof (induction v arbitrary: d)
  case (JArr vs)
  then obtain d' where d: "d = Suc d'" "list_all (written fr d') vs" by (cases d) auto
  show ?case
  proof (cases vs)
    case Nil
    then show ?thesis by (simp add: reads_back_def d skip_ws_def is_ws_def eat_def)
  next
    case (Cons v us)
    have "\<forall>v\<in>set vs. written fr d' v \<and> reads_back fr d' v"
      using d(2) JArr.IH by (auto simp: list_all_iff)
    from scan_elements_dumps[OF _ this] Cons have
      "scan_elements f d' (commas (map (dumps fr) vs) @ 93 # r) =
         (if list_all unambiguous vs then Inr (vs, r) else Inl Json_ValueError)"
      if "2 * length (commas (map (dumps fr) vs)) + 2 \<le> f" for f r using that by simp
    moreover have "eat 93 (commas (map (dumps fr) vs) @ t) = None" for t
      using dumps_first[of fr d' v] d(2) Cons by (cases us) (auto simp: eat_def)
    moreover have "skip_ws (commas (map (dumps fr) vs) @ t) = commas (map (dumps fr) vs) @ t" for t
      using skip_ws_values(2)[of fr d' v us t] d(2) Cons by simp
    ultimately show ?thesis by (simp add: reads_back_def d(1))
  qed
next
  case (JObj ms)
  then obtain d' where d: "d = Suc d'"
    "list_all (\<lambda>(k, v). list_all is_scalar k \<and> written fr d' v) ms" by (cases d) auto
  have dumps: "dumps fr (JObj ms) = 123 # commas (map (dump_member fr) ms) @ [125]"
    by (simp add: dump_member_def)
  show ?case
  proof (cases ms)
    case Nil
    then show ?thesis by (simp add: reads_back_def d skip_ws_def is_ws_def eat_def)
  next
    case (Cons m us)
    have "\<forall>(k, v)\<in>set ms. list_all is_scalar k \<and> written fr d' v \<and> reads_back fr d' v"
      using d(2) JObj.IH by (fastforce simp: list_all_iff)
    from scan_members_dumps[OF _ this] Cons have
      "scan_members f d' (commas (map (dump_member fr) ms) @ 125 # r) =
         (if list_all (\<lambda>(k, v). unambiguous v) ms then Inr (ms, r) else Inl Json_ValueError)"
      if "2 * length (commas (map (dump_member fr) ms)) \<le> f" for f r using that by simp
    with skip_ws_members(2,3)[of fr m us, folded Cons] show ?thesis
      unfolding reads_back_def dumps by (simp add: d(1) object_pairs_hook_def)
  qed
next
  case (JInt n)
  then show ?case by (simp add: reads_back_def scan_once_int del: scan_once.simps)
next
  case (JFloat x)
  then show ?case
    using scan_non_finite[of fr x] by (simp add: reads_back_def del: scan_once.simps)
next
  case (JStr u)
  then show ?case by (simp add: reads_back_def dump_string_def scan_dump_string)
qed (auto simp: reads_back_def eat_word_def)

lemma loads_written:
  assumes "written fr limit v"
  shows "loads_strict limit (dumps fr v) = (if unambiguous v then Inr v else Inl Json_ValueError)"
proof -
  have "scan_once (2 * length (dumps fr v) + 1) limit (dumps fr v @ []) =
      (if unambiguous v then Inr (v, []) else Inl Json_ValueError)"
    by (rule reads_backD[OF written_reads_back[OF assms]]) (simp_all add: delimited_def)
  moreover obtain c s where "dumps fr v = c # s" "\<not> is_ws c" "c \<noteq> 0xFEFF"
    using dumps_first[OF assms] by auto
  ultimately show ?thesis
    by (simp add: loads_strict_def skip_ws_def eat_def del: scan_once.simps)
qed

lemma loads_dumps: "plain_json limit v \<Longrightarrow> loads_strict limit (dumps fr v) = Inr v"
  using plain_written[of limit v fr] by (simp add: loads_written)

end
