(* ===== verification/Job_Entry.thy ===== *)
theory Job_Entry
  imports Json_Writing
begin

text \<open>
  \<open>canonical_json.py\<close>: reading a Job Entry from raw bytes, the walk that checks the I-JSON rules,
  canonicalization and the payload digest.  \<open>rfc8785\<close> and \<open>sha256_hex\<close> stand for the third-party
  \<open>rfc8785.dumps\<close> (\<open>None\<close> is its \<open>CanonicalizationError\<close>) and \<open>hashlib.sha256(...).hexdigest()\<close>;
  \<open>limit\<close> and \<open>frames\<close> are how deep the C scanner and Python's own calls may nest.
\<close>

definition INT_MIN :: int where
  "INT_MIN = - (2 ^ 53) + 1"

definition INT_MAX :: int where
  "INT_MAX = 2 ^ 53 - 1"

definition MAX_JOB_ENTRY_BYTES :: int where
  "MAX_JOB_ENTRY_BYTES = 1024 * 1024"

text \<open>\<open>JobEntryValidationError\<close>, and the \<open>RecursionError\<close> that nothing here catches.\<close>

datatype entry_error = JobEntryValidationError | Entry_RecursionError

fun first_error :: "'e option list \<Rightarrow> 'e option" where
  "first_error [] = None"
| "first_error (None # es) = first_error es"
| "first_error (Some e # es) = Some e"

definition validate_string :: "nat \<Rightarrow> ustr \<Rightarrow> entry_error option" where
  "validate_string frames value =
     (if frames = 0 then Some Entry_RecursionError
      else case encode_utf8 value of None \<Rightarrow> Some JobEntryValidationError | Some _ \<Rightarrow> None)"

text \<open>The checks of an \<open>int\<close> and of a \<open>float\<close>, where \<open>value == int(value)\<close> asks for a whole number.\<close>

definition int_ok :: "int \<Rightarrow> bool" where
  "int_ok n \<longleftrightarrow> INT_MIN \<le> n \<and> n \<le> INT_MAX"

fun float_ok :: "double \<Rightarrow> bool" where
  "float_ok (Infinite neg) \<longleftrightarrow> False"
| "float_ok (Double neg n d) \<longleftrightarrow>
     \<not> (n mod d = 0 \<and> \<not> int_ok (if neg then - (n div d) else n div d))"

fun validate_ijson :: "nat \<Rightarrow> json \<Rightarrow> entry_error option" where
  "validate_ijson 0 value = Some Entry_RecursionError"
| "validate_ijson (Suc frames) (JObj ms) =
     first_error (concat (map (\<lambda>(k, v). [validate_string frames k, validate_ijson frames v]) ms))"
| "validate_ijson (Suc frames) (JArr vs) = first_error (map (validate_ijson frames) vs)"
| "validate_ijson (Suc frames) (JBool b) = None"
| "validate_ijson (Suc frames) JNull = None"
| "validate_ijson (Suc frames) (JInt n) = (if int_ok n then None else Some JobEntryValidationError)"
| "validate_ijson (Suc frames) (JFloat x) = (if float_ok x then None else Some JobEntryValidationError)"
| "validate_ijson (Suc frames) (JStr u) = validate_string frames u"

definition parse_job_entry :: "nat \<Rightarrow> nat \<Rightarrow> string \<Rightarrow> entry_error + json" where
  "parse_job_entry limit frames raw =
     (case decode_utf8 raw of
        None \<Rightarrow> Inl JobEntryValidationError
      | Some doc \<Rightarrow>
          (case loads_strict limit doc of
             Inl Json_RecursionError \<Rightarrow> Inl Entry_RecursionError
           | Inl _ \<Rightarrow> Inl JobEntryValidationError
           | Inr (JObj ms) \<Rightarrow>
               (case validate_ijson frames (JObj ms) of
                  Some e \<Rightarrow> Inl e
                | None \<Rightarrow> Inr (JObj ms))
           | Inr _ \<Rightarrow> Inl JobEntryValidationError))"

definition canonicalize :: "(json \<Rightarrow> payload option) \<Rightarrow> json \<Rightarrow> entry_error + payload" where
  "canonicalize rfc8785 entry =
     (case rfc8785 entry of None \<Rightarrow> Inl JobEntryValidationError | Some bytes \<Rightarrow> Inr bytes)"

definition payload_digest :: "(payload \<Rightarrow> string) \<Rightarrow> payload \<Rightarrow> string" where
  "payload_digest sha256_hex bytes = ''sha256:'' @ sha256_hex bytes"

section \<open>The specification: I-JSON\<close>

text \<open>
  RFC 7493 as the module's header states it: scalar texts, distinct member names, finite numbers
  whose whole values are in the exactly representable range.
\<close>

fun ijson :: "json \<Rightarrow> bool" where
  "ijson JNull \<longleftrightarrow> True"
| "ijson (JBool b) \<longleftrightarrow> True"
| "ijson (JInt n) \<longleftrightarrow> \<bar>n\<bar> < 2 ^ 53"
| "ijson (JFloat x) \<longleftrightarrow> (case x of Infinite _ \<Rightarrow> False | Double neg n d \<Rightarrow> \<not> n mod d = 0 \<or> \<bar>n div d\<bar> < 2 ^ 53)"
| "ijson (JStr u) \<longleftrightarrow> list_all is_scalar u"
| "ijson (JArr vs) \<longleftrightarrow> list_all ijson vs"
| "ijson (JObj ms) \<longleftrightarrow>
     distinct (map fst ms) \<and> list_all (\<lambda>(k, v). list_all is_scalar k \<and> ijson v) ms"

fun distinct_members :: "json \<Rightarrow> bool" where
  "distinct_members (JArr vs) \<longleftrightarrow> list_all distinct_members vs"
| "distinct_members (JObj ms) \<longleftrightarrow> distinct (map fst ms) \<and> list_all (\<lambda>(k, v). distinct_members v) ms"
| "distinct_members _ \<longleftrightarrow> True"

lemma first_error_None: "first_error es = None \<longleftrightarrow> (\<forall>e\<in>set es. e = None)"
  by (induction es rule: first_error.induct) auto

lemma validate_string_None: "validate_string frames u = None \<longleftrightarrow> 0 < frames \<and> list_all is_scalar u"
  by (simp add: validate_string_def encode_utf8_def)

lemma int_ok_abs: "int_ok n \<longleftrightarrow> \<bar>n\<bar> < 2 ^ 53"
  by (auto simp: int_ok_def INT_MIN_def INT_MAX_def)

lemma float_ok_iff:
  "float_ok x \<longleftrightarrow> (case x of Infinite _ \<Rightarrow> False | Double neg n d \<Rightarrow> \<not> n mod d = 0 \<or> \<bar>n div d\<bar> < 2 ^ 53)"
  by (cases x) (auto simp: int_ok_abs)

lemma validated_ijson: "validate_ijson frames v = None \<Longrightarrow> distinct_members v \<Longrightarrow> ijson v"
proof (induction frames v rule: validate_ijson.induct)
  case (2 frames ms)
  then show ?case by (fastforce simp: first_error_None list_all_iff validate_string_None)
qed (auto simp: first_error_None list_all_iff validate_string_None int_ok_abs float_ok_iff split: if_splits)

lemma scan_number_members: "scan_number s = Inr (v, r) \<Longrightarrow> distinct_members v"
  by (auto simp: scan_number_def scan_unsigned_def Let_def split: option.splits if_splits)

lemma scan_members_distinct:
  "scan_once f d s = Inr (v, r) \<Longrightarrow> distinct_members v"
  "scan_members f d s = Inr (ms, r) \<Longrightarrow> \<forall>m\<in>set ms. distinct_members (snd m)"
  "scan_elements f d s = Inr (vs, r) \<Longrightarrow> \<forall>w\<in>set vs. distinct_members w"
proof (induction f arbitrary: d s v ms vs r)
  case (Suc f)
  {
    case 1
    then show ?case
    proof (rule scan_once_cases)
      fix t d' ms assume "scan_members f d' (skip_ws t) = Inr (ms, r)" "object_pairs_hook ms = Inr v"
      with Suc.IH(2) show ?thesis
        by (fastforce simp: object_pairs_hook_def list_all_iff split: if_splits)
    next
      fix t d' vs assume "scan_elements f d' (skip_ws t) = Inr (vs, r)" "v = JArr vs"
      with Suc.IH(3) show ?thesis by (auto simp: list_all_iff)
    qed (auto dest: scan_number_members)
  next
    case 2
    then show ?case by (rule scan_members_cases) (auto dest: Suc.IH(1), (force dest: Suc.IH(1,2))+)
  next
    case 3
    then show ?case by (rule scan_elements_cases) (auto dest: Suc.IH(1), (force dest: Suc.IH(1,3))+)
  }
qed simp_all

lemma loads_strict_distinct: "loads_strict limit doc = Inr v \<Longrightarrow> distinct_members v"
  by (auto simp: loads_strict_def simp del: scan_once.simps dest: scan_members_distinct(1)
      split: if_splits sum.splits)

lemma parse_job_entry_cases:
  assumes "parse_job_entry limit frames raw = Inr v"
  obtains doc ms where "decode_utf8 raw = Some doc" "loads_strict limit doc = Inr v" "v = JObj ms"
    "validate_ijson frames v = None"
  using assms by (auto simp: parse_job_entry_def split: option.splits sum.splits json.splits json_error.splits)

section \<open>Acceptance\<close>

text \<open>How deep containers nest; a text inside one needs one more frame.\<close>

fun nesting :: "json \<Rightarrow> nat" where
  "nesting (JArr vs) = Suc (Max (insert 0 (set (map nesting vs))))"
| "nesting (JObj ms) = Suc (Max (insert 0 (set (map (\<lambda>(k, v). nesting v) ms))))"
| "nesting _ = 0"

lemma nesting_le:
  "w \<in> set vs \<Longrightarrow> nesting w < nesting (JArr vs)"
  "(k, w) \<in> set ms \<Longrightarrow> nesting w < nesting (JObj ms)"
  by (auto simp: less_Suc_eq_le intro!: Max_ge image_eqI[where x = "(k, w)"])

lemma first_error_set: "first_error es \<in> insert None (set es)"
  by (induction es rule: first_error.induct) auto

lemma validate_string_result: "0 < frames \<Longrightarrow> validate_string frames u \<in> {None, Some JobEntryValidationError}"
  by (auto simp: validate_string_def split: option.split)

lemma validate_result:
  "Suc (nesting v) < frames \<Longrightarrow> validate_ijson frames v \<in> {None, Some JobEntryValidationError}"
proof (induction frames v rule: validate_ijson.induct)
  case (2 frames ms)
  have "validate_string frames k \<in> {None, Some JobEntryValidationError}
      \<and> validate_ijson frames v \<in> {None, Some JobEntryValidationError}" if "(k, v) \<in> set ms" for k v
    using that nesting_le(2)[OF that] 2 validate_string_result[of frames k] by auto
  then show ?case
    using first_error_set[of "concat (map (\<lambda>(k, v). [validate_string frames k, validate_ijson frames v]) ms)"]
    by fastforce
next
  case (3 frames vs)
  have "validate_ijson frames v \<in> {None, Some JobEntryValidationError}" if "v \<in> set vs" for v
    using that nesting_le(1)[OF that] 3 by auto
  then show ?case using first_error_set[of "map (validate_ijson frames) vs"] by fastforce
qed (auto simp: validate_string_def split: option.split)

lemma ijson_validated: "Suc (nesting v) < frames \<Longrightarrow> ijson v \<Longrightarrow> validate_ijson frames v = None"
proof (induction frames v rule: validate_ijson.induct)
  case (2 frames ms)
  have "validate_string frames k = None \<and> validate_ijson frames v = None" if "(k, v) \<in> set ms" for k v
    using that nesting_le(2)[OF that] 2 by (auto simp: validate_string_None list_all_iff)
  then show ?case by (auto simp: first_error_None)
next
  case (3 frames vs)
  have "validate_ijson frames v = None" if "v \<in> set vs" for v
    using that nesting_le(1)[OF that] 3 by (auto simp: list_all_iff)
  then show ?case by (auto simp: first_error_None)
qed (auto simp: validate_string_None int_ok_abs float_ok_iff)

text \<open>
  C27. A Job Entry is accepted exactly when it is an I-JSON object: of raw bytes that are UTF-8 and
  that the strict parser reads as a value within the recursion limits, \<open>parse_job_entry\<close> returns
  that value if it is an object with distinct member names, scalar texts and exactly
  representable numbers at every level, and otherwise reports a validation error.
\<close>

theorem job_entry_is_accepted_iff_ijson:
  assumes "decode_utf8 raw = Some doc" "loads_strict limit doc = Inr v" "Suc (nesting v) < frames"
  shows "parse_job_entry limit frames raw =
    (if (\<exists>ms. v = JObj ms) \<and> ijson v then Inr v else Inl JobEntryValidationError)"
proof (cases "\<exists>ms. v = JObj ms")
  case True
  then have "parse_job_entry limit frames raw = (case validate_ijson frames v of Some e \<Rightarrow> Inl e | None \<Rightarrow> Inr v)"
    using assms(1,2) by (auto simp: parse_job_entry_def)
  moreover have "validate_ijson frames v = None \<longleftrightarrow> ijson v"
    using validated_ijson loads_strict_distinct[OF assms(2)] ijson_validated[OF assms(3)] by blast
  ultimately show ?thesis using True validate_result[OF assms(3)] by auto
next
  case False
  with assms(1,2) show ?thesis by (cases v) (auto simp: parse_job_entry_def)
qed

lemma witness_job_entry_is_accepted_iff_ijson:
  "parse_job_entry 2 5 ''{\"a\": [null, 9007199254740991]}''
     = Inr (JObj [([97], JArr [JNull, JInt 9007199254740991])])
   \<and> parse_job_entry 2 5 ''{\"a\": 9007199254740992}'' = Inl JobEntryValidationError"
proof
  have "decode_utf8 ''{\"a\": [null, 9007199254740991]}'' = Some (ascii ''{\"a\": [null, 9007199254740991]}'')"
    "loads_strict 2 (ascii ''{\"a\": [null, 9007199254740991]}'')
      = Inr (JObj [([97], JArr [JNull, JInt 9007199254740991])])" by code_simp+
  from job_entry_is_accepted_iff_ijson[OF this, of 5]
  show "parse_job_entry 2 5 ''{\"a\": [null, 9007199254740991]}''
      = Inr (JObj [([97], JArr [JNull, JInt 9007199254740991])])"
    by (simp add: is_scalar_def)
  have "decode_utf8 ''{\"a\": 9007199254740992}'' = Some (ascii ''{\"a\": 9007199254740992}'')"
    "loads_strict 2 (ascii ''{\"a\": 9007199254740992}'') = Inr (JObj [([97], JInt 9007199254740992)])"
    by code_simp+
  from job_entry_is_accepted_iff_ijson[OF this, of 5]
  show "parse_job_entry 2 5 ''{\"a\": 9007199254740992}'' = Inl JobEntryValidationError" by simp
qed

end
