(* ===== verification/Transport.thy ===== *)
theory Transport
  imports Job_Entry Outcomes
begin

text \<open>
  \<open>external/_transport.py\<close>: one HTTP request under one absolute deadline, and the readers of
  response headers and bodies both adapters share.  The network (\<open>exchange\<close>) is an input: what
  \<open>connect\<close>, \<open>request\<close>, \<open>getresponse\<close> and each \<open>read1\<close> do, and the readings of the monotonic
  clock, in microseconds.
\<close>

section \<open>One exchange\<close>

definition MAX_RESPONSE_BYTES :: nat where
  "MAX_RESPONSE_BYTES = 64 * 1024"

text \<open>
  What a socket or \<open>http.client\<close> call raises: an \<open>OSError\<close> (a \<open>TimeoutError\<close> is one) or an
  \<open>HTTPException\<close>.  Status line and headers are what \<open>getresponse\<close> has read.
\<close>

datatype net_fault = Net_OSError | Net_HTTPException

record response_head =
  head_status :: int
  head_content_type :: "string option"
  head_retry_after :: "string list"

record exchange =
  monotonic :: "nat \<Rightarrow> int"
  connect_fault :: "net_fault option"
  request_fault :: "net_fault option"
  got_head :: "net_fault + response_head"
  read1 :: "nat \<Rightarrow> nat \<Rightarrow> net_fault + string"

text \<open>\<open>TransportResponse\<close>; a body of \<open>None\<close> exceeded \<open>MAX_RESPONSE_BYTES\<close>.\<close>

record transport_response =
  status :: int
  content_type :: "string option"
  retry_after_headers :: "string list"
  body :: "string option"

datatype transport_outcome =
    TransportResponse transport_response
  | TransportConnectFailed
  | TransportFailed

text \<open>\<open>_apply_remaining_timeout\<close>: a \<open>TimeoutError\<close> once the deadline has passed.\<close>

definition apply_remaining_timeout :: "int \<Rightarrow> int \<Rightarrow> net_fault option" where
  "apply_remaining_timeout deadline now = (if deadline - now \<le> 0 then Some Net_OSError else None)"

text \<open>\<open>_read_bounded\<close>: read \<open>k\<close> is preceded by the clock reading \<open>k + 3\<close>.\<close>

function read_bounded :: "exchange \<Rightarrow> nat \<Rightarrow> int \<Rightarrow> nat \<Rightarrow> string \<Rightarrow> net_fault + string option" where
  "read_bounded x limit deadline k chunks =
     (case apply_remaining_timeout deadline (monotonic x (k + 3)) of
        Some e \<Rightarrow> Inl e
      | None \<Rightarrow>
          (case read1 x k (limit + 1 - length chunks) of
             Inl e \<Rightarrow> Inl e
           | Inr chunk \<Rightarrow>
               if chunk = [] then Inr (Some chunks)
               else if limit < length (chunks @ chunk) then Inr None
               else read_bounded x limit deadline (Suc k) (chunks @ chunk)))"
  by pat_completeness auto
termination
  by (relation "measure (\<lambda>(x, limit, deadline, k, chunks). limit + 1 - length chunks)")
    (auto simp: length_greater_0_conv[symmetric] simp del: length_greater_0_conv)

declare read_bounded.simps [simp del]

text \<open>
  \<open>send_request\<close>.  An \<open>HTTPException\<close> from \<open>request\<close> is not caught and leaves the adapter; one from
  \<open>connect\<close> cannot be an \<open>OSError\<close> either.
\<close>

definition send_request :: "exchange \<Rightarrow> int \<Rightarrow> exn + transport_outcome" where
  "send_request x timeout =
     (let deadline = monotonic x 0 + timeout
      in case connect_fault x of
           Some Net_OSError \<Rightarrow> Inr TransportConnectFailed
         | Some Net_HTTPException \<Rightarrow> Inl AdapterError
         | None \<Rightarrow>
             (case (apply_remaining_timeout deadline (monotonic x 1), request_fault x) of
                (Some _, _) \<Rightarrow> Inr TransportFailed
              | (None, Some Net_OSError) \<Rightarrow> Inr TransportFailed
              | (None, Some Net_HTTPException) \<Rightarrow> Inl AdapterError
              | (None, None) \<Rightarrow>
                  (case (apply_remaining_timeout deadline (monotonic x 2), got_head x) of
                     (Some _, _) \<Rightarrow> Inr TransportFailed
                   | (None, Inl _) \<Rightarrow> Inr TransportFailed
                   | (None, Inr head) \<Rightarrow>
                       (case read_bounded x MAX_RESPONSE_BYTES deadline 0 [] of
                          Inl _ \<Rightarrow> Inr TransportFailed
                        | Inr response_body \<Rightarrow>
                            Inr (TransportResponse
                              \<lparr>status = head_status head, content_type = head_content_type head,
                               retry_after_headers = head_retry_after head,
                               body = response_body\<rparr>)))))"

section \<open>Headers and bodies\<close>

text \<open>
  \<open>^application/json(?:\s*;\s*charset=utf-8)?$\<close> without regard to case, after \<open>strip()\<close>; the
  simulator's \<open>_CONTENT_TYPE_RE\<close> is the same expression.
\<close>

definition matches_json_type :: "string \<Rightarrow> bool" where
  "matches_json_type value =
     (let s = map lower value; n = length ''application/json''
      in take n s = ''application/json'' \<and>
         (drop n s = [] \<or>
          (case dropWhile is_space (drop n s) of
             c # t \<Rightarrow> c = CHR '';'' \<and> dropWhile is_space t = ''charset=utf-8''
           | [] \<Rightarrow> False)))"

definition has_json_content_type :: "string option \<Rightarrow> bool" where
  "has_json_content_type ctype =
     (case ctype of None \<Rightarrow> False | Some value \<Rightarrow> matches_json_type (strip value))"

text \<open>
  \<open>parse_json_object\<close>: the members of the object, or \<open>None\<close>.  Only \<open>ValueError\<close>s are caught, so a
  body nested past the scanner's recursion limit raises out of the adapter.
\<close>

type_synonym members = "(ustr \<times> json) list"

definition parse_json_object :: "nat \<Rightarrow> string \<Rightarrow> exn + members option" where
  "parse_json_object limit bytes =
     (case decode_utf8 bytes of
        None \<Rightarrow> Inr None
      | Some doc \<Rightarrow>
          (case loads_strict limit doc of
             Inl Json_RecursionError \<Rightarrow> Inl AdapterError
           | Inl _ \<Rightarrow> Inr None
           | Inr (JObj ms) \<Rightarrow> Inr (Some ms)
           | Inr _ \<Rightarrow> Inr None))"

definition has_keys :: "members \<Rightarrow> string list \<Rightarrow> bool" where
  "has_keys ms names \<longleftrightarrow> set (map fst ms) = set (map ascii names)"

definition member :: "members \<Rightarrow> string \<Rightarrow> json option" where
  "member ms name = map_of ms (ascii name)"

definition is_str :: "json option \<Rightarrow> bool" where
  "is_str v = (case v of Some (JStr _) \<Rightarrow> True | _ \<Rightarrow> False)"

definition parse_error_envelope :: "nat \<Rightarrow> string option \<Rightarrow> string list \<Rightarrow> exn + members option" where
  "parse_error_envelope limit response_body expected_keys =
     (case response_body of
        None \<Rightarrow> Inr None
      | Some bytes \<Rightarrow>
          (case parse_json_object limit bytes of
             Inl e \<Rightarrow> Inl e
           | Inr None \<Rightarrow> Inr None
           | Inr (Some ms) \<Rightarrow>
               if \<not> has_keys ms [''error''] then Inr None
               else (case member ms ''error'' of
                   Some (JObj err) \<Rightarrow>
                     if \<not> has_keys err expected_keys then Inr None
                     else if \<not> is_str (member err ''code'') \<or> \<not> is_str (member err ''message'') then Inr None
                     else Inr (Some err)
                 | _ \<Rightarrow> Inr None)))"

section \<open>What an exchange can have done\<close>

text \<open>
  A body that was accepted is within the limit, its last read found the end of the stream, and
  none of its reads began at or after the deadline.
\<close>

lemma read_bounded_some:
  "read_bounded x limit deadline k chunks = Inr (Some s) \<Longrightarrow> length chunks \<le> limit \<Longrightarrow>
     length s \<le> limit \<and>
     (\<exists>n\<ge>k. (\<exists>m. read1 x n m = Inr []) \<and> (\<forall>i\<in>{k..n}. monotonic x (i + 3) < deadline))"
proof (induction x limit deadline k chunks rule: read_bounded.induct)
  case (1 x limit deadline k chunks)
  note unfolded = "1.prems"(1)[unfolded read_bounded.simps[of x limit deadline k chunks]]
  from unfolded have step: "apply_remaining_timeout deadline (monotonic x (k + 3)) = None"
    by (auto split: option.splits)
  then have now: "monotonic x (k + 3) < deadline"
    by (simp add: apply_remaining_timeout_def split: if_splits)
  from unfolded step obtain chunk where chunk: "read1 x k (limit + 1 - length chunks) = Inr chunk"
    by (auto split: sum.splits)
  show ?case
  proof (cases "chunk = []")
    case True
    with unfolded step chunk have "s = chunks" by simp
    with True "1.prems"(2) now chunk show ?thesis by auto
  next
    case False
    with unfolded step chunk have fits: "\<not> limit < length (chunks @ chunk)"
      and rest: "read_bounded x limit deadline (Suc k) (chunks @ chunk) = Inr (Some s)"
      by (auto split: if_splits)
    from "1.IH"[OF step chunk False fits rest] fits obtain n m where n:
      "length s \<le> limit" "Suc k \<le> n" "read1 x n m = Inr []"
      "\<forall>i\<in>{Suc k..n}. monotonic x (i + 3) < deadline"
      by auto
    then have "\<forall>i\<in>{k..n}. monotonic x (i + 3) < deadline" using now by (auto simp: Suc_le_eq le_less)
    with n(1-3) show ?thesis by (meson Suc_leD)
  qed
qed

lemma send_request_connect:
  "send_request x timeout = Inr TransportConnectFailed \<longleftrightarrow> connect_fault x = Some Net_OSError"
  by (auto simp: send_request_def Let_def split: option.split net_fault.split sum.split)

lemma send_request_response:
  assumes "send_request x timeout = Inr (TransportResponse r)"
  obtains head where "got_head x = Inr head" "status r = head_status head"
    "content_type r = head_content_type head" "retry_after_headers r = head_retry_after head"
    "read_bounded x MAX_RESPONSE_BYTES (monotonic x 0 + timeout) 0 [] = Inr (body r)"
    "connect_fault x = None" "request_fault x = None"
    "monotonic x 1 < monotonic x 0 + timeout" "monotonic x 2 < monotonic x 0 + timeout"
  using assms
  by (auto simp: send_request_def Let_def apply_remaining_timeout_def
      split: option.splits net_fault.splits sum.splits if_splits)

lemma parse_json_object_distinct:
  "parse_json_object limit bytes = Inr (Some ms) \<Longrightarrow> distinct (map fst ms)"
  by (auto simp: parse_json_object_def dest: loads_strict_distinct
      split: option.splits sum.splits json_error.splits json.splits)

text \<open>Whatever is written as a JSON object is read back by \<open>parse_json_object\<close>.\<close>

lemma hex_char_ascii: "d < 16 \<Longrightarrow> hex_char d < 128"
  by (simp add: hex_char_def)

lemma unicode_escape_ascii:
  assumes "v < 0x10000" "p \<in> set (unicode_escape v)"
  shows "p < 128"
proof -
  have "v div 4096 < 16" using assms(1) by (simp add: div_less_iff_less_mult)
  moreover have "v div 256 mod 16 < 16" "v div 16 mod 16 < 16" "v mod 16 < 16" by simp_all
  ultimately show ?thesis
    using assms(2) hex_char_ascii unfolding unicode_escape_def by auto
qed

lemma escape_char_ascii:
  assumes "c < 0x110000" "p \<in> set (escape_char c)"
  shows "p < 128"
proof (cases "short_escape c")
  case (Some e)
  moreover from Some have "e < 128" by (auto simp: short_escape_def split: if_splits)
  ultimately show ?thesis using assms(2) by (auto simp: escape_char_def)
next
  case None
  define x where "x = c - 0x10000"
  have x: "x div 0x400 < 0x400" "x mod 0x400 < 0x400"
    using assms(1) by (simp_all add: x_def div_less_iff_less_mult)
  from None assms(2) consider "p \<le> 126" | "c < 0x10000" "p \<in> set (unicode_escape c)"
    | "p \<in> set (unicode_escape (0xD800 + x div 0x400))" | "p \<in> set (unicode_escape (0xDC00 + x mod 0x400))"
    by (auto simp: escape_char_def x_def split: if_splits)
  then show ?thesis
  proof cases
    case 3
    with x show ?thesis by (intro unicode_escape_ascii[OF _ 3]) simp
  next
    case 4
    with x show ?thesis by (intro unicode_escape_ascii[OF _ 4]) simp
  qed (auto dest: unicode_escape_ascii)
qed

lemma dump_string_ascii:
  "list_all is_scalar u \<Longrightarrow> p \<in> set (dump_string u) \<Longrightarrow> p < 128"
proof -
  assume u: "list_all is_scalar u" and p: "p \<in> set (dump_string u)"
  from p consider "p = 34" | c where "c \<in> set u" "p \<in> set (escape_char c)"
    by (auto simp: dump_string_def)
  then show ?thesis
  proof cases
    case 2
    with u have "c < 0x110000" by (auto simp: list_all_iff is_scalar_def)
    from escape_char_ascii[OF this 2(2)] show ?thesis .
  qed simp
qed

lemma commas_set: "set (commas xs) \<subseteq> {44, 32} \<union> \<Union> (set (map set xs))"
  by (induction xs rule: commas.induct) auto

lemma str_int_ascii: "0 \<le> n \<Longrightarrow> p \<in> set (ascii (str_int n)) \<Longrightarrow> p < 128"
  using str_int_digits[of n] by (fastforce simp: ascii_def is_dec_of_char[symmetric] is_dec_def)

lemma commas_ascii: "(\<And>x p. x \<in> set xs \<Longrightarrow> p \<in> set x \<Longrightarrow> p < 128) \<Longrightarrow> p \<in> set (commas xs) \<Longrightarrow> p < 128"
  using commas_set[of xs] by auto

lemma dumps_ascii: "written fr d v \<Longrightarrow> p \<in> set (dumps fr v) \<Longrightarrow> p < 128"
proof (induction v arbitrary: d p)
  case (JInt n)
  then show ?case using str_int_ascii[of "\<bar>n\<bar>" p] by (auto simp: dump_int_def split: if_splits)
next
  case (JArr vs)
  from JArr.prems(1) obtain d' where d: "list_all (written fr d') vs" by (auto split: nat.splits)
  have "q < 128" if "q \<in> set (commas (map (dumps fr) vs))" for q
    using that d JArr.IH by (intro commas_ascii[OF _ that]) (auto simp: list_all_iff)
  with JArr.prems(2) show ?case by auto
next
  case (JObj ms)
  from JObj.prems(1) obtain d' where d: "list_all (\<lambda>(k, v). list_all is_scalar k \<and> written fr d' v) ms"
    by (auto split: nat.splits)
  have item: "q < 128" if m: "(k, v) \<in> set ms" and q: "q \<in> set (dump_member fr (k, v))" for k v q
  proof -
    from d m have kv: "list_all is_scalar k" "written fr d' v" by (auto simp: list_all_iff)
    from q consider "q \<in> set (dump_string k)" | "q = 58 \<or> q = 32" | "q \<in> set (dumps fr v)"
      by (auto simp: dump_member_def)
    then show ?thesis
      using dump_string_ascii[OF kv(1)] JObj.IH[OF m _ kv(2)] by cases auto
  qed
  have "q < 128" if "q \<in> set (commas (map (dump_member fr) ms))" for q
    using item by (intro commas_ascii[OF _ that]) auto
  moreover have "dumps fr (JObj ms) = 123 # commas (map (dump_member fr) ms) @ [125]"
    by (simp add: dump_member_def)
  ultimately show ?case using JObj.prems(2) by auto
qed (auto simp: dump_string_ascii non_finite_def split: if_splits)

lemma written_bytes:
  assumes "written fr d v"
  shows "encode_utf8 (dumps fr v) = Some (octets (dumps fr v))"
  using dumps_ascii[OF assms] by (fastforce simp: encode_utf8_def list_all_iff is_scalar_def)

lemma read_written:
  assumes "written fr limit (JObj ms)"
  shows "parse_json_object limit (octets (dumps fr (JObj ms))) = Inr (if unambiguous (JObj ms) then Some ms else None)"
  using loads_written[OF assms] encode_decode_utf8[OF written_bytes[OF assms]]
  by (simp add: parse_json_object_def del: unambiguous.simps)

lemma read_written_object:
  "plain_json limit (JObj ms) \<Longrightarrow> parse_json_object limit (octets (dumps fr (JObj ms))) = Inr (Some ms)"
  using plain_written[of limit "JObj ms" fr] read_written[of fr limit ms]
  by (simp del: written.simps unambiguous.simps dumps.simps)

text \<open>
  C38. Strict parsing: of the objects \<open>json.dumps\<close> writes (nested at most \<open>limit\<close> containers deep,
  integers of at most 4300 digits, strings and names without surrogates, no float but \<open>NaN\<close> and the
  infinities) exactly those are read back in which, at every level, no member name repeats and no
  such constant occurs, and as they were; any other is a \<open>ValueError\<close> of \<open>loads_strict\<close> and a
  protocol failure (\<open>None\<close>) of the adapters' \<open>parse_json_object\<close>.
\<close>

theorem written_document_is_read_iff_unambiguous:
  assumes "written fr limit (JObj ms)"
  shows "loads_strict limit (dumps fr (JObj ms)) =
      (if unambiguous (JObj ms) then Inr (JObj ms) else Inl Json_ValueError)
    \<and> parse_json_object limit (octets (dumps fr (JObj ms))) =
      Inr (if unambiguous (JObj ms) then Some ms else None)"
  using loads_written[OF assms] read_written[OF assms] by (rule conjI)

definition escaped_document :: "(ustr \<times> json) list" where
  "escaped_document = [(ascii ''a'', JStr [34, 0x1F600, 10]), ([0xE9], JArr [JInt (- 12), JNull, JObj []])]"

text \<open>The same document with a repeated name, and with a constant, deep inside.\<close>

definition repeating_document :: "(ustr \<times> json) list" where
  "repeating_document = escaped_document @ [(ascii ''b'', JArr [JObj [([], JNull), ([], JNull)]])]"

definition infinite_document :: "(ustr \<times> json) list" where
  "infinite_document = escaped_document @ [(ascii ''b'', JArr [JFloat (Infinite True)])]"

lemma witness_written_document_is_read_iff_unambiguous:
  "parse_json_object 4 (octets (dumps (\<lambda>_. ascii ''-Infinity'') (JObj escaped_document))) = Inr (Some escaped_document)
     \<and> parse_json_object 4 (octets (dumps (\<lambda>_. ascii ''-Infinity'') (JObj repeating_document))) = Inr None
     \<and> parse_json_object 4 (octets (dumps (\<lambda>_. ascii ''-Infinity'') (JObj infinite_document))) = Inr None"
proof -
  let ?fr = "\<lambda>_ :: double. ascii ''-Infinity''"
  have four: "(4 :: nat) = Suc (Suc (Suc (Suc 0)))" by simp
  have w: "written ?fr 4 (JObj escaped_document)" "written ?fr 4 (JObj repeating_document)"
    "written ?fr 4 (JObj infinite_document)"
    unfolding four repeating_document_def infinite_document_def
    by (simp_all add: escaped_document_def is_scalar_def INT_MAX_STR_DIGITS_def str_int.simps non_finite_def)
  have u: "unambiguous (JObj escaped_document)" "\<not> unambiguous (JObj repeating_document)"
    "\<not> unambiguous (JObj infinite_document)"
    by (simp_all add: repeating_document_def infinite_document_def escaped_document_def)
  from w[THEN written_document_is_read_iff_unambiguous] u show ?thesis
    by (simp del: unambiguous.simps dumps.simps)
qed

section \<open>\<open>Retry-After\<close>\<close>

lemma digits_not_space: "is_digit c \<Longrightarrow> \<not> is_space c"
  by (auto simp: is_digit_def is_space_def)

lemma strip_digits: "\<forall>c\<in>set s. is_digit c \<Longrightarrow> strip s = s"
proof -
  assume "\<forall>c\<in>set s. is_digit c"
  then have "\<forall>c\<in>set s. \<not> is_space c" using digits_not_space by blast
  then have "dropWhile is_space t = t" if "set t = set s" for t using that by (cases t) auto
  then show ?thesis by (simp add: strip_def)
qed

text \<open>
  C39. The delay form of \<open>Retry-After\<close> is read exactly: up to an hour it is accepted as written,
  above it is too large, and with more than 4300 digits the conversion raises \<open>ValueError\<close>.
\<close>

theorem delay_seconds_are_exact:
  assumes "0 \<le> n"
  shows "parse_retry_after [str_int n] now =
    (if 4300 < length (str_int n) then Inl ValueError
     else if n \<le> 3600 then Inr (RetryAfterAccepted (1000 * n))
     else Inr (RetryAfterRejected Retry_after_too_large))"
proof -
  have digits: "\<forall>c\<in>set (str_int n). is_digit c" using assms str_int_digits by blast
  moreover have "str_int n \<noteq> []" by (subst str_int.simps) simp
  ultimately have "is_delta_seconds (str_int n)" by (simp add: is_delta_seconds_def)
  with negative_delta_not_delta show ?thesis
    by (auto simp: parse_retry_after_single strip_digits[OF digits] read_str_int[OF assms] accept_delay_ms_def
        MAX_SERVER_DELAY_MS_def)
qed

lemma witness_delay_seconds_are_exact:
  "parse_retry_after [''120''] 0 = Inr (RetryAfterAccepted 120000)
     \<and> parse_retry_after [''3601''] 0 = Inr (RetryAfterRejected Retry_after_too_large)"
proof -
  have "str_int 120 = ''120''" "str_int 3601 = ''3601''" by code_simp+
  with delay_seconds_are_exact[of 120 0] delay_seconds_are_exact[of 3601 0] show ?thesis by simp
qed

end
