(* ===== verification/Adapters.thy ===== *)
theory Adapters
  imports Transport
begin

text \<open>
  \<open>external/client.py\<close> and \<open>external/reconcile.py\<close>: one request each and the classification of
  the response it got.  \<open>limit\<close> is the nesting the JSON scanner follows.
\<close>

section \<open>Submission\<close>

definition is_string :: "json option \<Rightarrow> string \<Rightarrow> bool" where
  "is_string v s \<longleftrightarrow> v = Some (JStr (ascii s))"

definition success_fields :: "string list" where
  "success_fields = [''idempotency_key'', ''status'', ''payload_digest'', ''remote_request_id'', ''replayed'']"

definition classify_success ::
  "nat \<Rightarrow> transport_response \<Rightarrow> string \<Rightarrow> string \<Rightarrow> exn + submit_http_outcome" where
  "classify_success limit response expected_key expected_digest =
     (case body response of
        None \<Rightarrow> Inr SubmitHttpProtocolUncertain
      | Some bytes \<Rightarrow>
          if \<not> has_json_content_type (content_type response) then Inr SubmitHttpProtocolUncertain
          else (case parse_json_object limit bytes of
              Inl e \<Rightarrow> Inl e
            | Inr None \<Rightarrow> Inr SubmitHttpProtocolUncertain
            | Inr (Some parsed) \<Rightarrow>
                if \<not> has_keys parsed success_fields then Inr SubmitHttpProtocolUncertain
                else (case member parsed ''replayed'' of
                    Some (JBool replayed) \<Rightarrow>
                      if status response = 201 \<and> replayed then Inr SubmitHttpProtocolUncertain
                      else if status response = 200 \<and> \<not> replayed then Inr SubmitHttpProtocolUncertain
                      else if \<not> is_string (member parsed ''status'') ''processed'' then Inr SubmitHttpProtocolUncertain
                      else if \<not> is_string (member parsed ''idempotency_key'') expected_key
                      then Inr SubmitHttpProtocolUncertain
                      else if \<not> is_string (member parsed ''payload_digest'') expected_digest
                      then Inr SubmitHttpProtocolUncertain
                      else (case member parsed ''remote_request_id'' of
                          Some (JStr rid) \<Rightarrow> Inr (SubmitHttpSuccess (status response) (octets rid))
                        | _ \<Rightarrow> Inr SubmitHttpProtocolUncertain)
                  | _ \<Rightarrow> Inr SubmitHttpProtocolUncertain)))"

definition classify_validation_rejected :: "nat \<Rightarrow> transport_response \<Rightarrow> exn + submit_http_outcome" where
  "classify_validation_rejected limit response =
     (case parse_error_envelope limit (body response) [''code'', ''message''] of
        Inl e \<Rightarrow> Inl e
      | Inr None \<Rightarrow> Inr SubmitHttpProtocolUncertain
      | Inr (Some _) \<Rightarrow> Inr SubmitHttpValidationRejected)"

definition conflict_fields :: "string list" where
  "conflict_fields = [''code'', ''message'', ''stored_payload_digest'', ''submitted_payload_digest'']"

definition classify_idempotency_conflict ::
  "nat \<Rightarrow> transport_response \<Rightarrow> string \<Rightarrow> exn + submit_http_outcome" where
  "classify_idempotency_conflict limit response expected_digest =
     (case parse_error_envelope limit (body response) conflict_fields of
        Inl e \<Rightarrow> Inl e
      | Inr None \<Rightarrow> Inr SubmitHttpProtocolUncertain
      | Inr (Some err) \<Rightarrow>
          if \<not> is_string (member err ''code'') ''idempotency_conflict'' then Inr SubmitHttpProtocolUncertain
          else if \<not> is_string (member err ''submitted_payload_digest'') expected_digest
          then Inr SubmitHttpProtocolUncertain
          else if \<not> is_str (member err ''stored_payload_digest'') then Inr SubmitHttpProtocolUncertain
          else Inr SubmitHttpIdempotencyConflict)"

definition classify_rate_limited :: "nat \<Rightarrow> transport_response \<Rightarrow> exn + submit_http_outcome" where
  "classify_rate_limited limit response =
     (case parse_error_envelope limit (body response) [''code'', ''message''] of
        Inl e \<Rightarrow> Inl e
      | Inr None \<Rightarrow> Inr SubmitHttpProtocolUncertain
      | Inr (Some err) \<Rightarrow>
          if \<not> is_string (member err ''code'') ''rate_limited'' then Inr SubmitHttpProtocolUncertain
          else Inr (SubmitHttpRateLimited (retry_after_headers response)))"

definition classify_response ::
  "nat \<Rightarrow> transport_response \<Rightarrow> string \<Rightarrow> string \<Rightarrow> exn + submit_http_outcome" where
  "classify_response limit response expected_key expected_digest =
     (if status response \<in> {200, 201} then classify_success limit response expected_key expected_digest
      else if status response = 400 then classify_validation_rejected limit response
      else if status response = 409 then classify_idempotency_conflict limit response expected_digest
      else if status response = 429 then classify_rate_limited limit response
      else if 500 \<le> status response \<and> status response \<le> 599
      then Inr (SubmitHttpServerError (status response))
      else Inr SubmitHttpProtocolUncertain)"

definition DEFAULT_TIMEOUT_US :: int where
  "DEFAULT_TIMEOUT_US = 10000000"

definition submit_job_http :: "nat \<Rightarrow> exchange \<Rightarrow> string \<Rightarrow> string \<Rightarrow> exn + submit_http_outcome" where
  "submit_job_http limit x key expected_digest =
     (case send_request x DEFAULT_TIMEOUT_US of
        Inl e \<Rightarrow> Inl e
      | Inr TransportConnectFailed \<Rightarrow> Inr (SubmitHttpTransportFailure False)
      | Inr TransportFailed \<Rightarrow> Inr (SubmitHttpTransportFailure True)
      | Inr (TransportResponse response) \<Rightarrow> classify_response limit response key expected_digest)"

section \<open>Reconciliation\<close>

definition processed_fields :: "string list" where
  "processed_fields = [''idempotency_key'', ''status'', ''payload_digest'', ''remote_request_id'']"

definition not_found_fields :: "string list" where
  "not_found_fields = [''idempotency_key'', ''status'']"

definition classify_processed ::
  "nat \<Rightarrow> transport_response \<Rightarrow> string \<Rightarrow> string \<Rightarrow> exn + reconcile_http_outcome" where
  "classify_processed limit response expected_key expected_digest =
     (case body response of
        None \<Rightarrow> Inr ReconcileProtocolUncertain
      | Some bytes \<Rightarrow>
          if \<not> has_json_content_type (content_type response) then Inr ReconcileProtocolUncertain
          else (case parse_json_object limit bytes of
              Inl e \<Rightarrow> Inl e
            | Inr None \<Rightarrow> Inr ReconcileProtocolUncertain
            | Inr (Some parsed) \<Rightarrow>
                if \<not> has_keys parsed processed_fields then Inr ReconcileProtocolUncertain
                else if \<not> is_string (member parsed ''status'') ''processed'' then Inr ReconcileProtocolUncertain
                else if \<not> is_string (member parsed ''idempotency_key'') expected_key
                then Inr ReconcileProtocolUncertain
                else (case (member parsed ''remote_request_id'', member parsed ''payload_digest'') of
                    (Some (JStr rid), Some (JStr digest)) \<Rightarrow>
                      if digest = ascii expected_digest then Inr (ReconcileMatch 200 (octets rid))
                      else Inr ReconcileConflict
                  | _ \<Rightarrow> Inr ReconcileProtocolUncertain)))"

definition classify_not_found ::
  "nat \<Rightarrow> transport_response \<Rightarrow> string \<Rightarrow> exn + reconcile_http_outcome" where
  "classify_not_found limit response expected_key =
     (case body response of
        None \<Rightarrow> Inr ReconcileProtocolUncertain
      | Some bytes \<Rightarrow>
          if \<not> has_json_content_type (content_type response) then Inr ReconcileProtocolUncertain
          else (case parse_json_object limit bytes of
              Inl e \<Rightarrow> Inl e
            | Inr None \<Rightarrow> Inr ReconcileProtocolUncertain
            | Inr (Some parsed) \<Rightarrow>
                if \<not> has_keys parsed not_found_fields then Inr ReconcileProtocolUncertain
                else if \<not> is_string (member parsed ''status'') ''not_found'' then Inr ReconcileProtocolUncertain
                else if \<not> is_string (member parsed ''idempotency_key'') expected_key
                then Inr ReconcileProtocolUncertain
                else Inr ReconcileNotFound))"

definition classify_reconcile_rate_limited ::
  "nat \<Rightarrow> transport_response \<Rightarrow> exn + reconcile_http_outcome" where
  "classify_reconcile_rate_limited limit response =
     (case parse_error_envelope limit (body response) [''code'', ''message''] of
        Inl e \<Rightarrow> Inl e
      | Inr None \<Rightarrow> Inr ReconcileProtocolUncertain
      | Inr (Some err) \<Rightarrow>
          if \<not> is_string (member err ''code'') ''rate_limited'' then Inr ReconcileProtocolUncertain
          else Inr (ReconcileRateLimited (retry_after_headers response)))"

definition classify_reconcile_response ::
  "nat \<Rightarrow> transport_response \<Rightarrow> string \<Rightarrow> string \<Rightarrow> exn + reconcile_http_outcome" where
  "classify_reconcile_response limit response expected_key expected_digest =
     (if status response = 200 then classify_processed limit response expected_key expected_digest
      else if status response = 404 then classify_not_found limit response expected_key
      else if status response = 429 then classify_reconcile_rate_limited limit response
      else if 500 \<le> status response \<and> status response \<le> 599
      then Inr (ReconcileServerError (status response))
      else Inr ReconcileProtocolUncertain)"

definition reconcile_job_http :: "nat \<Rightarrow> exchange \<Rightarrow> string \<Rightarrow> string \<Rightarrow> exn + reconcile_http_outcome" where
  "reconcile_job_http limit x key expected_digest =
     (case send_request x DEFAULT_TIMEOUT_US of
        Inl e \<Rightarrow> Inl e
      | Inr TransportConnectFailed \<Rightarrow> Inr ReconcileTransportFailure
      | Inr TransportFailed \<Rightarrow> Inr ReconcileTransportFailure
      | Inr (TransportResponse response) \<Rightarrow>
          classify_reconcile_response limit response key expected_digest)"

section \<open>The adapters keep their promises\<close>

lemmas submit_classifiers =
  classify_response_def classify_success_def classify_validation_rejected_def
  classify_idempotency_conflict_def classify_rate_limited_def

lemmas reconcile_classifiers =
  classify_reconcile_response_def classify_processed_def classify_not_found_def
  classify_reconcile_rate_limited_def

lemma classify_success_result:
  assumes "classify_success limit response key digest = Inr out"
  shows "out = SubmitHttpProtocolUncertain \<or> (\<exists>rid. out = SubmitHttpSuccess (status response) rid)"
  using assms by (auto simp: classify_success_def split: option.splits sum.splits json.splits if_splits)

lemma classify_success_evidence:
  assumes "classify_success limit response key digest = Inr (SubmitHttpSuccess s rid)"
    "status response \<in> {200, 201}"
  obtains bytes parsed rid' where "body response = Some bytes" "s = status response"
    "has_json_content_type (content_type response)"
    "parse_json_object limit bytes = Inr (Some parsed)" "has_keys parsed success_fields"
    "member parsed ''replayed'' = Some (JBool (s = 200))"
    "is_string (member parsed ''status'') ''processed''"
    "is_string (member parsed ''idempotency_key'') key"
    "is_string (member parsed ''payload_digest'') digest"
    "member parsed ''remote_request_id'' = Some (JStr rid')" "rid = octets rid'"
  using assms by (auto simp: classify_success_def split: option.splits sum.splits json.splits if_splits)

lemma classify_response_cases:
  assumes "classify_response limit response key digest = Inr out"
  shows "submit_outcome_ok out" "\<And>b. out \<noteq> SubmitHttpTransportFailure b"
    "out = SubmitHttpSuccess s rid \<Longrightarrow> classify_success limit response key digest = Inr out
       \<and> status response \<in> {200, 201}"
proof -
  consider "status response \<in> {200, 201}" "classify_success limit response key digest = Inr out"
    | "status response = 400" "classify_validation_rejected limit response = Inr out"
    | "status response = 409" "classify_idempotency_conflict limit response digest = Inr out"
    | "status response = 429" "classify_rate_limited limit response = Inr out"
    | "500 \<le> status response" "status response \<le> 599" "out = SubmitHttpServerError (status response)"
    | "out = SubmitHttpProtocolUncertain"
    using assms by (auto simp: classify_response_def split: if_splits)
  then have "submit_outcome_ok out \<and> (\<forall>b. out \<noteq> SubmitHttpTransportFailure b) \<and>
    (out = SubmitHttpSuccess s rid \<longrightarrow> classify_success limit response key digest = Inr out
       \<and> status response \<in> {200, 201})"
  proof cases
    case 1
    with classify_success_result[OF 1(2)] show ?thesis by auto
  qed (auto simp: classify_validation_rejected_def classify_idempotency_conflict_def
      classify_rate_limited_def split: option.splits sum.splits if_splits)
  then show "submit_outcome_ok out" "\<And>b. out \<noteq> SubmitHttpTransportFailure b"
    "out = SubmitHttpSuccess s rid \<Longrightarrow> classify_success limit response key digest = Inr out
       \<and> status response \<in> {200, 201}" by auto
qed

lemma submit_job_http_ok: "submit_job_http limit x key digest = Inr out \<Longrightarrow> submit_outcome_ok out"
  by (auto simp: submit_job_http_def dest: classify_response_cases(1)
      split: sum.splits transport_outcome.splits)

lemma reconcile_job_http_ok:
  assumes "reconcile_job_http limit x key digest = Inr out"
  shows "reconcile_outcome_ok out"
  using assms
  by (auto simp: reconcile_job_http_def reconcile_classifiers Let_def
      split: sum.splits transport_outcome.splits option.splits json.splits if_splits)

text \<open>
  A submission is proved never sent only when the connection could not be made: of all the
  outcomes \<open>submit_job\<close> reports, \<open>dispatch_may_have_begun=False\<close> appears exactly when
  \<open>connect\<close> failed, so every response that arrived, whatever it holds, counts as maybe sent.
\<close>

lemma not_sent_iff_never_connected:
  "submit_job_http limit x key digest = Inr (SubmitHttpTransportFailure False)
   \<longleftrightarrow> connect_fault x = Some Net_OSError"
proof -
  have "classify_response limit r key digest \<noteq> Inr (SubmitHttpTransportFailure False)" for r
    using classify_response_cases(2) by blast
  then show ?thesis
    using send_request_connect[of x DEFAULT_TIMEOUT_US]
    by (auto simp: submit_job_http_def split: sum.split transport_outcome.split)
qed

text \<open>
  C17. A success is believed only on complete evidence: the response arrived within the deadline as
  a 200 or 201 with a JSON content type and a body of at most 64 KiB, which is an object with
  exactly the five documented members, names this key and this payload digest, says \<open>processed\<close>
  and reports \<open>replayed\<close> as the status demands; the reported remote request id is the body's.
\<close>

theorem success_needs_complete_evidence:
  assumes "submit_job_http limit x key digest = Inr (SubmitHttpSuccess s rid)"
  shows "\<exists>head bytes parsed rid'. got_head x = Inr head \<and> s = head_status head \<and> s \<in> {200, 201}
    \<and> has_json_content_type (head_content_type head)
    \<and> read_bounded x MAX_RESPONSE_BYTES (monotonic x 0 + DEFAULT_TIMEOUT_US) 0 [] = Inr (Some bytes)
    \<and> length bytes \<le> 65536
    \<and> (\<exists>n m. read1 x n m = Inr [] \<and> (\<forall>i\<le>n. monotonic x (i + 3) < monotonic x 0 + 10000000))
    \<and> parse_json_object limit bytes = Inr (Some parsed) \<and> distinct (map fst parsed)
    \<and> set (map fst parsed) = set (map ascii success_fields)
    \<and> map_of parsed (ascii ''status'') = Some (JStr (ascii ''processed''))
    \<and> map_of parsed (ascii ''idempotency_key'') = Some (JStr (ascii key))
    \<and> map_of parsed (ascii ''payload_digest'') = Some (JStr (ascii digest))
    \<and> map_of parsed (ascii ''replayed'') = Some (JBool (s = 200))
    \<and> map_of parsed (ascii ''remote_request_id'') = Some (JStr rid') \<and> rid = octets rid'"
proof -
  from assms obtain r where r: "send_request x DEFAULT_TIMEOUT_US = Inr (TransportResponse r)"
    "classify_response limit r key digest = Inr (SubmitHttpSuccess s rid)"
    by (auto simp: submit_job_http_def split: sum.splits transport_outcome.splits)
  from classify_response_cases(3)[OF r(2) refl] have
    c: "classify_success limit r key digest = Inr (SubmitHttpSuccess s rid)" "status r \<in> {200, 201}" by auto
  from classify_success_evidence[OF c] obtain bytes parsed rid' where e: "body r = Some bytes" "s = status r"
    "has_json_content_type (content_type r)"
    "parse_json_object limit bytes = Inr (Some parsed)" "has_keys parsed success_fields"
    "member parsed ''replayed'' = Some (JBool (s = 200))"
    "is_string (member parsed ''status'') ''processed''"
    "is_string (member parsed ''idempotency_key'') key"
    "is_string (member parsed ''payload_digest'') digest"
    "member parsed ''remote_request_id'' = Some (JStr rid')" "rid = octets rid'" .
  from send_request_response[OF r(1)] obtain head where h: "got_head x = Inr head" "status r = head_status head"
    "content_type r = head_content_type head"
    "read_bounded x MAX_RESPONSE_BYTES (monotonic x 0 + DEFAULT_TIMEOUT_US) 0 [] = Inr (body r)" .
  from read_bounded_some[OF h(4)[unfolded e(1)]] have "length bytes \<le> 65536"
    "\<exists>n m. read1 x n m = Inr [] \<and> (\<forall>i\<le>n. monotonic x (i + 3) < monotonic x 0 + 10000000)"
    by (auto simp: MAX_RESPONSE_BYTES_def DEFAULT_TIMEOUT_US_def)
  with e h c(2) parse_json_object_distinct[OF e(4)] show ?thesis
    by (intro exI[of _ head] exI[of _ bytes] exI[of _ parsed] exI[of _ rid'])
       (simp add: has_keys_def member_def is_string_def)
qed

definition sample_exchange :: "int \<Rightarrow> string list \<Rightarrow> string \<Rightarrow> exchange" where
  "sample_exchange code retry_after bytes =
     \<lparr>monotonic = int, connect_fault = None, request_fault = None,
      got_head = Inr \<lparr>head_status = code, head_content_type = Some ''application/json'',
        head_retry_after = retry_after\<rparr>,
      read1 = (\<lambda>k n. Inr (if k = 0 then bytes else []))\<rparr>"

definition success_document :: json where
  "success_document = JObj [(ascii ''idempotency_key'', JStr (ascii ''k'')), (ascii ''status'', JStr (ascii ''processed'')),
     (ascii ''payload_digest'', JStr (ascii ''d'')), (ascii ''remote_request_id'', JStr (ascii ''r'')),
     (ascii ''replayed'', JBool False)]"

lemma witness_success_needs_complete_evidence:
  "\<exists>rid. submit_job_http 2 (sample_exchange 201 [] (octets (dumps (\<lambda>_. []) success_document))) ''k'' ''d''
     = Inr (SubmitHttpSuccess 201 rid) \<and> rid = ''r''"
proof -
  have "submit_job_http 2 (sample_exchange 201 [] (octets (dumps (\<lambda>_. []) success_document))) ''k'' ''d''
      = Inr (SubmitHttpSuccess 201 ''r'')" by code_simp
  from success_needs_complete_evidence[OF this] this show ?thesis by blast
qed

end
