(* ===== verification/Scenario.thy ===== *)
theory Scenario
  imports Job_Entry
begin

text \<open>
  \<open>simulator/scenario.py\<close>: the validation of a scenario plan and the action it selects for the
  n-th request of an operation and key.  Operations and presets keep the source's names.
\<close>

definition SUBMISSION :: string where
  "SUBMISSION = ''submission''"

definition RECONCILIATION :: string where
  "RECONCILIATION = ''reconciliation''"

definition WILDCARD_KEY :: string where
  "WILDCARD_KEY = ''*''"

definition MAX_PLAN_BYTES :: nat where
  "MAX_PLAN_BYTES = 1024 * 1024"

definition MAX_RULES :: nat where
  "MAX_RULES = 1000"

definition SCENARIO_OPERATIONS :: "(string \<times> string list) list" where
  "SCENARIO_OPERATIONS =
     [(''success'', [SUBMISSION, RECONCILIATION]),
      (''500_then_success'', [SUBMISSION]),
      (''429_then_success'', [SUBMISSION]),
      (''connect_timeout'', [SUBMISSION]),
      (''processed_then_disconnect'', [SUBMISSION]),
      (''processed_without_response'', [SUBMISSION]),
      (''processed_then_500'', [SUBMISSION]),
      (''duplicate_remote_request_id'', [SUBMISSION]),
      (''reconciliation_timeout'', [RECONCILIATION]),
      (''always_500'', [SUBMISSION, RECONCILIATION])]"

datatype plan_error = ScenarioPlanError | Plan_RecursionError

datatype action =
    NORMAL | RETURN_500 | RETURN_429 | TIMEOUT_NO_PROCESS
  | PROCESS_THEN_DISCONNECT | PROCESS_THEN_TIMEOUT | PROCESS_THEN_500

record scenario_plan =
  exact_rules :: "string \<times> string \<rightharpoonup> string"
  wildcard_rules :: "string \<rightharpoonup> string"

definition EMPTY_PLAN :: scenario_plan where
  "EMPTY_PLAN = \<lparr>exact_rules = Map.empty, wildcard_rules = Map.empty\<rparr>"

definition resolve :: "scenario_plan \<Rightarrow> string \<Rightarrow> string \<Rightarrow> string option" where
  "resolve plan operation key =
     (case exact_rules plan (operation, key) of
        Some scenario \<Rightarrow> Some scenario
      | None \<Rightarrow> wildcard_rules plan operation)"

section \<open>Validation\<close>

text \<open>A JSON text that is ASCII, as a string; the grammar of keys has no other characters.\<close>

definition ascii_text :: "json option \<Rightarrow> string option" where
  "ascii_text v = (case v of
     Some (JStr u) \<Rightarrow> if list_all (\<lambda>c. c < 128) u then Some (map char_of u) else None
   | _ \<Rightarrow> None)"

definition keys_are :: "(ustr \<times> json) list \<Rightarrow> string list \<Rightarrow> bool" where
  "keys_are ms names \<longleftrightarrow> set (map fst ms) = set (map ascii names)"

definition entry_of :: "(ustr \<times> json) list \<Rightarrow> string \<Rightarrow> json option" where
  "entry_of ms name = map_of ms (ascii name)"

text \<open>The checks on one rule: its operation, key and scenario, or \<open>None\<close> for the error.\<close>

definition validate_rule :: "json \<Rightarrow> (string \<times> string \<times> string) option" where
  "validate_rule entry = (case entry of
     JObj ms \<Rightarrow>
       if \<not> keys_are ms [''operation'', ''idempotency_key'', ''scenario''] then None
       else (case ascii_text (entry_of ms ''operation'') of
           None \<Rightarrow> None
         | Some operation \<Rightarrow>
             if operation \<noteq> SUBMISSION \<and> operation \<noteq> RECONCILIATION then None
             else (case ascii_text (entry_of ms ''idempotency_key'') of
                 None \<Rightarrow> None
               | Some key \<Rightarrow>
                   if key \<noteq> WILDCARD_KEY \<and> \<not> is_accepted_key key then None
                   else (case ascii_text (entry_of ms ''scenario'') of
                       None \<Rightarrow> None
                     | Some scenario \<Rightarrow>
                         (case map_of SCENARIO_OPERATIONS scenario of
                            None \<Rightarrow> None
                          | Some operations \<Rightarrow>
                              if operation \<in> set operations then Some (operation, key, scenario) else None))))
   | _ \<Rightarrow> None)"

fun add_rules :: "json list \<Rightarrow> (string \<times> string) list \<Rightarrow> scenario_plan \<Rightarrow> scenario_plan option" where
  "add_rules [] seen plan = Some plan"
| "add_rules (entry # entries) seen plan =
     (case validate_rule entry of
        None \<Rightarrow> None
      | Some (operation, key, scenario) \<Rightarrow>
          if (operation, key) \<in> set seen then None
          else add_rules entries ((operation, key) # seen)
            (if key = WILDCARD_KEY
             then plan\<lparr>wildcard_rules := (wildcard_rules plan)(operation \<mapsto> scenario)\<rparr>
             else plan\<lparr>exact_rules := (exact_rules plan)((operation, key) \<mapsto> scenario)\<rparr>))"

definition validate_document :: "json \<Rightarrow> scenario_plan option" where
  "validate_document document = (case document of
     JObj ms \<Rightarrow>
       if \<not> keys_are ms [''version'', ''rules''] then None
       else if entry_of ms ''version'' \<noteq> Some (JInt 1) then None
       else (case entry_of ms ''rules'' of
           Some (JArr rules) \<Rightarrow>
             if MAX_RULES < length rules then None else add_rules rules [] EMPTY_PLAN
         | _ \<Rightarrow> None)
   | _ \<Rightarrow> None)"

definition parse_scenario_plan :: "nat \<Rightarrow> string \<Rightarrow> plan_error + scenario_plan" where
  "parse_scenario_plan limit raw =
     (if MAX_PLAN_BYTES < length raw then Inl ScenarioPlanError
      else case decode_utf8 raw of
        None \<Rightarrow> Inl ScenarioPlanError
      | Some doc \<Rightarrow>
          (case loads_strict limit doc of
             Inl Json_RecursionError \<Rightarrow> Inl Plan_RecursionError
           | Inl _ \<Rightarrow> Inl ScenarioPlanError
           | Inr document \<Rightarrow>
               (case validate_document document of
                  None \<Rightarrow> Inl ScenarioPlanError | Some plan \<Rightarrow> Inr plan)))"

text \<open>\<open>load_scenario_plan\<close>: \<open>None\<close> is the \<open>OSError\<close> of reading the file.\<close>

definition load_scenario_plan :: "nat \<Rightarrow> string option \<Rightarrow> plan_error + scenario_plan" where
  "load_scenario_plan limit content =
     (case content of None \<Rightarrow> Inl ScenarioPlanError | Some raw \<Rightarrow> parse_scenario_plan limit raw)"

section \<open>Selecting an action\<close>

text \<open>\<open>None\<close> is the \<open>ScenarioPlanError\<close> at the end of the function.\<close>

definition resolve_action :: "string option \<Rightarrow> string \<Rightarrow> int \<Rightarrow> action option" where
  "resolve_action scenario operation ordinal =
     (case scenario of
        None \<Rightarrow> Some NORMAL
      | Some name \<Rightarrow>
          if name = ''success'' then Some NORMAL
          else if name = ''always_500'' then Some RETURN_500
          else if operation = SUBMISSION then
            (if name = ''500_then_success'' then Some (if ordinal = 1 then RETURN_500 else NORMAL)
             else if name = ''429_then_success'' then Some (if ordinal = 1 then RETURN_429 else NORMAL)
             else if name = ''connect_timeout'' then
               Some (if ordinal = 1 then TIMEOUT_NO_PROCESS else NORMAL)
             else if name = ''processed_then_disconnect'' then
               Some (if ordinal = 1 then PROCESS_THEN_DISCONNECT else NORMAL)
             else if name = ''processed_without_response'' then
               Some (if ordinal = 1 then PROCESS_THEN_TIMEOUT else NORMAL)
             else if name = ''processed_then_500'' then
               Some (if ordinal = 1 then PROCESS_THEN_500 else NORMAL)
             else if name = ''duplicate_remote_request_id'' then Some NORMAL
             else None)
          else if operation = RECONCILIATION then
            (if name = ''reconciliation_timeout'' then
               Some (if ordinal = 1 then TIMEOUT_NO_PROCESS else NORMAL)
             else None)
          else None)"

section \<open>A validated plan always selects an action\<close>

text \<open>Every rule of a plan names a preset that supports its operation.\<close>

definition supports :: "string \<Rightarrow> string \<Rightarrow> bool" where
  "supports scenario operation \<longleftrightarrow>
     (case map_of SCENARIO_OPERATIONS scenario of None \<Rightarrow> False | Some ops \<Rightarrow> operation \<in> set ops)"

definition plan_ok :: "scenario_plan \<Rightarrow> bool" where
  "plan_ok plan \<longleftrightarrow>
     (\<forall>operation key scenario. exact_rules plan (operation, key) = Some scenario \<longrightarrow>
        supports scenario operation \<and> is_accepted_key key)
     \<and> (\<forall>operation scenario. wildcard_rules plan operation = Some scenario \<longrightarrow> supports scenario operation)"

lemma validate_rule_ok:
  assumes "validate_rule entry = Some (operation, key, scenario)"
  shows "supports scenario operation" "operation = SUBMISSION \<or> operation = RECONCILIATION"
    "key = WILDCARD_KEY \<or> is_accepted_key key"
proof -
  from assms obtain ms operations where e: "entry = JObj ms"
    "ascii_text (entry_of ms ''operation'') = Some operation"
    "operation = SUBMISSION \<or> operation = RECONCILIATION"
    "key = WILDCARD_KEY \<or> is_accepted_key key"
    "map_of SCENARIO_OPERATIONS scenario = Some operations" "operation \<in> set operations"
    unfolding validate_rule_def
    by (auto split: json.splits option.splits if_split_asm simp del: map_of.simps)
  then show "supports scenario operation" "operation = SUBMISSION \<or> operation = RECONCILIATION"
    "key = WILDCARD_KEY \<or> is_accepted_key key" by (auto simp: supports_def)
qed

text \<open>What the rules of a document mean: a map from selectors to presets.\<close>

definition selector :: "string \<times> string \<times> string \<Rightarrow> string \<times> string" where
  "selector rule = (fst rule, fst (snd rule))"

definition rule_map :: "(string \<times> string \<times> string) list \<Rightarrow> string \<times> string \<rightharpoonup> string" where
  "rule_map rules = map_of (map (\<lambda>rule. (selector rule, snd (snd rule))) rules)"

lemma rule_map_simps:
  "rule_map [] = Map.empty"
  "rule_map ((operation, key, scenario) # rules) = (rule_map rules)((operation, key) \<mapsto> scenario)"
  by (simp_all add: rule_map_def selector_def)

lemma rule_map_None: "rule_map rules sel = None \<longleftrightarrow> sel \<notin> selector ` set rules"
  by (force simp: rule_map_def map_of_eq_None_iff)

lemma rule_map_Some: "rule_map rules (operation, key) = Some scenario \<Longrightarrow> (operation, key, scenario) \<in> set rules"
  by (auto simp: rule_map_def selector_def dest!: map_of_SomeD)

lemma add_rules_rules:
  "add_rules entries seen plan = Some plan' \<Longrightarrow>
     \<exists>rules. map validate_rule entries = map Some rules
       \<and> distinct (map selector rules) \<and> selector ` set rules \<inter> set seen = {}
       \<and> (\<forall>operation key. exact_rules plan' (operation, key) =
            (if key \<noteq> WILDCARD_KEY \<and> rule_map rules (operation, key) \<noteq> None
             then rule_map rules (operation, key) else exact_rules plan (operation, key)))
       \<and> (\<forall>operation. wildcard_rules plan' operation =
            (if rule_map rules (operation, WILDCARD_KEY) \<noteq> None
             then rule_map rules (operation, WILDCARD_KEY) else wildcard_rules plan operation))"
proof (induction entries seen plan rule: add_rules.induct)
  case (1 seen plan)
  then show ?case by (intro exI[of _ "[]"]) (simp add: rule_map_simps)
next
  case (2 entry entries seen plan)
  from "2.prems" obtain operation key scenario where
    v: "validate_rule entry = Some (operation, key, scenario)" "(operation, key) \<notin> set seen"
    by (auto split: option.splits if_splits)
  define plan1 where "plan1 =
    (if key = WILDCARD_KEY then plan\<lparr>wildcard_rules := (wildcard_rules plan)(operation \<mapsto> scenario)\<rparr>
     else plan\<lparr>exact_rules := (exact_rules plan)((operation, key) \<mapsto> scenario)\<rparr>)"
  from "2.prems" v have rest: "add_rules entries ((operation, key) # seen) plan1 = Some plan'"
    by (simp add: plan1_def)
  from "2.IH"[OF v(1) refl refl v(2), folded plan1_def, OF rest] obtain rules where r: "map validate_rule entries = map Some rules"
    "distinct (map selector rules)" "selector ` set rules \<inter> set ((operation, key) # seen) = {}"
    "\<forall>operation key. exact_rules plan' (operation, key) =
       (if key \<noteq> WILDCARD_KEY \<and> rule_map rules (operation, key) \<noteq> None
        then rule_map rules (operation, key) else exact_rules plan1 (operation, key))"
    "\<forall>operation. wildcard_rules plan' operation =
       (if rule_map rules (operation, WILDCARD_KEY) \<noteq> None
        then rule_map rules (operation, WILDCARD_KEY) else wildcard_rules plan1 operation)"
    by (elim exE conjE)
  from r(3) have fresh: "rule_map rules (operation, key) = None" by (simp add: rule_map_None)
  let ?rules = "(operation, key, scenario) # rules"
  have "map validate_rule (entry # entries) = map Some ?rules" "distinct (map selector ?rules)"
    "selector ` set ?rules \<inter> set seen = {}"
    using v r(1-3) by (auto simp: selector_def)
  moreover have "\<forall>o' k. exact_rules plan' (o', k) =
      (if k \<noteq> WILDCARD_KEY \<and> rule_map ?rules (o', k) \<noteq> None then rule_map ?rules (o', k)
       else exact_rules plan (o', k))"
    using r(4) fresh by (auto simp: rule_map_simps plan1_def)
  moreover have "\<forall>o'. wildcard_rules plan' o' =
      (if rule_map ?rules (o', WILDCARD_KEY) \<noteq> None then rule_map ?rules (o', WILDCARD_KEY)
       else wildcard_rules plan o')"
    using r(5) fresh by (auto simp: rule_map_simps plan1_def)
  ultimately show ?case by blast
qed

lemma validate_document_rules:
  assumes "validate_document document = Some plan"
  obtains ms entries rules where "document = JObj ms" "entry_of ms ''rules'' = Some (JArr entries)"
    "length entries \<le> 1000" "map validate_rule entries = map Some rules" "distinct (map selector rules)"
    "\<forall>operation key. key \<noteq> WILDCARD_KEY \<longrightarrow> exact_rules plan (operation, key) = rule_map rules (operation, key)"
    "\<forall>operation. exact_rules plan (operation, WILDCARD_KEY) = None"
    "\<forall>operation. wildcard_rules plan operation = rule_map rules (operation, WILDCARD_KEY)"
proof -
  from assms obtain ms entries where d: "document = JObj ms" "entry_of ms ''rules'' = Some (JArr entries)"
    "length entries \<le> 1000" "add_rules entries [] EMPTY_PLAN = Some plan"
    by (auto simp: validate_document_def MAX_RULES_def split: json.splits option.splits if_splits)
  from add_rules_rules[OF d(4)] obtain rules where "map validate_rule entries = map Some rules"
    "distinct (map selector rules)"
    "\<forall>operation key. exact_rules plan (operation, key) =
       (if key \<noteq> WILDCARD_KEY \<and> rule_map rules (operation, key) \<noteq> None
        then rule_map rules (operation, key) else None)"
    "\<forall>operation. wildcard_rules plan operation =
       (if rule_map rules (operation, WILDCARD_KEY) \<noteq> None
        then rule_map rules (operation, WILDCARD_KEY) else None)"
    by (auto simp: EMPTY_PLAN_def)
  with d(1-3) show thesis by (intro that[of ms entries rules]) (auto split: if_splits)
qed

lemma validated_rule_ok:
  "map validate_rule entries = map Some rules \<Longrightarrow> (operation, key, scenario) \<in> set rules \<Longrightarrow>
     supports scenario operation \<and> (key = WILDCARD_KEY \<or> is_accepted_key key)"
proof -
  assume m: "map validate_rule entries = map Some rules" and r: "(operation, key, scenario) \<in> set rules"
  then have "Some (operation, key, scenario) \<in> validate_rule ` set entries"
    by (metis image_eqI list.set_map)
  then obtain entry where "validate_rule entry = Some (operation, key, scenario)" by auto
  from validate_rule_ok[OF this] show ?thesis by blast
qed

lemma validate_document_ok: "validate_document document = Some plan \<Longrightarrow> plan_ok plan"
proof (erule validate_document_rules)
  fix ms entries rules
  assume m: "map validate_rule entries = map Some rules"
    and ex: "\<forall>operation key. key \<noteq> WILDCARD_KEY \<longrightarrow> exact_rules plan (operation, key) = rule_map rules (operation, key)"
    and none: "\<forall>operation. exact_rules plan (operation, WILDCARD_KEY) = None"
    and wild: "\<forall>operation. wildcard_rules plan operation = rule_map rules (operation, WILDCARD_KEY)"
  note ok = validated_rule_ok[OF m rule_map_Some]
  show "plan_ok plan" unfolding plan_ok_def
  proof (intro conjI allI impI)
    fix operation key scenario assume e: "exact_rules plan (operation, key) = Some scenario"
    with none have k: "key \<noteq> WILDCARD_KEY" by auto
    with e ex have "rule_map rules (operation, key) = Some scenario" by simp
    from ok[OF this] k show "supports scenario operation" "is_accepted_key key" by auto
  next
    fix operation scenario assume "wildcard_rules plan operation = Some scenario"
    with wild ok show "supports scenario operation" by auto
  qed
qed

lemma supported_action:
  assumes "supports scenario operation"
  shows "resolve_action (Some scenario) operation n \<noteq> None"
proof -
  have "list_all (\<lambda>(name, ops). list_all (\<lambda>op. resolve_action (Some name) op n \<noteq> None) ops) SCENARIO_OPERATIONS"
    by (simp add: SCENARIO_OPERATIONS_def resolve_action_def SUBMISSION_def RECONCILIATION_def)
  with assms show ?thesis
    by (fastforce simp: supports_def list_all_iff split: option.splits dest: map_of_SomeD)
qed

lemma plan_resolves:
  assumes "plan_ok plan"
  shows "resolve_action (resolve plan operation key) operation n \<noteq> None"
proof (cases "resolve plan operation key")
  case None
  then show ?thesis by (simp add: resolve_action_def)
next
  case (Some scenario)
  with assms have "supports scenario operation"
    by (auto simp: resolve_def plan_ok_def split: option.splits)
  with Some supported_action show ?thesis by simp
qed

lemma empty_plan_ok: "plan_ok EMPTY_PLAN"
  by (simp add: plan_ok_def EMPTY_PLAN_def)

lemma parsed_plan:
  assumes "parse_scenario_plan limit raw = Inr plan"
  obtains doc document where "decode_utf8 raw = Some doc" "loads_strict limit doc = Inr document"
    "validate_document document = Some plan" "length raw \<le> 1048576"
  using assms by (auto simp: parse_scenario_plan_def MAX_PLAN_BYTES_def
      split: if_splits option.splits sum.splits json_error.splits)

text \<open>
  C34. An accepted plan means what its document says and never fails at a request: its rules are
  valid and their selectors distinct, a key's own rule has precedence over the wildcard rule of
  the operation, and for every operation, key and ordinal an action is selected.
\<close>

theorem accepted_plan_is_total:
  assumes "parse_scenario_plan limit raw = Inr plan"
  shows "\<exists>doc ms entries rules. decode_utf8 raw = Some doc \<and> loads_strict limit doc = Inr (JObj ms)
    \<and> entry_of ms ''rules'' = Some (JArr entries) \<and> length entries \<le> 1000
    \<and> map validate_rule entries = map Some rules \<and> distinct (map selector rules)
    \<and> (\<forall>operation key n. key \<noteq> ''*'' \<longrightarrow>
         resolve plan operation key =
           (if rule_map rules (operation, key) \<noteq> None then rule_map rules (operation, key)
            else rule_map rules (operation, ''*''))
         \<and> resolve_action (resolve plan operation key) operation n \<noteq> None)"
proof -
  obtain doc document where d: "decode_utf8 raw = Some doc" "loads_strict limit doc = Inr document"
    "validate_document document = Some plan" using assms by (rule parsed_plan)
  from d(3) obtain ms entries rules where e: "document = JObj ms" "entry_of ms ''rules'' = Some (JArr entries)"
    "length entries \<le> 1000" "map validate_rule entries = map Some rules" "distinct (map selector rules)"
    "\<forall>operation key. key \<noteq> WILDCARD_KEY \<longrightarrow> exact_rules plan (operation, key) = rule_map rules (operation, key)"
    "\<forall>operation. exact_rules plan (operation, WILDCARD_KEY) = None"
    "\<forall>operation. wildcard_rules plan operation = rule_map rules (operation, WILDCARD_KEY)"
    by (rule validate_document_rules)
  have "resolve plan operation key =
      (if rule_map rules (operation, key) \<noteq> None then rule_map rules (operation, key)
       else rule_map rules (operation, ''*''))" if "key \<noteq> ''*''" for operation key
    using e(6,8) that
    by (auto simp: resolve_def WILDCARD_KEY_def split: option.splits)
  with d e(1-5) plan_resolves[OF validate_document_ok[OF d(3)]] show ?thesis by blast
qed

definition sample_rule :: "string \<Rightarrow> string \<Rightarrow> string \<Rightarrow> json" where
  "sample_rule operation key scenario = JObj [(ascii ''operation'', JStr (ascii operation)),
     (ascii ''idempotency_key'', JStr (ascii key)), (ascii ''scenario'', JStr (ascii scenario))]"

definition sample_plan_bytes :: string where
  "sample_plan_bytes = octets (dumps (\<lambda>_. []) (JObj [(ascii ''version'', JInt 1), (ascii ''rules'', JArr
     [sample_rule ''submission'' ''k1'' ''always_500'', sample_rule ''submission'' ''*'' ''429_then_success''])]))"

lemma witness_accepted_plan_is_total:
  "\<exists>plan. parse_scenario_plan 4 sample_plan_bytes = Inr plan
     \<and> resolve plan ''submission'' ''k1'' = Some ''always_500''
     \<and> resolve_action (resolve plan ''submission'' ''k2'') ''submission'' 7 \<noteq> None"
proof -
  have "case parse_scenario_plan 4 sample_plan_bytes of
      Inr plan \<Rightarrow> resolve plan ''submission'' ''k1'' = Some ''always_500'' | Inl _ \<Rightarrow> False"
    by code_simp
  then obtain plan where plan: "parse_scenario_plan 4 sample_plan_bytes = Inr plan"
    "resolve plan ''submission'' ''k1'' = Some ''always_500''" by (auto split: sum.splits)
  have "''k2'' \<noteq> ''*''" by simp
  with accepted_plan_is_total[OF plan(1)]
  have "resolve_action (resolve plan ''submission'' ''k2'') ''submission'' 7 \<noteq> None" by blast
  with plan show ?thesis by blast
qed

end
