(* ===== verification/Simulator.thy ===== *)
theory Simulator
  imports Scenario
begin

text \<open>
  \<open>simulator/state.py\<close> and \<open>simulator/service.py\<close>: the processed records and request ordinals, and
  the two operations of the service.  Each runs entirely under the lock of its key, so it is one
  step on the state here; \<open>Threads\<close> shows that the steps of concurrent handlers cannot be told from
  that.  A timeout preset only delays the outcome, so the waiter is left out.
  \<open>sha256_hex\<close> stands for \<open>hashlib\<close>.
\<close>

section \<open>State\<close>

record processed_record =
  record_key :: string
  canonical_bytes :: payload
  record_digest :: string
  record_remote_id :: string

definition default_remote_request_id :: "(string \<Rightarrow> string) \<Rightarrow> string \<Rightarrow> string" where
  "default_remote_request_id sha256_hex key = ''remote-'' @ take 24 (sha256_hex key)"

record coordinator =
  processed_records :: "string \<rightharpoonup> processed_record"
  ordinals :: "string \<times> string \<rightharpoonup> int"

definition new_coordinator :: coordinator where
  "new_coordinator = \<lparr>processed_records = Map.empty, ordinals = Map.empty\<rparr>"

definition next_ordinal :: "string \<Rightarrow> string \<Rightarrow> coordinator \<Rightarrow> int \<times> coordinator" where
  "next_ordinal operation key c =
     (let ordinal = (case ordinals c (operation, key) of None \<Rightarrow> 0 | Some n \<Rightarrow> n) + 1
      in (ordinal, c\<lparr>ordinals := (ordinals c)((operation, key) \<mapsto> ordinal)\<rparr>))"

definition get_record :: "string \<Rightarrow> coordinator \<Rightarrow> processed_record option" where
  "get_record key c = processed_records c key"

definition create_record ::
  "(string \<Rightarrow> string) \<Rightarrow> string \<Rightarrow> payload \<Rightarrow> string \<Rightarrow> bool \<Rightarrow> coordinator \<Rightarrow> processed_record \<times> coordinator" where
  "create_record sha256_hex key bytes digest duplicate_remote_id c =
     (let remote_id = (if duplicate_remote_id then ''remote-duplicate'' else default_remote_request_id sha256_hex key);
          r = \<lparr>record_key = key, canonical_bytes = bytes, record_digest = digest, record_remote_id = remote_id\<rparr>
      in (r, c\<lparr>processed_records := (processed_records c)(key \<mapsto> r)\<rparr>))"

section \<open>Outcomes\<close>

datatype delivery =
    Response (response_status: int) (response_body: json) (response_headers: "(string \<times> string) list")
  | Aborted

record service_outcome =
  delivered :: delivery
  processed :: bool
  logged_scenario :: string
  outcome_ordinal :: int

definition str_member :: "string \<Rightarrow> string \<Rightarrow> ustr \<times> json" where
  "str_member name value = (ascii name, JStr (ascii value))"

definition error_body :: "(ustr \<times> json) list \<Rightarrow> json" where
  "error_body members = JObj [(ascii ''error'', JObj members)]"

definition RATE_LIMITED_BODY :: json where
  "RATE_LIMITED_BODY = error_body
     [str_member ''code'' ''rate_limited'', str_member ''message'' ''The simulated service is rate limited.'']"

definition SERVER_ERROR_BODY :: json where
  "SERVER_ERROR_BODY = error_body
     [str_member ''code'' ''simulated_server_error'', str_member ''message'' ''The simulated service failed.'']"

definition conflict_body :: "processed_record \<Rightarrow> string \<Rightarrow> json" where
  "conflict_body existing digest = error_body
     [str_member ''code'' ''idempotency_conflict'',
      str_member ''message'' ''The idempotency key is already bound to a non-equivalent Job Entry.'',
      str_member ''stored_payload_digest'' (record_digest existing),
      str_member ''submitted_payload_digest'' digest]"

definition submission_body :: "processed_record \<Rightarrow> bool \<Rightarrow> json" where
  "submission_body r replayed = JObj
     [str_member ''idempotency_key'' (record_key r), str_member ''status'' ''processed'',
      str_member ''payload_digest'' (record_digest r), str_member ''remote_request_id'' (record_remote_id r),
      (ascii ''replayed'', JBool replayed)]"

definition processed_body :: "string \<Rightarrow> processed_record \<Rightarrow> json" where
  "processed_body key r = JObj
     [str_member ''idempotency_key'' key, str_member ''status'' ''processed'',
      str_member ''payload_digest'' (record_digest r), str_member ''remote_request_id'' (record_remote_id r)]"

definition not_found_body :: "string \<Rightarrow> json" where
  "not_found_body key = JObj [str_member ''idempotency_key'' key, str_member ''status'' ''not_found'']"

definition log_scenario :: "string option \<Rightarrow> string" where
  "log_scenario name = (case name of None \<Rightarrow> ''success'' | Some s \<Rightarrow> if s = [] then ''success'' else s)"

section \<open>Operations\<close>

text \<open>
  \<open>handle_submission\<close>; \<open>None\<close> is the \<open>ScenarioPlanError\<close> of \<open>resolve_action\<close>, raised after the
  ordinal was taken.
\<close>

definition handle_submission ::
  "(string \<Rightarrow> string) \<Rightarrow> scenario_plan \<Rightarrow> string \<Rightarrow> payload \<Rightarrow> string \<Rightarrow> coordinator
   \<Rightarrow> service_outcome option \<times> coordinator" where
  "handle_submission sha256_hex plan key bytes digest c0 =
     (let (ordinal, c) = next_ordinal SUBMISSION key c0;
          scenario = resolve plan SUBMISSION key;
          outcome = (\<lambda>d p. \<lparr>delivered = d, processed = p, logged_scenario = log_scenario scenario,
            outcome_ordinal = ordinal\<rparr>);
          existing = get_record key c
      in case resolve_action scenario SUBMISSION ordinal of
           None \<Rightarrow> (None, c)
         | Some action \<Rightarrow>
             if (case existing of Some r \<Rightarrow> canonical_bytes r \<noteq> bytes | None \<Rightarrow> False)
             then (Some (outcome (Response 409 (conflict_body (the existing) digest) []) True), c)
             else (case action of
                 RETURN_500 \<Rightarrow> (Some (outcome (Response 500 SERVER_ERROR_BODY []) (existing \<noteq> None)), c)
               | RETURN_429 \<Rightarrow>
                   (Some (outcome (Response 429 RATE_LIMITED_BODY [(''Retry-After'', ''1'')]) (existing \<noteq> None)), c)
               | TIMEOUT_NO_PROCESS \<Rightarrow> (Some (outcome Aborted (existing \<noteq> None)), c)
               | NORMAL \<Rightarrow>
                   (case existing of
                      Some r \<Rightarrow> (Some (outcome (Response 200 (submission_body r True) []) True), c)
                    | None \<Rightarrow>
                        (let (r, c') = create_record sha256_hex key bytes digest
                                         (scenario = Some ''duplicate_remote_request_id'') c
                         in (Some (outcome (Response 201 (submission_body r False) []) True), c')))
               | _ \<Rightarrow>
                   (let c' = (if existing = None then snd (create_record sha256_hex key bytes digest False c) else c)
                    in (Some (outcome (if action = PROCESS_THEN_500 then Response 500 SERVER_ERROR_BODY []
                                       else Aborted) True), c'))))"

definition handle_reconciliation ::
  "scenario_plan \<Rightarrow> string \<Rightarrow> coordinator \<Rightarrow> service_outcome option \<times> coordinator" where
  "handle_reconciliation plan key c0 =
     (let (ordinal, c) = next_ordinal RECONCILIATION key c0;
          scenario = resolve plan RECONCILIATION key;
          outcome = (\<lambda>d p. \<lparr>delivered = d, processed = p, logged_scenario = log_scenario scenario,
            outcome_ordinal = ordinal\<rparr>);
          existing = get_record key c
      in case resolve_action scenario RECONCILIATION ordinal of
           None \<Rightarrow> (None, c)
         | Some RETURN_500 \<Rightarrow> (Some (outcome (Response 500 SERVER_ERROR_BODY []) (existing \<noteq> None)), c)
         | Some TIMEOUT_NO_PROCESS \<Rightarrow> (Some (outcome Aborted (existing \<noteq> None)), c)
         | Some _ \<Rightarrow>
             (case existing of
                Some r \<Rightarrow> (Some (outcome (Response 200 (processed_body key r) []) True), c)
              | None \<Rightarrow> (Some (outcome (Response 404 (not_found_body key) []) False), c)))"

section \<open>What a step does to the state\<close>

text \<open>
  The record a submission leaves under its key: the one that was there, or a new one when the
  action processes the request.
\<close>

definition new_record ::
  "(string \<Rightarrow> string) \<Rightarrow> scenario_plan \<Rightarrow> string \<Rightarrow> payload \<Rightarrow> string \<Rightarrow> processed_record" where
  "new_record sha256_hex plan key bytes digest =
     \<lparr>record_key = key, canonical_bytes = bytes, record_digest = digest,
      record_remote_id = (if resolve plan SUBMISSION key = Some ''duplicate_remote_request_id''
        then ''remote-duplicate'' else default_remote_request_id sha256_hex key)\<rparr>"

fun processes :: "action \<Rightarrow> bool" where
  "processes NORMAL = True"
| "processes PROCESS_THEN_DISCONNECT = True"
| "processes PROCESS_THEN_TIMEOUT = True"
| "processes PROCESS_THEN_500 = True"
| "processes _ = False"

lemma process_then_not_duplicate:
  assumes "resolve_action (Some ''duplicate_remote_request_id'') SUBMISSION n = Some action"
  shows "action = NORMAL"
  using assms by (simp add: resolve_action_def SUBMISSION_def)

lemma submission_ordinals:
  "ordinals (snd (handle_submission sha plan key bytes digest c)) =
     ordinals (snd (next_ordinal SUBMISSION key c))"
  by (auto simp: handle_submission_def next_ordinal_def create_record_def Let_def get_record_def
      split: option.split action.split)

lemma submission_records:
  "processed_records (snd (handle_submission sha plan key bytes digest c)) =
     (case resolve_action (resolve plan SUBMISSION key) SUBMISSION (fst (next_ordinal SUBMISSION key c)) of
        None \<Rightarrow> processed_records c
      | Some action \<Rightarrow>
          if processed_records c key = None \<and> processes action
          then (processed_records c)(key \<mapsto> new_record sha plan key bytes digest)
          else processed_records c)"
proof (cases "resolve_action (resolve plan SUBMISSION key) SUBMISSION (fst (next_ordinal SUBMISSION key c))")
  case None
  then show ?thesis by (simp add: handle_submission_def next_ordinal_def Let_def)
next
  case (Some action)
  have dup: "resolve plan SUBMISSION key \<noteq> Some ''duplicate_remote_request_id''" if "action \<noteq> NORMAL"
    using that Some process_then_not_duplicate by auto
  show ?thesis
  proof (cases "processed_records c key")
    case None
    with Some dup show ?thesis
      by (cases action) (simp_all add: handle_submission_def next_ordinal_def Let_def get_record_def
          create_record_def new_record_def)
  next
    case (Some r)
    with \<open>_ = Some action\<close> show ?thesis
      by (cases action) (simp_all add: handle_submission_def next_ordinal_def Let_def get_record_def)
  qed
qed

lemma reconciliation_records:
  "processed_records (snd (handle_reconciliation plan key c)) = processed_records c"
  by (auto simp: handle_reconciliation_def next_ordinal_def Let_def get_record_def
      split: option.split action.split)

lemma reconciliation_ordinals:
  "ordinals (snd (handle_reconciliation plan key c)) = ordinals (snd (next_ordinal RECONCILIATION key c))"
  by (auto simp: handle_reconciliation_def next_ordinal_def Let_def get_record_def
      split: option.split action.split)

section \<open>Runs of requests\<close>

datatype request =
    Submit (request_key: string) payload string
  | Reconcile (request_key: string)

fun serve :: "(string \<Rightarrow> string) \<Rightarrow> scenario_plan \<Rightarrow> request \<Rightarrow> coordinator \<Rightarrow> service_outcome option \<times> coordinator" where
  "serve sha plan (Submit key bytes digest) c = handle_submission sha plan key bytes digest c"
| "serve sha plan (Reconcile key) c = handle_reconciliation plan key c"

fun serve_all :: "(string \<Rightarrow> string) \<Rightarrow> scenario_plan \<Rightarrow> request list \<Rightarrow> coordinator
  \<Rightarrow> service_outcome option list \<times> coordinator" where
  "serve_all sha plan [] c = ([], c)"
| "serve_all sha plan (q # qs) c =
     (let (out, c') = serve sha plan q c; (outs, c'') = serve_all sha plan qs c' in (out # outs, c''))"

section \<open>One step\<close>

text \<open>A step depends on the slot of its own key only, and writes there only.\<close>

definition operation_of_request :: "request \<Rightarrow> string" where
  "operation_of_request q = (case q of Submit _ _ _ \<Rightarrow> SUBMISSION | Reconcile _ \<Rightarrow> RECONCILIATION)"

definition same_slot :: "string \<Rightarrow> coordinator \<Rightarrow> coordinator \<Rightarrow> bool" where
  "same_slot key c d \<longleftrightarrow> processed_records c key = processed_records d key
     \<and> (\<forall>operation. ordinals c (operation, key) = ordinals d (operation, key))"

lemma serve_slot: "same_slot (request_key q) c d \<Longrightarrow> fst (serve sha plan q c) = fst (serve sha plan q d)"
  by (cases q) (auto simp: same_slot_def handle_submission_def handle_reconciliation_def next_ordinal_def
      get_record_def create_record_def Let_def split: option.split action.split)

lemma next_ordinal_slot: "same_slot key c d \<Longrightarrow> fst (next_ordinal operation key c) = fst (next_ordinal operation key d)"
  by (simp add: same_slot_def next_ordinal_def Let_def)

definition added :: "(string \<Rightarrow> string) \<Rightarrow> scenario_plan \<Rightarrow> request \<Rightarrow> coordinator \<Rightarrow> processed_record option" where
  "added sha plan q c = (case q of
     Submit key bytes digest \<Rightarrow>
       (case resolve_action (resolve plan SUBMISSION key) SUBMISSION (fst (next_ordinal SUBMISSION key c)) of
          None \<Rightarrow> None
        | Some action \<Rightarrow>
            if processed_records c key = None \<and> processes action
            then Some (new_record sha plan key bytes digest) else None)
   | Reconcile key \<Rightarrow> None)"

lemma added_slot: "same_slot (request_key q) c d \<Longrightarrow> added sha plan q c = added sha plan q d"
  using next_ordinal_slot[of _ c d SUBMISSION]
  by (cases q) (auto simp: added_def same_slot_def split: option.split)

lemma serve_records:
  "processed_records (snd (serve sha plan q c)) =
     (case added sha plan q c of None \<Rightarrow> processed_records c
      | Some r \<Rightarrow> (processed_records c)(request_key q \<mapsto> r))"
  by (cases q) (auto simp: added_def submission_records reconciliation_records split: option.split)

lemma serve_ordinals:
  "ordinals (snd (serve sha plan q c)) =
     (ordinals c)((operation_of_request q, request_key q) \<mapsto> fst (next_ordinal (operation_of_request q) (request_key q) c))"
  by (cases q) (simp_all add: operation_of_request_def submission_ordinals reconciliation_ordinals next_ordinal_def Let_def)

lemma serve_other_slot: "request_key q \<noteq> key \<Longrightarrow> same_slot key (snd (serve sha plan q c)) c"
  by (auto simp: same_slot_def serve_records serve_ordinals split: option.split)

lemma added_fresh: "added sha plan q c = Some r \<Longrightarrow> processed_records c (request_key q) = None"
  by (cases q) (auto simp: added_def split: option.splits if_splits)

lemma serve_keeps_records:
  "processed_records c key = Some r \<Longrightarrow> processed_records (snd (serve sha plan q c)) key = Some r"
  by (auto simp: serve_records dest: added_fresh split: option.split)

lemma same_slot_sym: "same_slot key c d \<Longrightarrow> same_slot key d c"
  by (simp add: same_slot_def)

text \<open>
  Requests for different keys do not interfere: in whichever order two of them are served, each
  gets the same outcome and the state afterwards is the same.
\<close>

lemma different_keys_commute:
  assumes "request_key q \<noteq> request_key p"
  shows "fst (serve sha plan p (snd (serve sha plan q c))) = fst (serve sha plan p c)
    \<and> fst (serve sha plan q (snd (serve sha plan p c))) = fst (serve sha plan q c)
    \<and> snd (serve sha plan p (snd (serve sha plan q c))) = snd (serve sha plan q (snd (serve sha plan p c)))"
proof -
  let ?q = "snd (serve sha plan q c)" and ?p = "snd (serve sha plan p c)"
  have pq: "same_slot (request_key p) ?q c" "same_slot (request_key q) ?p c"
    using assms serve_other_slot by auto
  have "processed_records (snd (serve sha plan p ?q)) = processed_records (snd (serve sha plan q ?p))"
    using assms added_slot[OF pq(1)] added_slot[OF pq(2)]
    by (auto simp: serve_records[of sha plan p ?q] serve_records[of sha plan q ?p]
        serve_records[of sha plan p c] serve_records[of sha plan q c] fun_upd_twist split: option.split)
  moreover have "ordinals (snd (serve sha plan p ?q)) = ordinals (snd (serve sha plan q ?p))"
    using assms next_ordinal_slot[OF pq(1)] next_ordinal_slot[OF pq(2)]
    by (auto simp: serve_ordinals fun_upd_twist)
  ultimately show ?thesis using serve_slot[OF pq(1)] serve_slot[OF pq(2)] by simp
qed

definition no_sha :: "string \<Rightarrow> string" where
  "no_sha s = s"

section \<open>At most once\<close>

text \<open>What a successful submission says: a record that is there from then on.\<close>

definition success_reply :: "service_outcome option \<Rightarrow> int \<Rightarrow> json \<Rightarrow> bool" where
  "success_reply out s b \<longleftrightarrow> s \<in> {200, 201} \<and> (\<exists>o' hs. out = Some o' \<and> delivered o' = Response s b hs)"

lemma submission_success:
  assumes "success_reply (fst (handle_submission sha plan key bytes digest c)) s b"
  shows "\<exists>r. processed_records (snd (handle_submission sha plan key bytes digest c)) key = Some r
    \<and> canonical_bytes r = bytes \<and> b = submission_body r (s = 200)
    \<and> (s = 201 \<longleftrightarrow> processed_records c key = None)"
  using assms
  by (auto simp: success_reply_def handle_submission_def next_ordinal_def Let_def get_record_def create_record_def
      split: option.splits action.splits if_splits)

lemma serve_all_Cons:
  "serve_all sha plan (q # qs) c =
     (fst (serve sha plan q c) # fst (serve_all sha plan qs (snd (serve sha plan q c))),
      snd (serve_all sha plan qs (snd (serve sha plan q c))))"
  by (simp add: Let_def split_beta)

declare serve_all.simps(2) [simp del]
declare serve_all_Cons [simp]

lemma serve_all_length: "length (fst (serve_all sha plan qs c)) = length qs"
  by (induction qs arbitrary: c) auto

lemma serve_all_keeps_records:
  "processed_records c key = Some r \<Longrightarrow> processed_records (snd (serve_all sha plan qs c)) key = Some r"
  by (induction qs arbitrary: c) (auto simp: serve_keeps_records)

lemma serve_all_success:
  "i < length qs \<Longrightarrow> qs ! i = Submit key bytes digest \<Longrightarrow>
   success_reply (fst (serve_all sha plan qs c) ! i) s b \<Longrightarrow>
     \<exists>r. processed_records (snd (serve_all sha plan qs c)) key = Some r \<and> canonical_bytes r = bytes
       \<and> b = submission_body r (s = 200) \<and> (s = 201 \<longrightarrow> processed_records c key = None)"
proof (induction qs arbitrary: c i)
  case (Cons q qs)
  show ?case
  proof (cases i)
    case 0
    with Cons.prems have "q = Submit key bytes digest"
      "success_reply (fst (handle_submission sha plan key bytes digest c)) s b" by simp_all
    with submission_success[OF this(2)] show ?thesis by (auto intro: serve_all_keeps_records)
  next
    case (Suc j)
    with Cons.prems have j: "j < length qs" "qs ! j = Submit key bytes digest"
      "success_reply (fst (serve_all sha plan qs (snd (serve sha plan q c))) ! j) s b" by simp_all
    from Cons.IH[OF j] obtain r where
      "processed_records (snd (serve_all sha plan qs (snd (serve sha plan q c)))) key = Some r"
      "canonical_bytes r = bytes" "b = submission_body r (s = 200)"
      "s = 201 \<longrightarrow> processed_records (snd (serve sha plan q c)) key = None" by blast
    moreover have "processed_records c key = None"
      if "processed_records (snd (serve sha plan q c)) key = None"
      using that serve_keeps_records[of c key _ sha plan q] by (cases "processed_records c key") auto
    ultimately show ?thesis by auto
  qed
qed simp

lemma serve_all_201_once:
  "i < j \<Longrightarrow> j < length qs \<Longrightarrow> qs ! i = Submit key bytes digest \<Longrightarrow> qs ! j = Submit key bytes' digest' \<Longrightarrow>
   success_reply (fst (serve_all sha plan qs c) ! i) s b \<Longrightarrow>
   \<not> success_reply (fst (serve_all sha plan qs c) ! j) 201 b'"
proof (induction qs arbitrary: c i j)
  case (Cons q qs)
  from Cons.prems(1) obtain k where j: "j = Suc k" by (cases j) auto
  show ?case
  proof (cases i)
    case 0
    with Cons.prems have "q = Submit key bytes digest"
      "success_reply (fst (handle_submission sha plan key bytes digest c)) s b" by simp_all
    with submission_success[OF this(2)] have "processed_records (snd (serve sha plan q c)) key \<noteq> None" by auto
    with serve_all_success[of k qs key bytes' digest' sha plan "snd (serve sha plan q c)" 201 b'] Cons.prems j
    show ?thesis by auto
  next
    case (Suc i')
    with Cons.prems j Cons.IH[of i' k] show ?thesis by simp
  qed
qed simp

text \<open>
  C19. The service processes a key at most once: over any sequence of requests from an empty
  service, under any plan, all successful replies to submissions of one key carry the record that is
  stored under the key at the end, with the payload of each of those submissions, and at most one
  of them, the first, is a 201.
\<close>

theorem processed_at_most_once:
  assumes "serve_all sha plan qs new_coordinator = (outs, c)" "i < j" "j < length qs"
    "qs ! i = Submit key bytes digest" "qs ! j = Submit key bytes' digest'"
    "success_reply (outs ! i) s b" "success_reply (outs ! j) s' b'"
  shows "\<exists>r. processed_records c key = Some r \<and> canonical_bytes r = bytes \<and> bytes' = bytes
    \<and> b = submission_body r (s = 200) \<and> b' = submission_body r True \<and> s' = 200"
proof -
  have outs: "outs = fst (serve_all sha plan qs new_coordinator)" "c = snd (serve_all sha plan qs new_coordinator)"
    by (simp_all add: assms(1))
  have "i < length qs" using assms(2,3) by simp
  from serve_all_success[OF this assms(4), of sha plan new_coordinator s b]
    serve_all_success[OF assms(3,5), of sha plan new_coordinator s' b']
    serve_all_201_once[OF assms(2-5), of sha plan new_coordinator s b b'] assms(6,7)
  show ?thesis unfolding outs[symmetric] by (auto simp: success_reply_def)
qed

lemma witness_processed_at_most_once:
  "\<exists>r. processed_records (snd (serve_all no_sha EMPTY_PLAN [Submit ''a'' ''{}'' ''d'', Reconcile ''a'', Submit ''a'' ''{}'' ''d'']
        new_coordinator)) ''a'' = Some r \<and> canonical_bytes r = ''{}''"
proof -
  let ?qs = "[Submit ''a'' ''{}'' ''d'', Reconcile ''a'', Submit ''a'' ''{}'' ''d'']"
  let ?run = "serve_all no_sha EMPTY_PLAN ?qs new_coordinator"
  let ?r = "new_record no_sha EMPTY_PLAN ''a'' ''{}'' ''d''"
  have "success_reply (fst ?run ! 0) 201 (submission_body ?r False)"
    "success_reply (fst ?run ! 2) 200 (submission_body ?r True)"
    by (simp_all add: success_reply_def handle_submission_def handle_reconciliation_def next_ordinal_def
        Let_def get_record_def create_record_def new_record_def new_coordinator_def resolve_def EMPTY_PLAN_def
        resolve_action_def SUBMISSION_def RECONCILIATION_def)
  from processed_at_most_once[of no_sha EMPTY_PLAN ?qs "fst ?run" "snd ?run" 0 2, OF _ _ _ _ _ this]
  show ?thesis by auto
qed

section \<open>Conflicts and retries\<close>

lemma submission_conflict:
  assumes "plan_ok plan" "processed_records c key = Some r" "canonical_bytes r \<noteq> bytes"
  shows "\<exists>o'. fst (handle_submission sha plan key bytes digest c) = Some o'
    \<and> delivered o' = Response 409 (conflict_body r digest) []"
  using assms plan_resolves[OF assms(1), of SUBMISSION key]
  by (auto simp: handle_submission_def next_ordinal_def Let_def get_record_def split: option.split)

text \<open>
  C26. A key belongs to its first payload: once a record is stored, a submission with another
  payload gets the conflict whatever the plan says, naming both digests, and neither it nor any
  other request ever changes or removes the record.
\<close>

theorem records_are_immutable:
  assumes "plan_ok plan" "processed_records c key = Some r"
  shows "processed_records (snd (serve_all sha plan qs c)) key = Some r
    \<and> (canonical_bytes r \<noteq> bytes \<longrightarrow>
         (\<exists>o'. fst (handle_submission sha plan key bytes digest (snd (serve_all sha plan qs c))) = Some o'
            \<and> delivered o' = Response 409 (conflict_body r digest) []))"
  using assms serve_all_keeps_records[OF assms(2)] submission_conflict[OF assms(1)] by blast

lemma witness_records_are_immutable:
  "\<exists>r. processed_records (snd (serve_all no_sha EMPTY_PLAN [Reconcile ''a'']
      (snd (serve no_sha EMPTY_PLAN (Submit ''a'' ''{}'' ''d'') new_coordinator)))) ''a'' = Some r"
proof -
  have "processed_records (snd (serve no_sha EMPTY_PLAN (Submit ''a'' ''{}'' ''d'') new_coordinator)) ''a''
      = Some (new_record no_sha EMPTY_PLAN ''a'' ''{}'' ''d'')"
    by (simp add: submission_records new_coordinator_def resolve_def EMPTY_PLAN_def resolve_action_def)
  from records_are_immutable[OF empty_plan_ok this] show ?thesis by blast
qed

lemma later_action_normal:
  assumes "plan_ok plan" "resolve plan SUBMISSION key \<noteq> Some ''always_500''" "n \<noteq> 1"
  shows "resolve_action (resolve plan SUBMISSION key) SUBMISSION n = Some NORMAL"
  using plan_resolves[OF assms(1), of SUBMISSION key n] assms(2,3)
  by (auto simp: resolve_action_def split: option.splits if_splits)

lemma normal_submission:
  assumes "resolve_action (resolve plan SUBMISSION key) SUBMISSION (fst (next_ordinal SUBMISSION key c)) = Some NORMAL"
    "\<And>r. processed_records c key = Some r \<Longrightarrow> canonical_bytes r = bytes"
  shows "\<exists>s b. success_reply (fst (handle_submission sha plan key bytes digest c)) s b"
  using assms
  by (cases "processed_records c key")
    (auto simp: handle_submission_def success_reply_def next_ordinal_def Let_def get_record_def create_record_def)

text \<open>
  A retry succeeds: unless the plan answers a key with \<open>always_500\<close>, a submission that is
  repeated once is answered with a 200 or 201, provided the key is not bound to another payload,
  whatever happened to the first of the two requests.
\<close>

lemma retry_succeeds:
  assumes "plan_ok plan" "resolve plan SUBMISSION key \<noteq> Some ''always_500''"
    "\<And>r. processed_records c key = Some r \<Longrightarrow> canonical_bytes r = bytes"
    "case ordinals c (SUBMISSION, key) of None \<Rightarrow> True | Some n \<Rightarrow> 0 \<le> n"
  shows "\<exists>s b. success_reply
    (fst (handle_submission sha plan key bytes digest (snd (handle_submission sha plan key bytes digest c)))) s b"
proof (rule normal_submission)
  let ?c = "snd (handle_submission sha plan key bytes digest c)"
  have "fst (next_ordinal SUBMISSION key ?c) \<noteq> 1"
    using assms(4) by (auto simp: next_ordinal_def submission_ordinals Let_def split: option.splits)
  with later_action_normal[OF assms(1,2)]
  show "resolve_action (resolve plan SUBMISSION key) SUBMISSION (fst (next_ordinal SUBMISSION key ?c)) = Some NORMAL" .
  fix r assume "processed_records ?c key = Some r"
  with assms(3) show "canonical_bytes r = bytes"
    by (auto simp: submission_records new_record_def split: option.splits if_splits)
qed

lemma witness_retry_succeeds:
  "\<exists>s b. success_reply (fst (handle_submission no_sha EMPTY_PLAN ''a'' ''{}'' ''d''
     (snd (handle_submission no_sha EMPTY_PLAN ''a'' ''{}'' ''d'' new_coordinator)))) s b"
proof (rule retry_succeeds)
  show "resolve EMPTY_PLAN SUBMISSION ''a'' \<noteq> Some ''always_500''" by (simp add: resolve_def EMPTY_PLAN_def)
qed (simp_all add: empty_plan_ok new_coordinator_def)

end
