(* ===== verification/Url.thy ===== *)
theory Url
  imports Policies
begin

text \<open>
  \<open>urllib.parse\<close> as \<open>cli.py\<close>, the simulator's server and the reconciliation adapter use it:
  \<open>urlsplit\<close> (CPython 3.12) with the properties of its result, and \<open>quote\<close>.  The checks of
  bracketed and of non-ASCII authorities use \<open>ipaddress\<close> and \<open>unicodedata\<close>; \<open>authority_ok\<close> stands
  for them.
\<close>

section \<open>Splitting texts\<close>

text \<open>\<open>s.partition(c)\<close> as the part before, whether \<open>c\<close> was found, and the part after.\<close>

definition partition_at :: "char \<Rightarrow> string \<Rightarrow> string \<times> bool \<times> string" where
  "partition_at c s = (takeWhile (\<lambda>d. d \<noteq> c) s, c \<in> set s, drop 1 (dropWhile (\<lambda>d. d \<noteq> c) s))"

text \<open>\<open>s.rpartition(c)\<close>: the part after the last \<open>c\<close>, or all of it, and what precedes.\<close>

definition rpartition_at :: "char \<Rightarrow> string \<Rightarrow> string \<times> bool \<times> string" where
  "rpartition_at c s =
     (rev (drop 1 (dropWhile (\<lambda>d. d \<noteq> c) (rev s))), c \<in> set s, rev (takeWhile (\<lambda>d. d \<noteq> c) (rev s)))"

lemma partition_at_absent: "c \<notin> set s \<Longrightarrow> partition_at c s = (s, False, [])"
  unfolding partition_at_def by (induction s) auto

section \<open>\<open>urlsplit\<close>\<close>

record split_url =
  url_scheme :: string
  url_netloc :: string
  url_path :: string
  url_query :: string
  url_fragment :: string

definition is_alpha :: "char \<Rightarrow> bool" where
  "is_alpha c \<longleftrightarrow> (let n = (of_char c :: int) in 65 \<le> n \<and> n \<le> 90 \<or> 97 \<le> n \<and> n \<le> 122)"

definition is_scheme_char :: "char \<Rightarrow> bool" where
  "is_scheme_char c \<longleftrightarrow> is_alpha c \<or> is_digit c \<or> c \<in> {CHR ''+'', CHR ''-'', CHR ''.''}"

text \<open>Leading controls and spaces are dropped, tabs and line ends removed.\<close>

definition clean_url :: "string \<Rightarrow> string" where
  "clean_url url = filter (\<lambda>c. (of_char c :: int) \<notin> {9, 10, 13}) (dropWhile (\<lambda>c. (of_char c :: int) \<le> 32) url)"

definition split_scheme :: "string \<Rightarrow> string \<times> string" where
  "split_scheme url =
     (let (before, found, after) = partition_at (CHR '':'') url
      in if found \<and> before \<noteq> [] \<and> is_alpha (hd before) \<and> list_all is_scheme_char before
         then (map lower before, after) else ([], url))"

definition split_netloc :: "string \<Rightarrow> string \<times> string" where
  "split_netloc url =
     (if take 2 url = ''//''
      then (let stop = (\<lambda>c. c \<in> {CHR ''/'', CHR ''?'', CHR ''#''})
            in (takeWhile (\<lambda>c. \<not> stop c) (drop 2 url), dropWhile (\<lambda>c. \<not> stop c) (drop 2 url)))
      else ([], url))"

text \<open>\<open>None\<close> is the \<open>ValueError\<close> of a malformed authority.\<close>

definition urlsplit :: "(string \<Rightarrow> bool) \<Rightarrow> string \<Rightarrow> split_url option" where
  "urlsplit authority_ok raw =
     (let (sch, rest) = split_scheme (clean_url raw);
          (loc, rest) = split_netloc rest;
          (rest, _, frag) = partition_at (CHR ''#'') rest;
          (pth, _, qry) = partition_at (CHR ''?'') rest;
          opening = CHR ''['' \<in> set loc; closing = CHR '']'' \<in> set loc
      in if opening \<noteq> closing then None
         else if (opening \<or> (\<exists>c\<in>set loc. 128 \<le> (of_char c :: int))) \<and> \<not> authority_ok loc then None
         else Some \<lparr>url_scheme = sch, url_netloc = loc, url_path = pth, url_query = qry, url_fragment = frag\<rparr>)"

subsection \<open>Properties of an authority\<close>

definition has_userinfo :: "string \<Rightarrow> bool" where
  "has_userinfo loc \<longleftrightarrow> CHR ''@'' \<in> set loc"

definition hostinfo :: "string \<Rightarrow> string \<times> string option" where
  "hostinfo loc =
     (let (_, _, info) = rpartition_at (CHR ''@'') loc;
          (_, bracket, rest) = partition_at (CHR ''['') info
      in if bracket
         then (let (host, _, after) = partition_at (CHR '']'') rest;
                   (_, _, port) = partition_at (CHR '':'') after
               in (host, if port = [] then None else Some port))
         else (let (host, _, port) = partition_at (CHR '':'') info
               in (host, if port = [] then None else Some port)))"

text \<open>The host in lower case, except for the zone of a scoped address.\<close>

definition url_hostname :: "string \<Rightarrow> string option" where
  "url_hostname loc =
     (let host = fst (hostinfo loc); (name, found, zone) = partition_at (CHR ''%'') host
      in if host = [] then None
         else Some (map lower name @ (if found then CHR ''%'' # zone else [])))"

text \<open>\<open>Inl\<close> is the \<open>ValueError\<close> of a port that is no number up to 65535.\<close>

definition url_port :: "string \<Rightarrow> exn + int option" where
  "url_port loc =
     (case snd (hostinfo loc) of
        None \<Rightarrow> Inr None
      | Some digits \<Rightarrow>
          if \<not> is_delta_seconds digits then Inl ValueError
          else (case int_of_str digits of
              Inl e \<Rightarrow> Inl e
            | Inr n \<Rightarrow> if 0 \<le> n \<and> n \<le> 65535 then Inr (Some n) else Inl ValueError))"

section \<open>\<open>quote(..., safe='')\<close>\<close>

definition is_unreserved :: "char \<Rightarrow> bool" where
  "is_unreserved c \<longleftrightarrow> is_alpha c \<or> is_digit c \<or> c \<in> {CHR ''_'', CHR ''.'', CHR ''-'', CHR ''~''}"

definition upper_hex :: "nat \<Rightarrow> char" where
  "upper_hex d = (char_of (if d < 10 then 48 + d else 55 + d) :: char)"

definition quote_octet :: "char \<Rightarrow> string" where
  "quote_octet c =
     (if is_unreserved c then [c]
      else [CHR ''%'', upper_hex (of_char c div 16), upper_hex (of_char c mod 16)])"

definition quote :: "string \<Rightarrow> string" where
  "quote s = concat (map quote_octet s)"

end
