(* ===== verification/Server.thy ===== *)
theory Server
  imports Simulator Url Transport
begin

text \<open>
  \<open>simulator/idempotency.py\<close>, \<open>simulator/logs.py\<close> and the request handling of
  \<open>simulator/server.py\<close>: routing, the validation of framing, headers, key and body, and the reply.
  An \<open>http_request\<close> is what \<open>BaseHTTPRequestHandler\<close> has parsed when it calls \<open>do_*\<close>; sockets
  are left out, \<open>Pool\<close> has the thread pool and \<open>Delivery\<close> what is logged.
\<close>

section \<open>Keys in paths\<close>

definition hex_pair :: "char \<Rightarrow> char \<Rightarrow> nat option" where
  "hex_pair a b =
     (case (hex_digit (of_char a), hex_digit (of_char b)) of
        (Some x, Some y) \<Rightarrow> Some (16 * x + y) | _ \<Rightarrow> None)"

text \<open>The loop of \<open>decode_reconciliation_key\<close>: the decoded bytes.\<close>

fun percent_decode :: "string \<Rightarrow> string option" where
  "percent_decode [] = Some []"
| "percent_decode (c # s) =
     (if c = CHR ''%'' then
        (case s of
           a # b # t \<Rightarrow>
             (case hex_pair a b of
                None \<Rightarrow> None
              | Some n \<Rightarrow> map_option ((#) (char_of n)) (percent_decode t))
         | _ \<Rightarrow> None)
      else if 0x7F < (of_char c :: int) then None
      else map_option ((#) c) (percent_decode s))"

definition decode_reconciliation_key :: "string \<Rightarrow> string option" where
  "decode_reconciliation_key segment =
     (case percent_decode segment of
        None \<Rightarrow> None
      | Some bytes \<Rightarrow>
          (case decode_utf8 bytes of
             None \<Rightarrow> None
           | Some u \<Rightarrow>
               (case ascii_text (Some (JStr u)) of
                  None \<Rightarrow> None
                | Some key \<Rightarrow> if is_accepted_key key then Some key else None)))"

section \<open>Requests and failures\<close>

record http_request =
  command :: string
  target :: string
  header_list :: "(string \<times> string) list"
  rfile :: "nat \<Rightarrow> string option"

text \<open>\<open>self.headers.get_all(name)\<close>: names are compared without regard to case.\<close>

definition get_all :: "http_request \<Rightarrow> string \<Rightarrow> string list" where
  "get_all req name = map snd (filter (\<lambda>(n, v). map lower n = map lower name) (header_list req))"

text \<open>
  What ends the handling of a request early: a \<open>ValidationFailure\<close>, a \<open>JobEntryValidationError\<close>,
  or an exception nobody catches, which drops the connection without a response.
\<close>

datatype failure =
    ValidationFailure (failure_status: int) (failure_code: string) (failure_message: string)
      (failure_headers: "(string \<times> string) list")
  | Entry_rejected
  | Uncaught

abbreviation bad_request :: "string \<Rightarrow> failure" where
  "bad_request message \<equiv> ValidationFailure 400 ''invalid_request'' message []"

abbreviation bad_key :: "string \<Rightarrow> failure" where
  "bad_key message \<equiv> ValidationFailure 400 ''invalid_idempotency_key'' message []"

definition MAX_BODY_BYTES :: int where
  "MAX_BODY_BYTES = 1024 * 1024"

definition JOBS_PATH :: string where
  "JOBS_PATH = ''/jobs''"

definition RECONCILE_PREFIX :: string where
  "RECONCILE_PREFIX = ''/jobs/by-idempotency-key/''"

definition MAX_CONTENT_LENGTH_DIGITS :: nat where
  "MAX_CONTENT_LENGTH_DIGITS = 15"

section \<open>Validation\<close>

definition validate_no_transfer_encoding :: "http_request \<Rightarrow> failure + unit" where
  "validate_no_transfer_encoding req =
     (if get_all req ''Transfer-Encoding'' \<noteq> []
      then Inl (bad_request ''Transfer-Encoding is not accepted'') else Inr ())"

definition significant_digits :: "string \<Rightarrow> string" where
  "significant_digits value =
     (let s = dropWhile (\<lambda>c. c = CHR ''0'') value in if s = [] then ''0'' else s)"

definition too_large :: failure where
  "too_large = ValidationFailure 413 ''payload_too_large'' ''request body exceeds the 1 MiB limit'' []"

definition parse_content_length :: "http_request \<Rightarrow> bool \<Rightarrow> int option \<Rightarrow> failure + int" where
  "parse_content_length req require_present max_value =
     (case get_all req ''Content-Length'' of
        [] \<Rightarrow> if require_present then Inl (bad_request ''Content-Length header is required'') else Inr 0
      | [value] \<Rightarrow>
          if \<not> is_delta_seconds value
          then Inl (bad_request ''Content-Length must be a valid decimal integer'')
          else (let digits = significant_digits value
                in if MAX_CONTENT_LENGTH_DIGITS < length digits
                   then (case max_value of
                       Some _ \<Rightarrow> Inl too_large
                     | None \<Rightarrow> Inl (bad_request ''Content-Length is not a supported value''))
                   else (let n = read_digits digits
                         in case max_value of
                              Some m \<Rightarrow> if m < n then Inl too_large else Inr n
                            | None \<Rightarrow> Inr n))
      | _ \<Rightarrow> Inl (bad_request ''Content-Length header must not repeat''))"

definition validate_get_content_length :: "http_request \<Rightarrow> failure + unit" where
  "validate_get_content_length req =
     (case get_all req ''Content-Length'' of
        [] \<Rightarrow> Inr ()
      | [value] \<Rightarrow>
          if \<not> is_delta_seconds value
          then Inl (bad_request ''Content-Length must be a valid decimal integer'')
          else (let digits = significant_digits value
                in if MAX_CONTENT_LENGTH_DIGITS < length digits \<or> read_digits digits \<noteq> 0
                   then Inl (bad_request ''GET requests must not declare a non-zero body'')
                   else Inr ())
      | _ \<Rightarrow> Inl (bad_request ''Content-Length header must not repeat''))"

definition validate_json_content_type :: "http_request \<Rightarrow> failure + unit" where
  "validate_json_content_type req =
     (case get_all req ''Content-Type'' of
        [value] \<Rightarrow>
          if matches_json_type (strip value) then Inr ()
          else Inl (ValidationFailure 415 ''unsupported_media_type'' ''Content-Type must be application/json'' [])
      | _ \<Rightarrow> Inl (ValidationFailure 415 ''unsupported_media_type'' ''Content-Type must be application/json'' []))"

definition validate_submission_idempotency_key :: "http_request \<Rightarrow> failure + string" where
  "validate_submission_idempotency_key req =
     (case get_all req ''Idempotency-Key'' of
        [key] \<Rightarrow>
          if is_accepted_key key then Inr key
          else Inl (bad_key ''Idempotency-Key does not match the accepted grammar'')
      | _ \<Rightarrow> Inl (bad_key ''exactly one Idempotency-Key header is required''))"

section \<open>Handlers\<close>

text \<open>
  The parts of the service the handlers use: the plan, the nesting limits of parsing, and the
  third-party canonicalization and hash.
\<close>

record service =
  service_plan :: scenario_plan
  scan_limit :: nat
  walk_frames :: nat
  service_rfc8785 :: "json \<Rightarrow> payload option"
  service_sha256 :: "string \<Rightarrow> string"

definition bind_failure :: "'e + 'a \<Rightarrow> ('a \<Rightarrow> 'e + 'b) \<Rightarrow> 'e + 'b" where
  "bind_failure r f = (case r of Inl e \<Rightarrow> Inl e | Inr a \<Rightarrow> f a)"

definition entry_failure :: "entry_error + 'a \<Rightarrow> failure + 'a" where
  "entry_failure r = (case r of
     Inl JobEntryValidationError \<Rightarrow> Inl Entry_rejected
   | Inl Entry_RecursionError \<Rightarrow> Inl Uncaught
   | Inr a \<Rightarrow> Inr a)"

definition read_body :: "http_request \<Rightarrow> int \<Rightarrow> failure + string" where
  "read_body req n =
     (if n = 0 then Inr []
      else case rfile req (nat n) of None \<Rightarrow> Inl Uncaught | Some s \<Rightarrow> Inr s)"

text \<open>The \<open>try\<close> block of \<open>_handle_submission\<close>: the key and the canonical bytes.\<close>

definition validate_submission :: "service \<Rightarrow> http_request \<Rightarrow> failure + string \<times> payload" where
  "validate_submission sv req =
     bind_failure (validate_no_transfer_encoding req) (\<lambda>_.
     bind_failure (parse_content_length req True (Some MAX_BODY_BYTES)) (\<lambda>content_length.
     bind_failure (validate_json_content_type req) (\<lambda>_.
     bind_failure (validate_submission_idempotency_key req) (\<lambda>key.
     bind_failure (read_body req content_length) (\<lambda>raw_body.
     bind_failure (entry_failure (parse_job_entry (scan_limit sv) (walk_frames sv) raw_body)) (\<lambda>job_entry.
     bind_failure (entry_failure (canonicalize (service_rfc8785 sv) job_entry)) (\<lambda>bytes.
       Inr (key, bytes))))))))"

definition validate_reconciliation :: "http_request \<Rightarrow> string \<Rightarrow> failure + string" where
  "validate_reconciliation req encoded_key =
     bind_failure (validate_no_transfer_encoding req) (\<lambda>_.
     bind_failure (validate_get_content_length req) (\<lambda>_.
       case decode_reconciliation_key encoded_key of
         None \<Rightarrow> Inl (bad_key ''path key is not an accepted idempotency key'')
       | Some key \<Rightarrow> Inr key))"

definition failure_reply :: "failure \<Rightarrow> delivery" where
  "failure_reply f = (case f of
     ValidationFailure s code message headers \<Rightarrow>
       Response s (error_body [str_member ''code'' code, str_member ''message'' message]) headers
   | Entry_rejected \<Rightarrow>
       Response 400 (error_body [str_member ''code'' ''invalid_request'',
         str_member ''message'' ''request body is not a valid canonicalizable Job Entry'']) []
   | Uncaught \<Rightarrow> Aborted)"

text \<open>\<open>_deliver\<close>: an aborted outcome, and an exception of the service, write nothing.\<close>

definition deliver :: "service_outcome option \<Rightarrow> delivery" where
  "deliver out = (case out of None \<Rightarrow> Aborted | Some o' \<Rightarrow> delivered o')"

definition http_submission :: "service \<Rightarrow> http_request \<Rightarrow> coordinator \<Rightarrow> delivery \<times> coordinator" where
  "http_submission sv req c =
     (case validate_submission sv req of
        Inl f \<Rightarrow> (failure_reply f, c)
      | Inr (key, bytes) \<Rightarrow>
          (let (out, c') = handle_submission (service_sha256 sv) (service_plan sv) key bytes
                             (payload_digest (service_sha256 sv) bytes) c
           in (deliver out, c')))"

definition http_reconciliation ::
  "service \<Rightarrow> http_request \<Rightarrow> string \<Rightarrow> coordinator \<Rightarrow> delivery \<times> coordinator" where
  "http_reconciliation sv req encoded_key c =
     (case validate_reconciliation req encoded_key of
        Inl f \<Rightarrow> (failure_reply f, c)
      | Inr key \<Rightarrow>
          (let (out, c') = handle_reconciliation (service_plan sv) key c in (deliver out, c')))"

definition route_not_found :: failure where
  "route_not_found = ValidationFailure 404 ''route_not_found'' ''no such route'' []"

definition method_not_allowed :: "string \<Rightarrow> failure" where
  "method_not_allowed allowed =
     ValidationFailure 405 ''method_not_allowed'' ''method not allowed for this route'' [(''Allow'', allowed)]"

text \<open>\<open>_route\<close>; a target \<open>urlsplit\<close> refuses raises out of the handler.\<close>

definition route :: "service \<Rightarrow> (string \<Rightarrow> bool) \<Rightarrow> http_request \<Rightarrow> coordinator \<Rightarrow> delivery \<times> coordinator" where
  "route sv authority_ok req c =
     (case urlsplit authority_ok (target req) of
        None \<Rightarrow> (failure_reply Uncaught, c)
      | Some parts \<Rightarrow>
          (let p = url_path parts; n = length RECONCILE_PREFIX
           in if p = JOBS_PATH then
                (if command req \<noteq> ''POST'' then (failure_reply (method_not_allowed ''POST''), c)
                 else http_submission sv req c)
              else if take n p = RECONCILE_PREFIX \<and> CHR ''/'' \<notin> set (drop n p) then
                (if command req \<noteq> ''GET'' then (failure_reply (method_not_allowed ''GET''), c)
                 else http_reconciliation sv req (drop n p) c)
              else (failure_reply route_not_found, c)))"

section \<open>Logging\<close>

definition key_fingerprint :: "(string \<Rightarrow> string) \<Rightarrow> string \<Rightarrow> string" where
  "key_fingerprint sha256_hex key = take 12 (sha256_hex key)"

record log_event =
  log_name :: string
  log_level :: string
  log_operation :: "string option"
  log_key :: "string option"
  log_preset :: "string option"
  log_ordinal :: "int option"
  log_status :: "int option"
  log_processed :: "bool option"

definition optional :: "string \<Rightarrow> ('a \<Rightarrow> json) \<Rightarrow> 'a option \<Rightarrow> (ustr \<times> json) list" where
  "optional name f v = (case v of None \<Rightarrow> [] | Some a \<Rightarrow> [(ascii name, f a)])"

text \<open>\<open>OperationalLogger.emit\<close>: the record, members without a value left out.\<close>

definition emit :: "(string \<Rightarrow> string) \<Rightarrow> string \<Rightarrow> log_event \<Rightarrow> json" where
  "emit sha256_hex now e = JObj
     ([str_member ''timestamp'' now, str_member ''level'' (log_level e), str_member ''event'' (log_name e)]
      @ optional ''operation'' (\<lambda>s. JStr (ascii s)) (log_operation e)
      @ optional ''key_fingerprint'' (\<lambda>k. JStr (ascii (key_fingerprint sha256_hex k))) (log_key e)
      @ optional ''scenario'' (\<lambda>s. JStr (ascii s)) (log_preset e)
      @ optional ''request_ordinal'' JInt (log_ordinal e)
      @ optional ''status'' JInt (log_status e)
      @ optional ''processed'' JBool (log_processed e))"

definition delivery_event :: "service_outcome \<Rightarrow> string \<Rightarrow> string \<Rightarrow> log_event" where
  "delivery_event out op_name key =
     (case delivered out of
        Response s b hs \<Rightarrow>
          \<lparr>log_name = ''request_completed'', log_level = (if s < 400 then ''info'' else ''error''),
           log_operation = Some op_name, log_key = Some key, log_preset = Some (logged_scenario out),
           log_ordinal = Some (outcome_ordinal out), log_status = Some s, log_processed = Some (processed out)\<rparr>
      | Aborted \<Rightarrow>
          \<lparr>log_name = ''request_aborted'', log_level = ''error'',
           log_operation = Some op_name, log_key = Some key, log_preset = Some (logged_scenario out),
           log_ordinal = Some (outcome_ordinal out), log_status = None, log_processed = Some (processed out)\<rparr>)"

end
