(* ===== verification/Exchange.thy ===== *)
theory Exchange
  imports Adapters Server
begin

text \<open>
  The two ends of the wire together: what the simulated service replies is what the adapters
  understand, the reconciliation path reaches the operation it names, and every HTTP request is
  either refused without an effect or exactly one step of the service.
\<close>

section \<open>Every request is refused or one step\<close>

lemma bind_failure_Inr: "bind_failure r f = Inr b \<longleftrightarrow> (\<exists>a. r = Inr a \<and> f a = Inr b)"
  by (auto simp: bind_failure_def split: sum.split)

lemma entry_failure_Inr: "entry_failure r = Inr a \<longleftrightarrow> r = Inr a"
  by (auto simp: entry_failure_def split: sum.split entry_error.split)

lemma parse_content_length_bound:
  "parse_content_length req True (Some m) = Inr n \<Longrightarrow> 0 \<le> n \<and> n \<le> m"
proof -
  assume p: "parse_content_length req True (Some m) = Inr n"
  then obtain ds where v: "is_delta_seconds ds" "n = read_digits (significant_digits ds)" "n \<le> m"
    by (auto simp: parse_content_length_def Let_def split: list.splits if_splits)
  have "set (significant_digits ds) \<subseteq> {CHR ''0''} \<union> set ds"
    by (auto simp: significant_digits_def Let_def dest: set_dropWhileD)
  moreover have "is_digit (CHR ''0'')" by code_simp
  ultimately have "\<forall>c\<in>set (significant_digits ds). is_digit c"
    using v(1) by (auto simp: is_delta_seconds_def)
  from read_digits_nonneg[OF this] v show ?thesis by simp
qed

lemma validated_submission:
  assumes "validate_submission sv req = Inr (key, bytes)"
  shows "is_accepted_key key" "get_all req ''Idempotency-Key'' = [key]"
    "\<exists>n raw job_entry. 0 \<le> n \<and> n \<le> 1048576 \<and> (if n = 0 then raw = [] else rfile req (nat n) = Some raw)
       \<and> parse_job_entry (scan_limit sv) (walk_frames sv) raw = Inr job_entry
       \<and> service_rfc8785 sv job_entry = Some bytes"
proof -
  from assms obtain n raw job_entry where v: "parse_content_length req True (Some MAX_BODY_BYTES) = Inr n"
    "validate_submission_idempotency_key req = Inr key" "read_body req n = Inr raw"
    "parse_job_entry (scan_limit sv) (walk_frames sv) raw = Inr job_entry"
    "canonicalize (service_rfc8785 sv) job_entry = Inr bytes"
    by (auto simp: validate_submission_def bind_failure_Inr entry_failure_Inr)
  from v(2) show "is_accepted_key key" "get_all req ''Idempotency-Key'' = [key]"
    by (auto simp: validate_submission_idempotency_key_def split: list.splits if_splits)
  from parse_content_length_bound[OF v(1)] v(3-5)
  show "\<exists>n raw job_entry. 0 \<le> n \<and> n \<le> 1048576 \<and> (if n = 0 then raw = [] else rfile req (nat n) = Some raw)
       \<and> parse_job_entry (scan_limit sv) (walk_frames sv) raw = Inr job_entry
       \<and> service_rfc8785 sv job_entry = Some bytes"
    by (intro exI[of _ n] exI[of _ raw] exI[of _ job_entry])
      (auto simp: read_body_def MAX_BODY_BYTES_def canonicalize_def split: option.splits if_splits)
qed

lemma decoded_key_accepted: "decode_reconciliation_key segment = Some key \<Longrightarrow> is_accepted_key key"
  by (auto simp: decode_reconciliation_key_def split: option.splits if_splits)

lemma validated_reconciliation: "validate_reconciliation req segment = Inr key \<Longrightarrow>
    is_accepted_key key \<and> decode_reconciliation_key segment = Some key"
  by (auto simp: validate_reconciliation_def bind_failure_Inr decoded_key_accepted split: option.splits)

text \<open>The reply and the state after one step of the service.\<close>

definition stepped :: "service \<Rightarrow> request \<Rightarrow> coordinator \<Rightarrow> delivery \<times> coordinator" where
  "stepped sv q c = (let (out, c') = serve (service_sha256 sv) (service_plan sv) q c in (deliver out, c'))"

lemma route_effect:
  "(\<exists>f. route sv authority_ok req c = (failure_reply f, c))
   \<or> (\<exists>key bytes n raw job_entry. command req = ''POST'' \<and> is_accepted_key key
        \<and> get_all req ''Idempotency-Key'' = [key]
        \<and> 0 \<le> n \<and> n \<le> 1048576 \<and> (if n = 0 then raw = [] else rfile req (nat n) = Some raw)
        \<and> parse_job_entry (scan_limit sv) (walk_frames sv) raw = Inr job_entry
        \<and> service_rfc8785 sv job_entry = Some bytes
        \<and> route sv authority_ok req c
            = stepped sv (Submit key bytes (payload_digest (service_sha256 sv) bytes)) c)
   \<or> (\<exists>key. command req = ''GET'' \<and> is_accepted_key key
        \<and> route sv authority_ok req c = stepped sv (Reconcile key) c)"
proof (cases "urlsplit authority_ok (target req)")
  case None
  then show ?thesis by (auto simp: route_def)
next
  case (Some parts)
  let ?p = "url_path parts"
  let ?k = "drop (length RECONCILE_PREFIX) ?p"
  consider f where "route sv authority_ok req c = (failure_reply f, c)"
    | "command req = ''POST''" "route sv authority_ok req c = http_submission sv req c"
    | "command req = ''GET''" "route sv authority_ok req c = http_reconciliation sv req ?k c"
    using Some by (fastforce simp: route_def Let_def split: if_splits)
  then show ?thesis
  proof cases
    case 1
    then show ?thesis by blast
  next
    case 2
    show ?thesis
    proof (cases "validate_submission sv req")
      case (Inl f)
      with 2 show ?thesis by (auto simp: http_submission_def)
    next
      case (Inr kb)
      obtain key bytes where kb: "kb = (key, bytes)" by fastforce
      with Inr 2 have "route sv authority_ok req c
          = stepped sv (Submit key bytes (payload_digest (service_sha256 sv) bytes)) c"
        by (simp add: http_submission_def stepped_def)
      with validated_submission[OF Inr[unfolded kb]] 2(1) show ?thesis by blast
    qed
  next
    case 3
    show ?thesis
    proof (cases "validate_reconciliation req ?k")
      case (Inl f)
      with 3 show ?thesis by (auto simp: http_reconciliation_def)
    next
      case (Inr key)
      with 3 have "route sv authority_ok req c = stepped sv (Reconcile key) c"
        by (simp add: http_reconciliation_def stepped_def)
      with validated_reconciliation[OF Inr] 3(1) show ?thesis by blast
    qed
  qed
qed

text \<open>
  C21. Refused or one step: whatever a request holds, it either is answered with a failure (400,
  404, 405, 413, 415) or dropped and leaves the state alone, or it is exactly one submission,
  by POST, of an accepted key with the canonical form of a valid Job Entry of at most 1 MiB and
  its digest, or exactly one reconciliation, by GET, of an accepted key.
\<close>

theorem every_request_is_refused_or_one_step:
  "(\<exists>f. route sv authority_ok req c = (failure_reply f, c))
   \<or> (\<exists>key bytes n raw job_entry. command req = ''POST'' \<and> is_accepted_key key
        \<and> get_all req ''Idempotency-Key'' = [key]
        \<and> 0 \<le> n \<and> n \<le> 1048576 \<and> (if n = 0 then raw = [] else rfile req (nat n) = Some raw)
        \<and> parse_job_entry (scan_limit sv) (walk_frames sv) raw = Inr job_entry
        \<and> service_rfc8785 sv job_entry = Some bytes
        \<and> route sv authority_ok req c
            = stepped sv (Submit key bytes (payload_digest (service_sha256 sv) bytes)) c)
   \<or> (\<exists>key. command req = ''GET'' \<and> is_accepted_key key
        \<and> route sv authority_ok req c = stepped sv (Reconcile key) c)"
  by (rule route_effect)

section \<open>The path of a reconciliation\<close>

definition reconcile_path :: "string \<Rightarrow> string" where
  "reconcile_path key = ''/jobs/by-idempotency-key/'' @ quote key"

lemma upper_hex_digit: "d < 16 \<Longrightarrow> hex_digit (of_char (upper_hex d)) = Some d"
  by (auto simp: hex_digit_def upper_hex_def)

lemma percent_quote_octet: "percent_decode (quote_octet c @ s) = map_option ((#) c) (percent_decode s)"
proof (cases "is_unreserved c")
  case True
  then have "c \<noteq> CHR ''%''" "(of_char c :: int) \<le> 0x7F"
    by (auto simp: is_unreserved_def is_alpha_def is_digit_def Let_def)
  with True show ?thesis by (simp add: quote_octet_def)
next
  case False
  have "(of_char c :: nat) div 16 < 16" using of_char_octet[of c] by (simp add: div_less_iff_less_mult)
  then have "hex_pair (upper_hex (of_char c div 16)) (upper_hex (of_char c mod 16)) = Some (of_char c)"
    by (simp add: hex_pair_def upper_hex_digit)
  with False show ?thesis by (simp add: quote_octet_def)
qed

lemma percent_quote: "percent_decode (quote s) = Some s"
  by (induction s) (simp_all add: quote_def percent_quote_octet)

lemma key_char_bounds: "is_key_char c \<Longrightarrow> is_unreserved c \<and> (of_char c :: int) < 128"
  by (auto simp: is_key_char_def is_unreserved_def is_alpha_def is_digit_def Let_def)

lemma accepted_key_chars:
  assumes "is_accepted_key key" "c \<in> set key"
  shows "is_unreserved c" "(of_char c :: int) < 128"
  using assms key_char_bounds by (auto simp: is_accepted_key_def)

lemma of_char_int: "(of_char c :: int) = int (of_char c)"
  by (simp add: of_nat_of_char)

lemma accepted_key_ascii: "is_accepted_key key \<Longrightarrow> is_ascii key"
  using accepted_key_chars(2) by (fastforce simp: is_ascii_def list_all_iff of_char_int)

lemma ascii_text_ascii:
  assumes "is_ascii s"
  shows "ascii_text (Some (JStr (ascii s))) = Some s"
proof -
  have "map (\<lambda>c. char_of (of_char c :: nat)) s = s" by (simp add: map_idI)
  with assms show ?thesis by (auto simp: ascii_text_def ascii_def is_ascii_def list_all_iff o_def)
qed

lemma decode_quoted_key:
  assumes "is_accepted_key key"
  shows "decode_reconciliation_key (quote key) = Some key"
  using assms encode_decode_utf8[OF ascii_utf8[OF accepted_key_ascii[OF assms]]]
    ascii_text_ascii[OF accepted_key_ascii[OF assms]]
  by (simp add: decode_reconciliation_key_def percent_quote)

lemma unreserved_chars:
  assumes "is_unreserved c"
  shows "32 < (of_char c :: int)" "c \<notin> {CHR '':'', CHR ''/'', CHR ''?'', CHR ''#'', CHR ''%''}"
  using assms by (auto simp: is_unreserved_def is_alpha_def is_digit_def Let_def)

lemma quote_accepted: "is_accepted_key key \<Longrightarrow> quote key = key"
proof -
  assume key: "is_accepted_key key"
  then have m: "map quote_octet key = map (\<lambda>c. [c]) key"
    by (auto simp: quote_octet_def accepted_key_chars(1))
  show ?thesis unfolding quote_def m by simp
qed

definition plain_path_char :: "char \<Rightarrow> bool" where
  "plain_path_char c \<longleftrightarrow> 32 < (of_char c :: int) \<and> c \<notin> {CHR '':'', CHR ''?'', CHR ''#''}"

lemma urlsplit_plain_path:
  assumes "list_all plain_path_char p" "take 2 p \<noteq> ''//''"
  shows "urlsplit authority_ok p =
    Some \<lparr>url_scheme = [], url_netloc = [], url_path = p, url_query = [], url_fragment = []\<rparr>"
proof -
  have big: "\<forall>c\<in>set p. 32 < (of_char c :: int)"
    using assms(1) by (simp add: list_all_iff plain_path_char_def)
  have "dropWhile (\<lambda>c. (of_char c :: int) \<le> 32) p = p"
    using big by (cases p) auto
  moreover have "filter (\<lambda>c. (of_char c :: int) \<notin> {9, 10, 13}) p = p"
    unfolding filter_id_conv using big by fastforce
  ultimately have clean: "clean_url p = p" by (simp add: clean_url_def)
  have "CHR '':'' \<notin> set p" "CHR ''?'' \<notin> set p" "CHR ''#'' \<notin> set p"
    using assms(1) unfolding list_all_iff plain_path_char_def by blast+
  note parts = this[THEN partition_at_absent]
  have "split_scheme p = ([], p)" by (simp add: split_scheme_def parts)
  moreover have "split_netloc p = ([], p)" unfolding split_netloc_def using assms(2) by presburger
  ultimately show ?thesis by (simp add: urlsplit_def clean parts)
qed

lemma reconcile_path_plain:
  "is_accepted_key key \<Longrightarrow> list_all plain_path_char (reconcile_path key)"
  using accepted_key_chars(1) unreserved_chars
  by (fastforce simp: reconcile_path_def quote_accepted list_all_iff plain_path_char_def)

text \<open>
  A GET of the path the reconciliation adapter builds for an accepted
  key, without framing headers, reaches the service's reconciliation of exactly that key.
\<close>

lemma reconciliation_path_round_trip:
  assumes "is_accepted_key key" "command req = ''GET''" "target req = reconcile_path key"
    "get_all req ''Transfer-Encoding'' = []" "get_all req ''Content-Length'' = []"
  shows "route sv authority_ok req c = stepped sv (Reconcile key) c"
proof -
  have "take 2 (reconcile_path key) \<noteq> ''//''" by (simp add: reconcile_path_def)
  from urlsplit_plain_path[OF reconcile_path_plain[OF assms(1)] this]
  have url: "urlsplit authority_ok (target req) = Some \<lparr>url_scheme = [], url_netloc = [],
    url_path = RECONCILE_PREFIX @ key, url_query = [], url_fragment = []\<rparr>"
    by (simp add: assms(3) reconcile_path_def RECONCILE_PREFIX_def quote_accepted[OF assms(1)])
  have "CHR ''/'' \<notin> set key" using accepted_key_chars(1)[OF assms(1)] unreserved_chars(2) by blast
  moreover have "RECONCILE_PREFIX @ key \<noteq> JOBS_PATH" by (simp add: RECONCILE_PREFIX_def JOBS_PATH_def)
  moreover have "decode_reconciliation_key key = Some key"
    using decode_quoted_key[OF assms(1)] quote_accepted[OF assms(1)] by simp
  ultimately show ?thesis
    using assms(2,4,5)
    by (simp add: route_def url Let_def http_reconciliation_def validate_reconciliation_def bind_failure_def
        validate_no_transfer_encoding_def validate_get_content_length_def stepped_def)
qed

definition sample_service :: service where
  "sample_service = \<lparr>service_plan = EMPTY_PLAN, scan_limit = 5, walk_frames = 5,
     service_rfc8785 = (\<lambda>v. Some ''{}''), service_sha256 = (\<lambda>s. replicate 64 (CHR ''0''))\<rparr>"

subsection \<open>The requests of the client\<close>

text \<open>
  What \<open>submit_job\<close> and \<open>reconcile_job\<close> give to \<open>HTTPConnection.request\<close>, as the server parses it:
  \<open>http.client\<close> adds \<open>Host\<close>, \<open>Accept-Encoding\<close> and, for a body, \<open>Content-Length\<close>.
\<close>

definition client_post :: "string \<Rightarrow> string \<Rightarrow> payload \<Rightarrow> http_request" where
  "client_post host key bytes =
     \<lparr>command = ''POST'', target = ''/jobs'',
      header_list = [(''Host'', host), (''Accept-Encoding'', ''identity''),
        (''Content-Length'', str_int (int (length bytes))),
        (''Content-Type'', ''application/json''), (''Idempotency-Key'', key)],
      rfile = (\<lambda>n. Some (take n bytes))\<rparr>"

definition client_get :: "string \<Rightarrow> string \<Rightarrow> http_request" where
  "client_get host key =
     \<lparr>command = ''GET'', target = reconcile_path key,
      header_list = [(''Host'', host), (''Accept-Encoding'', ''identity'')], rfile = (\<lambda>n. Some [])\<rparr>"

lemma client_post_headers:
  "get_all (client_post host key bytes) ''Transfer-Encoding'' = []"
  "get_all (client_post host key bytes) ''Content-Length'' = [str_int (int (length bytes))]"
  "get_all (client_post host key bytes) ''Content-Type'' = [''application/json'']"
  "get_all (client_post host key bytes) ''Idempotency-Key'' = [key]"
  by (simp_all add: get_all_def client_post_def lower_def Let_def)

lemma client_content_length:
  assumes "get_all req ''Content-Length'' = [str_int n]" "0 < n" "n \<le> 1048576"
  shows "parse_content_length req True (Some MAX_BODY_BYTES) = Inr n"
proof -
  have digits: "is_delta_seconds (str_int n)"
    using str_int_first[OF assms(2)] str_int_digits[of n] assms(2) by (fastforce simp: is_delta_seconds_def)
  obtain d ds where d: "str_int n = digit_char d # ds" "0 < d" "d < 10" using str_int_first[OF assms(2)] by blast
  have "digit_char 0 = CHR ''0''" by code_simp
  with d digit_char_eq[of d 0] have "digit_char d \<noteq> CHR ''0''" by auto
  with d have "significant_digits (str_int n) = str_int n" by (simp add: significant_digits_def Let_def)
  moreover have "length (str_int n) \<le> 15" using length_str_int[of n 7] assms(2,3) by simp
  ultimately show ?thesis using digits assms
    by (simp add: parse_content_length_def read_str_int Let_def MAX_CONTENT_LENGTH_DIGITS_def MAX_BODY_BYTES_def)
qed

text \<open>
  C35. What the client sends is what the service does: the POST the adapter sends for an accepted key
  and canonical bytes of at most 1 MiB is one submission of exactly that key and those bytes with
  their digest, and the GET it sends for a key is one reconciliation of exactly that key.
\<close>

theorem client_requests_arrive:
  assumes "is_accepted_key key" "bytes \<noteq> []" "length bytes \<le> 1048576"
    and "parse_job_entry (scan_limit sv) (walk_frames sv) bytes = Inr entry" "service_rfc8785 sv entry = Some bytes"
  shows "route sv authority_ok (client_post host key bytes) c
      = stepped sv (Submit key bytes (payload_digest (service_sha256 sv) bytes)) c
    \<and> route sv authority_ok (client_get host key) c = stepped sv (Reconcile key) c"
proof
  let ?req = "client_post host key bytes"
  have url: "urlsplit authority_ok ''/jobs'' = Some \<lparr>url_scheme = [], url_netloc = [], url_path = JOBS_PATH,
      url_query = [], url_fragment = []\<rparr>"
    by (subst urlsplit_plain_path) (simp_all add: plain_path_char_def JOBS_PATH_def)
  have "parse_content_length ?req True (Some MAX_BODY_BYTES) = Inr (int (length bytes))"
    by (rule client_content_length) (use assms(2,3) client_post_headers in simp_all)
  moreover have "matches_json_type (strip ''application/json'')" by code_simp
  moreover have "read_body ?req (int (length bytes)) = Inr bytes"
    using assms(2) by (simp add: read_body_def client_post_def)
  ultimately have "validate_submission sv ?req = Inr (key, bytes)"
    using assms(1,4,5) client_post_headers
    by (simp add: validate_submission_def bind_failure_def validate_no_transfer_encoding_def
        validate_json_content_type_def validate_submission_idempotency_key_def entry_failure_def canonicalize_def)
  then show "route sv authority_ok ?req c = stepped sv (Submit key bytes (payload_digest (service_sha256 sv) bytes)) c"
    by (simp add: route_def client_post_def url Let_def http_submission_def stepped_def)
  show "route sv authority_ok (client_get host key) c = stepped sv (Reconcile key) c"
    by (rule reconciliation_path_round_trip[OF assms(1)]) (simp_all add: client_get_def get_all_def lower_def Let_def)
qed

lemma witness_client_requests_arrive:
  "route sample_service (\<lambda>_. True) (client_post ''127.0.0.1:8080'' ''a~1'' ''{}'') new_coordinator
   = stepped sample_service (Submit ''a~1'' ''{}'' (payload_digest (service_sha256 sample_service) ''{}'')) new_coordinator"
proof -
  have "is_accepted_key ''a~1''" by code_simp
  moreover have "decode_utf8 ''{}'' = Some (ascii ''{}'')" "loads_strict 5 (ascii ''{}'') = Inr (JObj [])" by code_simp+
  then have "parse_job_entry (scan_limit sample_service) (walk_frames sample_service) ''{}'' = Inr (JObj [])"
    by (simp add: parse_job_entry_def sample_service_def eval_nat_numeral)
  moreover have "service_rfc8785 sample_service (JObj []) = Some ''{}''" by (simp add: sample_service_def)
  ultimately show ?thesis using client_requests_arrive[of "''a~1''" "''{}''" sample_service "JObj []"] by simp
qed

section \<open>Replies are understood\<close>

text \<open>What the adapter receives of a written reply: \<open>_write_json_response\<close> adds the content type.\<close>

fun received :: "(double \<Rightarrow> ustr) \<Rightarrow> delivery \<Rightarrow> transport_response option" where
  "received fr Aborted = None"
| "received fr (Response s b hs) =
     Some \<lparr>status = s, content_type = Some ''application/json'',
       retry_after_headers = map snd (filter (\<lambda>(n, v). n = ''Retry-After'') hs),
       body = Some (octets (dumps fr b))\<rparr>"

text \<open>The records a coordinator can hold: their key, their digest, an ASCII identifier.\<close>

definition records_ok :: "(payload \<Rightarrow> string) \<Rightarrow> coordinator \<Rightarrow> bool" where
  "records_ok digest_of_payload c \<longleftrightarrow>
     (\<forall>key r. processed_records c key = Some r \<longrightarrow>
        record_key r = key \<and> record_digest r = digest_of_payload (canonical_bytes r)
        \<and> is_ascii (record_remote_id r))"

lemma new_record_ok:
  assumes "\<And>s. is_ascii (sha s)"
  shows "is_ascii (record_remote_id (new_record sha plan key bytes digest))"
proof -
  have "is_ascii (take 24 (sha key))"
    using assms[of key] by (auto simp: is_ascii_def list_all_iff dest: in_set_takeD)
  moreover have "is_ascii ''remote-''" "is_ascii ''remote-duplicate''" by code_simp+
  ultimately show ?thesis
    by (simp add: new_record_def default_remote_request_id_def is_ascii_def)
qed

lemma records_ok_submission:
  assumes "records_ok dg c" "\<And>s. is_ascii (sha s)"
  shows "records_ok dg (snd (handle_submission sha plan key bytes (dg bytes) c))"
  using assms new_record_ok[of sha plan key bytes "dg bytes"]
  by (auto simp: records_ok_def submission_records new_record_def split: option.splits if_splits)

lemma scalar_ascii [simp]: "list_all is_scalar (ascii s)"
proof -
  have "is_scalar (of_char c)" for c :: char unfolding is_scalar_def using of_char_octet[of c] by linarith
  then show ?thesis by (simp add: list_all_iff ascii_def)
qed

lemma json_type: "has_json_content_type (Some ''application/json'')"
  by code_simp

lemma octets_ascii: "is_ascii s \<Longrightarrow> octets (ascii s) = s"
  using ascii_utf8[of s] by (auto simp: encode_utf8_def)

lemma read_error_body:
  assumes "plain_json (Suc d) (JObj err)" "has_keys err names"
    "is_str (member err ''code'')" "is_str (member err ''message'')"
  shows "parse_error_envelope (Suc (Suc d)) (Some (octets (dumps fr (error_body err)))) names = Inr (Some err)"
proof -
  have "plain_json (Suc (Suc d)) (error_body err)" using assms(1) by (simp add: error_body_def is_scalar_def)
  from read_written_object[OF this[unfolded error_body_def], of fr] assms(2-4) show ?thesis
    by (simp add: parse_error_envelope_def error_body_def has_keys_def member_def)
qed

lemma classify_submission_reply:
  assumes "is_ascii (record_remote_id r)" "s = (if replayed then 200 else 201)"
  shows "classify_response (Suc d) (the (received fr (Response s (submission_body r replayed) hs)))
     (record_key r) (record_digest r) = Inr (SubmitHttpSuccess s (record_remote_id r))"
proof -
  have "plain_json (Suc d) (submission_body r replayed)" by (simp add: submission_body_def str_member_def is_scalar_def)
  from read_written_object[OF this[unfolded submission_body_def], of fr] show ?thesis
    using assms json_type octets_ascii[OF assms(1)]
    by (auto simp: classify_response_def classify_success_def submission_body_def str_member_def
        has_keys_def success_fields_def member_def is_string_def)
qed

lemma classify_conflict_reply:
  "classify_response (Suc (Suc d)) (the (received fr (Response 409 (conflict_body r digest) hs))) key digest
   = Inr SubmitHttpIdempotencyConflict"
proof -
  let ?err = "[str_member ''code'' ''idempotency_conflict'',
      str_member ''message'' ''The idempotency key is already bound to a non-equivalent Job Entry.'',
      str_member ''stored_payload_digest'' (record_digest r),
      str_member ''submitted_payload_digest'' digest]"
  have "parse_error_envelope (Suc (Suc d)) (Some (octets (dumps fr (error_body ?err)))) conflict_fields
      = Inr (Some ?err)"
    by (rule read_error_body)
      (simp_all add: str_member_def has_keys_def conflict_fields_def member_def is_str_def is_scalar_def)
  then show ?thesis
    by (simp add: classify_response_def classify_idempotency_conflict_def conflict_body_def)
      (simp add: member_def str_member_def is_string_def is_str_def)
qed

lemma classify_rate_limited_reply:
  "classify_response (Suc (Suc d)) (the (received fr (Response 429 RATE_LIMITED_BODY [(''Retry-After'', ''1'')])))
     key digest = Inr (SubmitHttpRateLimited [''1''])"
proof -
  let ?err = "[str_member ''code'' ''rate_limited'', str_member ''message'' ''The simulated service is rate limited.'']"
  have "parse_error_envelope (Suc (Suc d)) (Some (octets (dumps fr (error_body ?err)))) [''code'', ''message'']
      = Inr (Some ?err)"
    by (rule read_error_body) (simp_all add: str_member_def has_keys_def member_def is_str_def is_scalar_def)
  then show ?thesis
    by (simp add: classify_response_def classify_rate_limited_def RATE_LIMITED_BODY_def)
      (simp add: member_def str_member_def is_string_def)
qed

lemma submission_reply_cases:
  assumes "handle_submission sha plan key bytes digest c = (Some out, c')" "delivered out = Response s b hs"
  obtains (conflict) r where "processed_records c key = Some r" "canonical_bytes r \<noteq> bytes" "s = 409"
      "b = conflict_body r digest" "hs = []"
  | (error) "s = 500" "b = SERVER_ERROR_BODY" "hs = []"
      "\<And>r. processed_records c key = Some r \<Longrightarrow> canonical_bytes r = bytes"
  | (limited) "s = 429" "b = RATE_LIMITED_BODY" "hs = [(''Retry-After'', ''1'')]"
      "\<And>r. processed_records c key = Some r \<Longrightarrow> canonical_bytes r = bytes"
  | (replay) r where "processed_records c key = Some r" "processed_records c' key = Some r" "canonical_bytes r = bytes"
      "s = 200" "b = submission_body r True" "hs = []"
  | (created) "processed_records c key = None"
      "processed_records c' key = Some (new_record sha plan key bytes digest)"
      "s = 201" "b = submission_body (new_record sha plan key bytes digest) False" "hs = []"
  using assms
  by (auto simp: handle_submission_def next_ordinal_def Let_def get_record_def create_record_def new_record_def
      split: option.splits action.splits if_splits)

text \<open>
  C22. The adapter understands the service: a response the service writes to a submission of a
  canonical payload with its digest is classified as what happened: a 200 or 201 as the success
  with the remote request id of the record now stored for this payload, a 409, which comes exactly
  when the key is bound to another payload, as the conflict, a 429 as the rate limit with the
  service's \<open>Retry-After\<close>, and a 500 as a server error.
\<close>

theorem submission_replies_are_understood:
  assumes "records_ok dg c" "\<And>t. is_ascii (sha t)"
    "handle_submission sha plan key bytes (dg bytes) c = (Some out, c')" "delivered out = Response s b hs"
  shows "(s = 409 \<longleftrightarrow> (\<exists>r. processed_records c key = Some r \<and> canonical_bytes r \<noteq> bytes))
    \<and> (s \<in> {200, 201} \<longrightarrow> (\<exists>r. processed_records c' key = Some r \<and> canonical_bytes r = bytes))
    \<and> classify_response (Suc (Suc d)) (the (received fr (delivered out))) key (dg bytes)
      = Inr (if s = 409 then SubmitHttpIdempotencyConflict
             else if s = 429 then SubmitHttpRateLimited [''1'']
             else if s = 500 then SubmitHttpServerError 500
             else SubmitHttpSuccess s (record_remote_id (the (processed_records c' key))))"
  using assms(3,4)
proof (cases rule: submission_reply_cases)
  case (conflict r)
  then show ?thesis using assms(4) classify_conflict_reply[of d fr r "dg bytes" "[]" key] by simp
next
  case error
  then show ?thesis using assms(4) by (auto simp: classify_response_def)
next
  case limited
  then show ?thesis using assms(4) classify_rate_limited_reply[of d fr key "dg bytes"] by auto
next
  case (replay r)
  with assms(1) have "record_key r = key" "record_digest r = dg bytes" "is_ascii (record_remote_id r)"
    by (auto simp: records_ok_def)
  with replay show ?thesis using assms(4) classify_submission_reply[of r s True "Suc d" fr "[]"] by simp
next
  case created
  let ?r = "new_record sha plan key bytes (dg bytes)"
  have "record_key ?r = key" "record_digest ?r = dg bytes" "canonical_bytes ?r = bytes" by (simp_all add: new_record_def)
  with created show ?thesis
    using assms(4) new_record_ok[of sha plan key bytes "dg bytes", OF assms(2)]
      classify_submission_reply[of ?r s False "Suc d" fr "[]"] by simp
qed

lemma witness_submission_replies_are_understood:
  "\<exists>out c'. handle_submission (\<lambda>s. ''00'') EMPTY_PLAN ''k'' ''{}'' ''d'' new_coordinator = (Some out, c')
     \<and> classify_response 2 (the (received (\<lambda>_. []) (delivered out))) ''k'' ''d''
        = Inr (SubmitHttpSuccess 201 ''remote-00'')"
proof -
  let ?r = "new_record (\<lambda>s. ''00'') EMPTY_PLAN ''k'' ''{}'' ''d''"
  let ?run = "handle_submission (\<lambda>s. ''00'') EMPTY_PLAN ''k'' ''{}'' ''d'' new_coordinator"
  have run: "?run = (Some (the (fst ?run)), snd ?run)"
    "delivered (the (fst ?run)) = Response 201 (submission_body ?r False) []"
    "processed_records (snd ?run) ''k'' = Some ?r" "record_remote_id ?r = ''remote-00''"
    by (simp_all add: handle_submission_def next_ordinal_def
        Let_def get_record_def create_record_def new_record_def new_coordinator_def resolve_def EMPTY_PLAN_def
        resolve_action_def SUBMISSION_def default_remote_request_id_def)
  have "records_ok (\<lambda>_. ''d'') new_coordinator" by (simp add: records_ok_def new_coordinator_def)
  moreover have "is_ascii ''00''" by code_simp
  ultimately have "classify_response (Suc (Suc 0)) (the (received (\<lambda>_. []) (delivered (the (fst ?run))))) ''k'' ''d''
      = Inr (SubmitHttpSuccess 201 ''remote-00'')"
    using submission_replies_are_understood[of "\<lambda>_. ''d''" new_coordinator "\<lambda>s. ''00''" EMPTY_PLAN "''k''" "''{}''",
        OF _ _ run(1,2), of 0 "\<lambda>_. []"] run(3,4) by simp
  then show ?thesis using run(1) by (simp add: numeral_2_eq_2) blast
qed

lemma classify_processed_reply:
  assumes "is_ascii (record_remote_id r)"
  shows "classify_reconcile_response (Suc d) (the (received fr (Response 200 (processed_body key r) hs))) key digest
    = Inr (if record_digest r = digest then ReconcileMatch 200 (record_remote_id r) else ReconcileConflict)"
proof -
  have "plain_json (Suc d) (processed_body key r)" by (simp add: processed_body_def str_member_def is_scalar_def)
  from read_written_object[OF this[unfolded processed_body_def], of fr] show ?thesis
    using json_type octets_ascii[OF assms]
    by (simp add: classify_reconcile_response_def classify_processed_def processed_body_def str_member_def
        has_keys_def processed_fields_def member_def is_string_def)
qed

lemma classify_not_found_reply:
  "classify_reconcile_response (Suc d) (the (received fr (Response 404 (not_found_body key) hs))) key digest
    = Inr ReconcileNotFound"
proof -
  have "plain_json (Suc d) (not_found_body key)" by (simp add: not_found_body_def str_member_def is_scalar_def)
  from read_written_object[OF this[unfolded not_found_body_def], of fr] show ?thesis
    using json_type
    by (simp add: classify_reconcile_response_def classify_not_found_def not_found_body_def str_member_def
        has_keys_def not_found_fields_def member_def is_string_def)
qed

lemma reconciliation_reply_cases:
  assumes "handle_reconciliation plan key c = (Some out, c')" "delivered out = Response s b hs"
  obtains (error) "s = 500" "b = SERVER_ERROR_BODY"
  | (found) r where "processed_records c key = Some r" "s = 200" "b = processed_body key r"
  | (missing) "processed_records c key = None" "s = 404" "b = not_found_body key"
  using assms
  by (auto simp: handle_reconciliation_def next_ordinal_def Let_def get_record_def
      split: option.splits action.splits if_splits)

text \<open>
  C29. The reconciliation adapter reads the service's records: a 200 is a match with the record's
  remote request id when the digests agree and the conflict otherwise, a 404 says that no record
  is stored, a 500 is a server error, and the records are as they were.
\<close>

theorem reconciliation_replies_are_understood:
  assumes "records_ok dg c" "handle_reconciliation plan key c = (Some out, c')" "delivered out = Response s b hs"
  shows "processed_records c' = processed_records c
    \<and> (s = 200 \<longrightarrow> (\<exists>r. processed_records c key = Some r))
    \<and> (s = 404 \<longrightarrow> processed_records c key = None)
    \<and> classify_reconcile_response (Suc d) (the (received fr (delivered out))) key (dg bytes)
      = Inr (if s = 500 then ReconcileServerError 500
             else case processed_records c key of
                 None \<Rightarrow> ReconcileNotFound
               | Some r \<Rightarrow> if dg (canonical_bytes r) = dg bytes then ReconcileMatch 200 (record_remote_id r)
                           else ReconcileConflict)"
proof -
  have "processed_records c' = processed_records c"
    using reconciliation_records[of plan key c] assms(2) by simp
  moreover from assms(2,3) have "(s = 200 \<longrightarrow> (\<exists>r. processed_records c key = Some r))
    \<and> (s = 404 \<longrightarrow> processed_records c key = None)
    \<and> classify_reconcile_response (Suc d) (the (received fr (delivered out))) key (dg bytes)
      = Inr (if s = 500 then ReconcileServerError 500
             else case processed_records c key of
                 None \<Rightarrow> ReconcileNotFound
               | Some r \<Rightarrow> if dg (canonical_bytes r) = dg bytes then ReconcileMatch 200 (record_remote_id r)
                           else ReconcileConflict)"
  proof (cases rule: reconciliation_reply_cases)
    case error
    then show ?thesis using assms(3) by (simp add: classify_reconcile_response_def)
  next
    case (found r)
    with assms(1) have "record_digest r = dg (canonical_bytes r)" "is_ascii (record_remote_id r)"
      by (auto simp: records_ok_def)
    with found show ?thesis using assms(3) classify_processed_reply[of r d fr key hs "dg bytes"] by simp
  next
    case missing
    then show ?thesis using assms(3) classify_not_found_reply[of d fr key hs "dg bytes"] by simp
  qed
  ultimately show ?thesis by blast
qed

lemma witness_reconciliation_replies_are_understood:
  "\<exists>out c'. handle_reconciliation EMPTY_PLAN ''k'' new_coordinator = (Some out, c')
     \<and> classify_reconcile_response 1 (the (received (\<lambda>_. []) (delivered out))) ''k'' ''d'' = Inr ReconcileNotFound"
proof -
  let ?run = "handle_reconciliation EMPTY_PLAN ''k'' new_coordinator"
  have run: "?run = (Some (the (fst ?run)), snd ?run)"
    "delivered (the (fst ?run)) = Response 404 (not_found_body ''k'') []"
    by (simp_all add: handle_reconciliation_def next_ordinal_def Let_def get_record_def new_coordinator_def
        resolve_def EMPTY_PLAN_def resolve_action_def)
  have ok: "records_ok (\<lambda>_. ''d'') new_coordinator" by (simp add: records_ok_def new_coordinator_def)
  have "processed_records new_coordinator ''k'' = None" by (simp add: new_coordinator_def)
  with reconciliation_replies_are_understood[OF ok run, of 0 "\<lambda>_. []"]
  have "classify_reconcile_response (Suc 0) (the (received (\<lambda>_. []) (delivered (the (fst ?run))))) ''k'' ''d''
      = Inr ReconcileNotFound" by simp
  then show ?thesis using run(1) by (intro exI[of _ "the (fst ?run)"] exI[of _ "snd ?run"]) simp
qed

lemma stepped_records_ok:
  assumes "records_ok (payload_digest (service_sha256 sv)) c" "\<And>t. is_ascii (service_sha256 sv t)"
  shows "records_ok (payload_digest (service_sha256 sv))
      (snd (stepped sv (Submit key bytes (payload_digest (service_sha256 sv) bytes)) c))"
    "records_ok (payload_digest (service_sha256 sv)) (snd (stepped sv (Reconcile key) c))"
  using records_ok_submission[OF assms(1), of "service_sha256 sv" "service_plan sv" key bytes] assms
  by (auto simp: stepped_def records_ok_def reconciliation_records split_beta)

lemma records_ok_route:
  assumes "records_ok (payload_digest (service_sha256 sv)) c" "\<And>t. is_ascii (service_sha256 sv t)"
  shows "records_ok (payload_digest (service_sha256 sv)) (snd (route sv authority_ok req c))"
  using route_effect[of sv authority_ok req c] stepped_records_ok[OF assms] assms(1) by auto

end
