(* ===== verification/Threads.thy ===== *)
theory Threads
  imports Simulator "HOL-Library.Multiset"
begin

text \<open>
  The service under concurrent handler threads.  \<open>Simulator\<close> makes a request one step on the state;
  here each access other threads can see is a step of its own (\<open>lock_for\<close>, taking the lock,
  \<open>next_ordinal\<close>, \<open>get_record\<close>, \<open>create_record\<close>, releasing the lock), in any interleaving with those
  of other threads, and it is shown that the replies cannot tell the difference.
\<close>

section \<open>A request in parts\<close>

text \<open>The arguments of the call of \<open>create_record\<close>, when there is one.\<close>

definition creation :: "scenario_plan \<Rightarrow> request \<Rightarrow> action \<Rightarrow> processed_record option
    \<Rightarrow> (string \<times> payload \<times> string \<times> bool) option" where
  "creation plan q action existing =
     (case q of
        Reconcile key \<Rightarrow> None
      | Submit key bytes digest \<Rightarrow>
          if existing \<noteq> None then None
          else if action = NORMAL
          then Some (key, bytes, digest, resolve plan SUBMISSION key = Some ''duplicate_remote_request_id'')
          else if action \<in> {PROCESS_THEN_DISCONNECT, PROCESS_THEN_TIMEOUT, PROCESS_THEN_500}
          then Some (key, bytes, digest, False) else None)"

text \<open>The outcome, from the action, the ordinal, the record found and the record created.\<close>

definition outcome_of :: "scenario_plan \<Rightarrow> request \<Rightarrow> action \<Rightarrow> int \<Rightarrow> processed_record option
    \<Rightarrow> processed_record option \<Rightarrow> service_outcome" where
  "outcome_of plan q action ordinal existing created =
     (let outcome = (\<lambda>d p. \<lparr>delivered = d, processed = p,
            logged_scenario = log_scenario (resolve plan (operation_of_request q) (request_key q)),
            outcome_ordinal = ordinal\<rparr>)
      in case q of
           Submit key bytes digest \<Rightarrow>
             if (case existing of Some r \<Rightarrow> canonical_bytes r \<noteq> bytes | None \<Rightarrow> False)
             then outcome (Response 409 (conflict_body (the existing) digest) []) True
             else (case action of
                 RETURN_500 \<Rightarrow> outcome (Response 500 SERVER_ERROR_BODY []) (existing \<noteq> None)
               | RETURN_429 \<Rightarrow> outcome (Response 429 RATE_LIMITED_BODY [(''Retry-After'', ''1'')]) (existing \<noteq> None)
               | TIMEOUT_NO_PROCESS \<Rightarrow> outcome Aborted (existing \<noteq> None)
               | NORMAL \<Rightarrow>
                   (case existing of
                      Some r \<Rightarrow> outcome (Response 200 (submission_body r True) []) True
                    | None \<Rightarrow> outcome (Response 201 (submission_body (the created) False) []) True)
               | PROCESS_THEN_500 \<Rightarrow> outcome (Response 500 SERVER_ERROR_BODY []) True
               | _ \<Rightarrow> outcome Aborted True)
         | Reconcile key \<Rightarrow>
             (case action of
                RETURN_500 \<Rightarrow> outcome (Response 500 SERVER_ERROR_BODY []) (existing \<noteq> None)
              | TIMEOUT_NO_PROCESS \<Rightarrow> outcome Aborted (existing \<noteq> None)
              | _ \<Rightarrow>
                  (case existing of
                     Some r \<Rightarrow> outcome (Response 200 (processed_body key r) []) True
                   | None \<Rightarrow> outcome (Response 404 (not_found_body key) []) False)))"

definition finish :: "(string \<Rightarrow> string) \<Rightarrow> scenario_plan \<Rightarrow> request \<Rightarrow> action \<Rightarrow> int \<Rightarrow> processed_record option
    \<Rightarrow> coordinator \<Rightarrow> service_outcome \<times> coordinator" where
  "finish sha plan q action ordinal existing c =
     (case creation plan q action existing of
        None \<Rightarrow> (outcome_of plan q action ordinal existing None, c)
      | Some (key, bytes, digest, duplicate) \<Rightarrow>
          (let (r, c') = create_record sha key bytes digest duplicate c
           in (outcome_of plan q action ordinal existing (Some r), c')))"

definition action_of :: "scenario_plan \<Rightarrow> request \<Rightarrow> int \<Rightarrow> action option" where
  "action_of plan q ordinal =
     resolve_action (resolve plan (operation_of_request q) (request_key q)) (operation_of_request q) ordinal"

lemma serve_in_parts:
  "serve sha plan q c0 =
     (let (ordinal, c) = next_ordinal (operation_of_request q) (request_key q) c0
      in case action_of plan q ordinal of
           None \<Rightarrow> (None, c)
         | Some action \<Rightarrow>
             (let (out, c') = finish sha plan q action ordinal (get_record (request_key q) c) c
              in (Some out, c')))"
proof (cases q)
  case (Submit key bytes digest)
  then show ?thesis
    by (auto simp: handle_submission_def finish_def creation_def outcome_of_def action_of_def Let_def
        operation_of_request_def next_ordinal_def get_record_def create_record_def split: option.split action.split)
next
  case (Reconcile key)
  then show ?thesis
    by (auto simp: handle_reconciliation_def finish_def creation_def outcome_of_def action_of_def Let_def
        operation_of_request_def next_ordinal_def get_record_def split: option.split action.split)
qed

section \<open>Threads\<close>

text \<open>
  Where a handler is: before \<open>lock_for\<close>; with the lock object it waits for; inside the \<open>with\<close>, before
  \<open>next_ordinal\<close>, before \<open>get_record\<close> (its action is resolved), before it may create a record, with
  its outcome (where a timeout preset waits); and after it released the lock.  A lock object is a
  number.
\<close>

datatype phase =
    Arrived
  | Waiting nat
  | Locked nat
  | Numbered nat int action
  | Looked nat int action "processed_record option"
  | Decided nat "service_outcome option"
  | Finished "service_outcome option"

text \<open>
  The coordinator with its lock table, which locks are taken, the threads, and the trace of replies in
  the order the locks were released, which no step reads.
\<close>

record system =
  coordinated :: coordinator
  locks :: "string \<rightharpoonup> nat"
  lock_count :: nat
  taken :: "nat set"
  threads :: "(request \<times> phase) list"
  replies :: "(request \<times> service_outcome option) list"

definition initial_system :: system where
  "initial_system = \<lparr>coordinated = new_coordinator, locks = Map.empty, lock_count = 0, taken = {},
     threads = [], replies = []\<rparr>"

text \<open>\<open>KeyCoordinator.lock_for\<close>, atomic under \<open>_locks_guard\<close>.\<close>

definition lock_for :: "string \<Rightarrow> system \<Rightarrow> nat \<times> system" where
  "lock_for key s =
     (case locks s key of
        Some l \<Rightarrow> (l, s)
      | None \<Rightarrow> (lock_count s, s\<lparr>locks := (locks s)(key \<mapsto> lock_count s), lock_count := Suc (lock_count s)\<rparr>))"

definition at_phase :: "nat \<Rightarrow> phase \<Rightarrow> system \<Rightarrow> system" where
  "at_phase i ph s = s\<lparr>threads := (threads s)[i := (fst (threads s ! i), ph)]\<rparr>"

inductive thread_step :: "(string \<Rightarrow> string) \<Rightarrow> scenario_plan \<Rightarrow> system \<Rightarrow> system \<Rightarrow> bool" for sha plan where
  step_lock_for: "i < length (threads s) \<Longrightarrow> threads s ! i = (q, Arrived) \<Longrightarrow> lock_for (request_key q) s = (l, s')
    \<Longrightarrow> thread_step sha plan s (at_phase i (Waiting l) s')"
| step_acquire: "i < length (threads s) \<Longrightarrow> threads s ! i = (q, Waiting l) \<Longrightarrow> l \<notin> taken s
    \<Longrightarrow> thread_step sha plan s (at_phase i (Locked l) (s\<lparr>taken := insert l (taken s)\<rparr>))"
| step_number: "i < length (threads s) \<Longrightarrow> threads s ! i = (q, Locked l)
    \<Longrightarrow> next_ordinal (operation_of_request q) (request_key q) (coordinated s) = (n, c)
    \<Longrightarrow> thread_step sha plan s (at_phase i
          (case action_of plan q n of None \<Rightarrow> Decided l None | Some action \<Rightarrow> Numbered l n action)
          (s\<lparr>coordinated := c\<rparr>))"
| step_look: "i < length (threads s) \<Longrightarrow> threads s ! i = (q, Numbered l n action)
    \<Longrightarrow> thread_step sha plan s (at_phase i (Looked l n action (get_record (request_key q) (coordinated s))) s)"
| step_decide: "i < length (threads s) \<Longrightarrow> threads s ! i = (q, Looked l n action existing)
    \<Longrightarrow> finish sha plan q action n existing (coordinated s) = (out, c)
    \<Longrightarrow> thread_step sha plan s (at_phase i (Decided l (Some out)) (s\<lparr>coordinated := c\<rparr>))"
| step_release: "i < length (threads s) \<Longrightarrow> threads s ! i = (q, Decided l out)
    \<Longrightarrow> thread_step sha plan s (at_phase i (Finished out)
          (s\<lparr>taken := taken s - {l}, replies := replies s @ [(q, out)]\<rparr>))"

text \<open>Requests arrive at any time, and any thread takes the next step.\<close>

inductive service_step :: "(string \<Rightarrow> string) \<Rightarrow> scenario_plan \<Rightarrow> system \<Rightarrow> system \<Rightarrow> bool" for sha plan where
  request_arrives: "service_step sha plan s (s\<lparr>threads := threads s @ [(q, Arrived)]\<rparr>)"
| thread_steps: "thread_step sha plan s s' \<Longrightarrow> service_step sha plan s s'"

definition reachable :: "(string \<Rightarrow> string) \<Rightarrow> scenario_plan \<Rightarrow> system \<Rightarrow> bool" where
  "reachable sha plan s \<longleftrightarrow> (service_step sha plan)\<^sup>*\<^sup>* initial_system s"

lemma reachable_initial: "reachable sha plan initial_system"
  by (simp add: reachable_def)

lemma reachable_arrival: "reachable sha plan s \<Longrightarrow> reachable sha plan (s\<lparr>threads := threads s @ [(q, Arrived)]\<rparr>)"
  unfolding reachable_def by (rule rtranclp.rtrancl_into_rtrancl) (auto intro: request_arrives)

lemma reachable_step: "reachable sha plan s \<Longrightarrow> thread_step sha plan s s' \<Longrightarrow> reachable sha plan s'"
  unfolding reachable_def by (rule rtranclp.rtrancl_into_rtrancl) (auto intro: thread_steps)

section \<open>The invariant\<close>

text \<open>The lock a thread knows, and the one it holds.\<close>

fun held :: "phase \<Rightarrow> nat option" where
  "held (Locked l) = Some l"
| "held (Numbered l n action) = Some l"
| "held (Looked l n action existing) = Some l"
| "held (Decided l out) = Some l"
| "held _ = None"

fun known_lock :: "phase \<Rightarrow> nat option" where
  "known_lock (Waiting l) = Some l"
| "known_lock ph = held ph"

text \<open>The state the replies so far leave when their requests are served one after the other.\<close>

definition served :: "(string \<Rightarrow> string) \<Rightarrow> scenario_plan \<Rightarrow> system \<Rightarrow> coordinator" where
  "served sha plan s = snd (serve_all sha plan (map fst (replies s)) new_coordinator)"

text \<open>How far a thread inside the lock is with the service of its request on \<open>d\<close>.\<close>

fun inside :: "(string \<Rightarrow> string) \<Rightarrow> scenario_plan \<Rightarrow> coordinator \<Rightarrow> coordinator \<Rightarrow> request \<Rightarrow> phase \<Rightarrow> bool" where
  "inside sha plan c d q (Locked l) = same_slot (request_key q) c d"
| "inside sha plan c d q (Numbered l n action) =
     (n = fst (next_ordinal (operation_of_request q) (request_key q) d) \<and> action_of plan q n = Some action
      \<and> same_slot (request_key q) c (snd (next_ordinal (operation_of_request q) (request_key q) d)))"
| "inside sha plan c d q (Looked l n action existing) =
     (n = fst (next_ordinal (operation_of_request q) (request_key q) d) \<and> action_of plan q n = Some action
      \<and> same_slot (request_key q) c (snd (next_ordinal (operation_of_request q) (request_key q) d))
      \<and> existing = get_record (request_key q) d)"
| "inside sha plan c d q (Decided l out) =
     (out = fst (serve sha plan q d) \<and> same_slot (request_key q) c (snd (serve sha plan q d)))"
| "inside sha plan c d q _ = True"

definition finished :: "request \<times> phase \<Rightarrow> (request \<times> service_outcome option) list" where
  "finished t = (case snd t of Finished out \<Rightarrow> [(fst t, out)] | _ \<Rightarrow> [])"

text \<open>
  Locks belong to one key each, a thread knows the lock of its key, the locks taken are those held, no
  two threads hold one, and the slot of a key that no thread works on is the one the replies leave.
\<close>

definition locks_ok :: "system \<Rightarrow> bool" where
  "locks_ok s \<longleftrightarrow> (\<forall>k l. locks s k = Some l \<longrightarrow> l < lock_count s)
     \<and> (\<forall>k k' l. locks s k = Some l \<longrightarrow> locks s k' = Some l \<longrightarrow> k = k')
     \<and> (\<forall>i<length (threads s). \<forall>l. known_lock (snd (threads s ! i)) = Some l
          \<longrightarrow> locks s (request_key (fst (threads s ! i))) = Some l)"

definition holders_ok :: "system \<Rightarrow> bool" where
  "holders_ok s \<longleftrightarrow> (\<forall>l. l \<in> taken s \<longleftrightarrow> (\<exists>i<length (threads s). held (snd (threads s ! i)) = Some l))
     \<and> (\<forall>i<length (threads s). \<forall>j<length (threads s). held (snd (threads s ! i)) \<noteq> None
          \<longrightarrow> held (snd (threads s ! i)) = held (snd (threads s ! j)) \<longrightarrow> i = j)"

definition slots_ok :: "(string \<Rightarrow> string) \<Rightarrow> scenario_plan \<Rightarrow> system \<Rightarrow> bool" where
  "slots_ok sha plan s \<longleftrightarrow>
     (\<forall>i<length (threads s). inside sha plan (coordinated s) (served sha plan s) (fst (threads s ! i)) (snd (threads s ! i)))
     \<and> (\<forall>k. (\<forall>i<length (threads s). request_key (fst (threads s ! i)) = k \<longrightarrow> held (snd (threads s ! i)) = None)
          \<longrightarrow> same_slot k (coordinated s) (served sha plan s))"

definition replies_ok :: "(string \<Rightarrow> string) \<Rightarrow> scenario_plan \<Rightarrow> system \<Rightarrow> bool" where
  "replies_ok sha plan s \<longleftrightarrow>
     fst (serve_all sha plan (map fst (replies s)) new_coordinator) = map snd (replies s)
     \<and> mset (replies s) = mset (concat (map finished (threads s)))"

text \<open>Slots of one key under the operations.\<close>

lemma same_slot_refl [simp]: "same_slot key c c"
  by (simp add: same_slot_def)

lemma same_slot_trans: "same_slot key c d \<Longrightarrow> same_slot key d e \<Longrightarrow> same_slot key c e"
  by (simp add: same_slot_def)

lemma same_slots_eq:
  assumes "\<And>key. same_slot key c d"
  shows "c = d"
proof (rule coordinator.equality)
  show "processed_records c = processed_records d" "ordinals c = ordinals d"
    using assms by (auto simp: same_slot_def)
qed simp

lemma next_ordinal_same_slot:
  "same_slot key c d \<Longrightarrow> same_slot key (snd (next_ordinal operation key c)) (snd (next_ordinal operation key d))"
  by (simp add: same_slot_def next_ordinal_def Let_def)

lemma next_ordinal_other_slot: "k \<noteq> key \<Longrightarrow> same_slot k (snd (next_ordinal operation key c)) c"
  by (simp add: same_slot_def next_ordinal_def Let_def)

lemma next_ordinal_record: "get_record k (snd (next_ordinal operation key c)) = get_record k c"
  by (simp add: get_record_def next_ordinal_def Let_def)

lemma get_record_same_slot: "same_slot key c d \<Longrightarrow> get_record key c = get_record key d"
  by (simp add: same_slot_def get_record_def)

lemma serve_same_slot:
  "same_slot (request_key q) c d \<Longrightarrow> same_slot (request_key q) (snd (serve sha plan q c)) (snd (serve sha plan q d))"
  using added_slot[of q c d sha plan] next_ordinal_slot[of _ c d]
  by (auto simp: same_slot_def serve_records serve_ordinals split: option.split)

lemma finish_same_slot:
  assumes "same_slot (request_key q) c d"
  shows "fst (finish sha plan q action n existing c) = fst (finish sha plan q action n existing d)
    \<and> same_slot (request_key q) (snd (finish sha plan q action n existing c)) (snd (finish sha plan q action n existing d))"
  using assms
  by (auto simp: finish_def create_record_def Let_def same_slot_def creation_def split: option.split request.split)

lemma finish_other_slot:
  "k \<noteq> request_key q \<Longrightarrow> same_slot k (snd (finish sha plan q action n existing c)) c"
  by (auto simp: finish_def create_record_def Let_def same_slot_def creation_def split: option.split request.split)

lemma inside_slot:
  assumes "inside sha plan c d q ph" "same_slot (request_key q) c' c" "same_slot (request_key q) d' d"
  shows "inside sha plan c' d' q ph"
  using assms serve_slot[OF assms(3), of sha plan] next_ordinal_slot[OF assms(3)] get_record_same_slot[OF assms(3)]
    serve_same_slot[OF assms(3), of sha plan] next_ordinal_same_slot[OF assms(3)]
  by (cases ph; simp; metis same_slot_trans same_slot_sym)

lemma mset_update_concat:
  "i < length xs \<Longrightarrow> mset (concat (map f (xs[i := y]))) + mset (f (xs ! i)) = mset (concat (map f xs)) + mset (f y)"
proof -
  assume i: "i < length xs"
  then have "concat (map f xs) = concat (map f (take i xs)) @ f (xs ! i) @ concat (map f (drop (Suc i) xs))"
    by (subst id_take_nth_drop[OF i]) simp
  moreover have "concat (map f (xs[i := y])) = concat (map f (take i xs)) @ f y @ concat (map f (drop (Suc i) xs))"
    using i by (simp add: upd_conv_take_nth_drop)
  ultimately show ?thesis by (simp add: ac_simps)
qed

section \<open>Every step keeps it\<close>

definition system_ok :: "(string \<Rightarrow> string) \<Rightarrow> scenario_plan \<Rightarrow> system \<Rightarrow> bool" where
  "system_ok sha plan s \<longleftrightarrow> locks_ok s \<and> holders_ok s \<and> slots_ok sha plan s \<and> replies_ok sha plan s"

lemma at_phase_sel [simp]:
  "coordinated (at_phase i ph s) = coordinated s" "locks (at_phase i ph s) = locks s"
  "lock_count (at_phase i ph s) = lock_count s" "taken (at_phase i ph s) = taken s"
  "replies (at_phase i ph s) = replies s" "length (threads (at_phase i ph s)) = length (threads s)"
  "served sha plan (at_phase i ph s) = served sha plan s"
  by (simp_all add: at_phase_def served_def)

lemma at_phase_nth:
  "i < length (threads s) \<Longrightarrow> j < length (threads s) \<Longrightarrow>
     threads (at_phase i ph s) ! j = (fst (threads s ! j), if j = i then ph else snd (threads s ! j))"
  by (simp add: at_phase_def)

lemma held_known: "held ph = Some l \<Longrightarrow> known_lock ph = Some l"
  by (cases ph) auto

text \<open>A thread inside the lock is the only one with its key there.\<close>

lemma alone_inside:
  assumes "locks_ok s" "holders_ok s" "i < length (threads s)" "j < length (threads s)"
    "held (snd (threads s ! i)) = Some l" "held (snd (threads s ! j)) = Some l'"
    "request_key (fst (threads s ! i)) = request_key (fst (threads s ! j))"
  shows "i = j"
proof -
  have "locks s (request_key (fst (threads s ! i))) = Some l" "locks s (request_key (fst (threads s ! j))) = Some l'"
    using assms(1,3-6) held_known unfolding locks_ok_def by blast+
  then have "l = l'" using assms(7) by simp
  then show ?thesis using assms(2-6) unfolding holders_ok_def by simp
qed

lemma inside_other:
  assumes ok: "system_ok sha plan s" and i: "i < length (threads s)" "held (snd (threads s ! i)) = Some l"
    and j: "j < length (threads s)" "j \<noteq> i"
    and c: "\<And>k. k \<noteq> request_key (fst (threads s ! i)) \<Longrightarrow> same_slot k c (coordinated s)"
    and d: "\<And>k. k \<noteq> request_key (fst (threads s ! i)) \<Longrightarrow> same_slot k d (served sha plan s)"
  shows "inside sha plan c d (fst (threads s ! j)) (snd (threads s ! j))"
proof (cases "held (snd (threads s ! j))")
  case None
  then show ?thesis by (cases "snd (threads s ! j)") simp_all
next
  case (Some l')
  with ok i j have "request_key (fst (threads s ! j)) \<noteq> request_key (fst (threads s ! i))"
    using alone_inside[of s i j l l'] by (auto simp: system_ok_def)
  with ok j(1) c d show ?thesis
    using inside_slot[of sha plan "coordinated s" "served sha plan s"] by (simp add: system_ok_def slots_ok_def)
qed

lemma finished_held: "held ph \<noteq> None \<Longrightarrow> finished (q, ph) = []"
  by (cases ph) (simp_all add: finished_def)

lemma finished_at_phase:
  assumes "i < length (threads s)" "finished (threads s ! i) = []"
  shows "mset (concat (map finished (threads (at_phase i ph s))))
    = mset (concat (map finished (threads s))) + mset (finished (fst (threads s ! i), ph))"
  using mset_update_concat[OF assms(1), of finished "(fst (threads s ! i), ph)"] assms(2) by (simp add: at_phase_def)

lemma holders_same:
  assumes "holders_ok s" "length (threads s') = length (threads s)" "taken s' = taken s"
    "\<And>j. j < length (threads s) \<Longrightarrow> held (snd (threads s' ! j)) = held (snd (threads s ! j))"
  shows "holders_ok s'"
proof -
  have "\<And>l. l \<in> taken s \<longleftrightarrow> (\<exists>i<length (threads s). held (snd (threads s ! i)) = Some l)"
    "\<And>i j. i < length (threads s) \<Longrightarrow> j < length (threads s) \<Longrightarrow> held (snd (threads s ! i)) \<noteq> None
      \<Longrightarrow> held (snd (threads s ! i)) = held (snd (threads s ! j)) \<Longrightarrow> i = j"
    using assms(1) unfolding holders_ok_def by blast+
  note o = this
  show ?thesis
    unfolding holders_ok_def assms(2,3)
  proof (intro conjI allI impI)
    fix l
    show "l \<in> taken s \<longleftrightarrow> (\<exists>i<length (threads s). held (snd (threads s' ! i)) = Some l)"
      using o(1) by (simp add: assms(4) cong: conj_cong)
  next
    fix i j assume "i < length (threads s)" "j < length (threads s)" "held (snd (threads s' ! i)) \<noteq> None"
      "held (snd (threads s' ! i)) = held (snd (threads s' ! j))"
    then show "i = j" using o(2)[of i j] assms(4)[of i] assms(4)[of j] by simp
  qed
qed

lemma slots_same:
  assumes "slots_ok sha plan s" "length (threads s') = length (threads s)"
    "coordinated s' = coordinated s" "served sha plan s' = served sha plan s"
    "\<And>j. j < length (threads s) \<Longrightarrow> fst (threads s' ! j) = fst (threads s ! j)"
    "\<And>j. j < length (threads s)
      \<Longrightarrow> inside sha plan (coordinated s) (served sha plan s) (fst (threads s ! j)) (snd (threads s' ! j))"
    "\<And>j. j < length (threads s) \<Longrightarrow> held (snd (threads s' ! j)) = None \<Longrightarrow> held (snd (threads s ! j)) = None"
  shows "slots_ok sha plan s'"
  unfolding slots_ok_def assms(2-4)
proof (intro conjI allI impI)
  fix j assume "j < length (threads s)"
  then show "inside sha plan (coordinated s) (served sha plan s) (fst (threads s' ! j)) (snd (threads s' ! j))"
    using assms(5,6) by simp
next
  fix k assume "\<forall>j<length (threads s). request_key (fst (threads s' ! j)) = k \<longrightarrow> held (snd (threads s' ! j)) = None"
  then have "\<forall>j<length (threads s). request_key (fst (threads s ! j)) = k \<longrightarrow> held (snd (threads s ! j)) = None"
    using assms(5,7) by simp
  with assms(1) show "same_slot k (coordinated s) (served sha plan s)" unfolding slots_ok_def by blast
qed

lemma ex_updated: "i < n \<Longrightarrow> (\<exists>j<n. (if j = i then x else f j) = y) \<longleftrightarrow> x = y \<or> (\<exists>j<n. j \<noteq> i \<and> f j = y)"
  by auto

text \<open>A step of a thread that stays inside the lock, and changes the slot of its key only.\<close>

lemma step_inside:
  assumes ok: "system_ok sha plan s" and i: "i < length (threads s)" and t: "threads s ! i = (q, ph)"
    and h: "held ph = Some l" "held ph' = Some l"
    and c: "\<And>k. k \<noteq> request_key q \<Longrightarrow> same_slot k c (coordinated s)"
    and new: "inside sha plan c (served sha plan s) q ph'"
  shows "system_ok sha plan (at_phase i ph' (s\<lparr>coordinated := c\<rparr>))"
proof -
  let ?s = "at_phase i ph' (s\<lparr>coordinated := c\<rparr>)"
  have nth: "threads ?s ! j = (fst (threads s ! j), if j = i then ph' else snd (threads s ! j))"
    if "j < length (threads s)" for j
    using at_phase_nth[of i "s\<lparr>coordinated := c\<rparr>" j ph'] i that by simp
  have held: "held (snd (threads ?s ! j)) = held (snd (threads s ! j))" if "j < length (threads s)" for j
    using that t h by (simp add: nth)
  from ok have l: "locks_ok s" and o: "holders_ok s" and sl: "slots_ok sha plan s" and r: "replies_ok sha plan s"
    by (simp_all add: system_ok_def)
  have known: "known_lock ph = Some l" "known_lock ph' = Some l" using h held_known by auto
  have "locks_ok ?s" using l i t known by (auto simp: locks_ok_def nth)
  moreover have "holders_ok ?s" by (rule holders_same[OF o]) (simp_all add: held)
  moreover have "slots_ok sha plan ?s"
    unfolding slots_ok_def
  proof (intro conjI allI impI)
    fix j assume "j < length (threads ?s)"
    then show "inside sha plan (coordinated ?s) (served sha plan ?s) (fst (threads ?s ! j)) (snd (threads ?s ! j))"
      using inside_other[OF ok i _ _ _ _ same_slot_refl, of l j c] t h c new by (simp add: nth served_def)
  next
    fix k assume k: "\<forall>j<length (threads ?s). request_key (fst (threads ?s ! j)) = k \<longrightarrow> held (snd (threads ?s ! j)) = None"
    then have "\<forall>j<length (threads s). request_key (fst (threads s ! j)) = k \<longrightarrow> held (snd (threads s ! j)) = None"
      using held by (simp add: nth)
    moreover from this i t h have "same_slot k c (coordinated s)" by (intro c) auto
    ultimately show "same_slot k (coordinated ?s) (served sha plan ?s)"
      using sl same_slot_trans[of k c "coordinated s"] by (simp add: slots_ok_def served_def)
  qed
  moreover have "replies_ok sha plan ?s"
    using r i t h finished_at_phase[of i "s\<lparr>coordinated := c\<rparr>" ph'] by (simp add: replies_ok_def finished_held)
  ultimately show ?thesis by (simp add: system_ok_def)
qed

lemma lock_forD:
  assumes "lock_for key s = (l, s')"
  shows "coordinated s' = coordinated s" "threads s' = threads s" "taken s' = taken s" "replies s' = replies s"
    "locks s' key = Some l" "\<And>k l'. locks s k = Some l' \<Longrightarrow> locks s' k = Some l'"
    "locks_ok s \<Longrightarrow> locks_ok s'"
proof -
  show "coordinated s' = coordinated s" "threads s' = threads s" "taken s' = taken s" "replies s' = replies s"
    "locks s' key = Some l" "\<And>k l'. locks s k = Some l' \<Longrightarrow> locks s' k = Some l'"
    using assms by (auto simp: lock_for_def split: option.splits)
  assume l: "locks_ok s"
  show "locks_ok s'"
  proof (cases "locks s key")
    case (Some l')
    with assms l show ?thesis by (simp add: lock_for_def)
  next
    case None
    with assms have s': "s' = s\<lparr>locks := (locks s)(key \<mapsto> lock_count s), lock_count := Suc (lock_count s)\<rparr>"
      by (auto simp: lock_for_def)
    have "locks s k \<noteq> Some (lock_count s)" for k using l unfolding locks_ok_def by auto
    moreover have "locks s (request_key (fst (threads s ! i))) = Some l'"
      if "i < length (threads s)" "known_lock (snd (threads s ! i)) = Some l'" for i l'
      using that l unfolding locks_ok_def by blast
    moreover have "l' < lock_count s" if "locks s k = Some l'" for k l' using that l unfolding locks_ok_def by blast
    moreover have "k = k'" if "locks s k = Some l'" "locks s k' = Some l'" for k k' l'
      using that l unfolding locks_ok_def by blast
    ultimately show ?thesis using None unfolding locks_ok_def s' by (auto intro: less_SucI)
  qed
qed

lemma step_lock_for_ok:
  assumes ok: "system_ok sha plan s" and i: "i < length (threads s)" and t: "threads s ! i = (q, Arrived)"
    and lf: "lock_for (request_key q) s = (l, s')"
  shows "system_ok sha plan (at_phase i (Waiting l) s')"
proof -
  let ?s = "at_phase i (Waiting l) s'"
  note s' = lock_forD[OF lf]
  have nth: "threads ?s ! j = (fst (threads s ! j), if j = i then Waiting l else snd (threads s ! j))"
    if "j < length (threads s)" for j
    using at_phase_nth[of i s' j "Waiting l"] i that s'(2) by simp
  have held: "held (snd (threads ?s ! j)) = held (snd (threads s ! j))" if "j < length (threads s)" for j
    using that t by (simp add: nth)
  have served: "served sha plan s' = served sha plan s" using s'(4) by (simp add: served_def)
  from ok have l: "locks_ok s" and o: "holders_ok s" and sl: "slots_ok sha plan s" and r: "replies_ok sha plan s"
    by (simp_all add: system_ok_def)
  have "locks_ok ?s" using s'(7)[OF l] s'(2,5) t by (auto simp: locks_ok_def nth)
  moreover have "holders_ok ?s" by (rule holders_same[OF o]) (simp_all add: held s'(2,3))
  moreover have "slots_ok sha plan ?s"
    by (rule slots_same[OF sl]) (use sl s'(1,2) t in \<open>simp_all add: nth served slots_ok_def split: if_splits\<close>)
  moreover have "replies_ok sha plan ?s"
    using r i t s'(2,4) finished_at_phase[of i s' "Waiting l"] by (simp add: replies_ok_def finished_def)
  ultimately show ?thesis by (simp add: system_ok_def)
qed

lemma step_acquire_ok:
  assumes ok: "system_ok sha plan s" and i: "i < length (threads s)" and t: "threads s ! i = (q, Waiting l)"
    and free: "l \<notin> taken s"
  shows "system_ok sha plan (at_phase i (Locked l) (s\<lparr>taken := insert l (taken s)\<rparr>))"
proof -
  let ?s = "at_phase i (Locked l) (s\<lparr>taken := insert l (taken s)\<rparr>)"
  have nth: "threads ?s ! j = (fst (threads s ! j), if j = i then Locked l else snd (threads s ! j))"
    if "j < length (threads s)" for j
    using at_phase_nth[of i "s\<lparr>taken := insert l (taken s)\<rparr>" j "Locked l"] i that by simp
  have held: "held (snd (threads ?s ! j)) = (if j = i then Some l else held (snd (threads s ! j)))"
    if "j < length (threads s)" for j
    using nth[OF that] by simp
  from ok have l: "locks_ok s" and o: "holders_ok s" and sl: "slots_ok sha plan s" and r: "replies_ok sha plan s"
    by (simp_all add: system_ok_def)
  have nobody: "held (snd (threads s ! j)) \<noteq> Some l" if "j < length (threads s)" for j
    using that free o unfolding holders_ok_def by blast
  have key: "locks s (request_key q) = Some l" using l i t unfolding locks_ok_def by fastforce
  have out: "held (snd (threads s ! j)) = None"
    if "j < length (threads s)" "request_key (fst (threads s ! j)) = request_key q" for j
  proof (rule ccontr)
    assume "held (snd (threads s ! j)) \<noteq> None"
    then obtain l' where l': "held (snd (threads s ! j)) = Some l'" by auto
    with l that(1) have "locks s (request_key (fst (threads s ! j))) = Some l'"
      using held_known unfolding locks_ok_def by blast
    with that key l' nobody show False by simp
  qed
  have "locks_ok ?s" using l i t by (auto simp: locks_ok_def nth)
  moreover have "holders_ok ?s"
    unfolding holders_ok_def
  proof (intro conjI allI impI)
    fix l'
    have "l' \<in> taken s \<longleftrightarrow> (\<exists>j<length (threads s). j \<noteq> i \<and> held (snd (threads s ! j)) = Some l')"
      using o t unfolding holders_ok_def by (metis held.simps(6) option.distinct(1) snd_conv)
    then show "l' \<in> taken ?s \<longleftrightarrow> (\<exists>j<length (threads ?s). held (snd (threads ?s ! j)) = Some l')"
      using ex_updated[OF i, of "Some l" "\<lambda>j. held (snd (threads s ! j))" "Some l'"] by (auto simp: held cong: conj_cong)
  next
    fix j j' assume j: "j < length (threads ?s)" "j' < length (threads ?s)" "held (snd (threads ?s ! j)) \<noteq> None"
      "held (snd (threads ?s ! j)) = held (snd (threads ?s ! j'))"
    then show "j = j'"
      using o nobody[of j] nobody[of j'] unfolding holders_ok_def by (simp add: held split: if_splits)
  qed
  moreover have "same_slot (request_key q) (coordinated s) (served sha plan s)"
    using sl out unfolding slots_ok_def by blast
  then have "slots_ok sha plan ?s"
    by (intro slots_same[OF sl]) (use sl t in \<open>simp_all add: nth served_def slots_ok_def split: if_splits\<close>)
  moreover have "replies_ok sha plan ?s"
    using r i t finished_at_phase[of i "s\<lparr>taken := insert l (taken s)\<rparr>" "Locked l"]
    by (simp add: replies_ok_def finished_def)
  ultimately show ?thesis by (simp add: system_ok_def)
qed

lemma serve_all_snoc:
  "serve_all sha plan (qs @ [q]) c =
     (fst (serve_all sha plan qs c) @ [fst (serve sha plan q (snd (serve_all sha plan qs c)))],
      snd (serve sha plan q (snd (serve_all sha plan qs c))))"
  by (induction qs arbitrary: c) (simp_all add: Let_def split: prod.split)

lemma step_release_ok:
  assumes ok: "system_ok sha plan s" and i: "i < length (threads s)" and t: "threads s ! i = (q, Decided l out)"
  shows "system_ok sha plan (at_phase i (Finished out)
     (s\<lparr>taken := taken s - {l}, replies := replies s @ [(q, out)]\<rparr>))"
proof -
  let ?r = "s\<lparr>taken := taken s - {l}, replies := replies s @ [(q, out)]\<rparr>"
  let ?s = "at_phase i (Finished out) ?r"
  have nth: "threads ?s ! j = (fst (threads s ! j), if j = i then Finished out else snd (threads s ! j))"
    if "j < length (threads s)" for j
    using at_phase_nth[of i ?r j "Finished out"] i that by simp
  have held: "held (snd (threads ?s ! j)) = (if j = i then None else held (snd (threads s ! j)))"
    if "j < length (threads s)" for j
    using nth[OF that] by simp
  from ok have l: "locks_ok s" and o: "holders_ok s" and sl: "slots_ok sha plan s" and r: "replies_ok sha plan s"
    by (simp_all add: system_ok_def)
  have served: "served sha plan ?r = snd (serve sha plan q (served sha plan s))"
    by (simp add: served_def serve_all_snoc)
  have mine: "out = fst (serve sha plan q (served sha plan s))"
    "same_slot (request_key q) (coordinated s) (snd (serve sha plan q (served sha plan s)))"
    using sl i t unfolding slots_ok_def by fastforce+
  have other: "j = i" if "j < length (threads s)" "held (snd (threads s ! j)) = Some l" for j
    using o i t that unfolding holders_ok_def by fastforce
  have "locks_ok ?s" using l by (auto simp: locks_ok_def nth)
  moreover have "holders_ok ?s"
    unfolding holders_ok_def
  proof (intro conjI allI impI)
    fix l'
    have "l' \<in> taken s \<longleftrightarrow> (\<exists>j<length (threads s). held (snd (threads s ! j)) = Some l')"
      using o unfolding holders_ok_def by blast
    moreover have "held (snd (threads s ! i)) = Some l" using t by simp
    ultimately have "l' \<in> taken s - {l} \<longleftrightarrow> (\<exists>j<length (threads s). j \<noteq> i \<and> held (snd (threads s ! j)) = Some l')"
      using other by (metis Diff_iff option.inject singletonD singletonI)
    then show "l' \<in> taken ?s \<longleftrightarrow> (\<exists>j<length (threads ?s). held (snd (threads ?s ! j)) = Some l')"
      using ex_updated[OF i, of None "\<lambda>j. held (snd (threads s ! j))" "Some l'"] by (simp add: held cong: conj_cong)
  next
    fix j j' assume "j < length (threads ?s)" "j' < length (threads ?s)" "held (snd (threads ?s ! j)) \<noteq> None"
      "held (snd (threads ?s ! j)) = held (snd (threads ?s ! j'))"
    then show "j = j'" using o unfolding holders_ok_def by (simp add: held split: if_splits)
  qed
  moreover have "slots_ok sha plan ?s"
    unfolding slots_ok_def
  proof (intro conjI allI impI)
    fix j assume "j < length (threads ?s)"
    then show "inside sha plan (coordinated ?s) (served sha plan ?s) (fst (threads ?s ! j)) (snd (threads ?s ! j))"
      using inside_other[OF ok i _ _ _ same_slot_refl, of l j "snd (serve sha plan q (served sha plan s))"] t
        serve_other_slot[of q _ sha plan "served sha plan s"] by (auto simp: nth served)
  next
    fix k assume k: "\<forall>j<length (threads ?s). request_key (fst (threads ?s ! j)) = k \<longrightarrow> held (snd (threads ?s ! j)) = None"
    show "same_slot k (coordinated ?s) (served sha plan ?s)"
    proof (cases "k = request_key q")
      case True
      with mine(2) show ?thesis by (simp add: served)
    next
      case False
      with k t have "\<forall>j<length (threads s). request_key (fst (threads s ! j)) = k \<longrightarrow> held (snd (threads s ! j)) = None"
        by (auto simp: nth split: if_splits)
      with sl have "same_slot k (coordinated s) (served sha plan s)" by (simp add: slots_ok_def)
      with False show ?thesis
        using serve_other_slot[of q k sha plan "served sha plan s"] by (auto simp: served intro: same_slot_trans same_slot_sym)
    qed
  qed
  moreover have "replies_ok sha plan ?s"
    using r i t mine(1) finished_at_phase[of i ?r "Finished out"]
    by (simp add: replies_ok_def finished_def serve_all_snoc served_def)
  ultimately show ?thesis by (simp add: system_ok_def)
qed

lemma action_out:
  assumes "next_ordinal (operation_of_request q) (request_key q) d = (n, d')" "action_of plan q n = None"
  shows "serve sha plan q d = (None, d')"
  using assms by (simp add: serve_in_parts)

lemma finish_out:
  assumes "next_ordinal (operation_of_request q) (request_key q) d = (n, d')" "action_of plan q n = Some action"
  shows "serve sha plan q d = (let (out, e) = finish sha plan q action n (get_record (request_key q) d') d' in (Some out, e))"
  using assms by (simp add: serve_in_parts)

lemma step_number_ok:
  assumes ok: "system_ok sha plan s" and i: "i < length (threads s)" and t: "threads s ! i = (q, Locked l)"
    and n: "next_ordinal (operation_of_request q) (request_key q) (coordinated s) = (n, c)"
  shows "system_ok sha plan (at_phase i (case action_of plan q n of None \<Rightarrow> Decided l None | Some action \<Rightarrow> Numbered l n action)
    (s\<lparr>coordinated := c\<rparr>))"
proof (rule step_inside[OF ok i t])
  let ?d = "served sha plan s"
  have slot: "same_slot (request_key q) (coordinated s) ?d"
    using ok i t unfolding system_ok_def slots_ok_def by fastforce
  then have same: "same_slot (request_key q) c (snd (next_ordinal (operation_of_request q) (request_key q) ?d))"
    "n = fst (next_ordinal (operation_of_request q) (request_key q) ?d)"
    using next_ordinal_same_slot[OF slot, of "operation_of_request q"]
      next_ordinal_slot[OF slot, of "operation_of_request q"] n by simp_all
  show "held (Locked l) = Some l" by simp
  show "held (case action_of plan q n of None \<Rightarrow> Decided l None | Some action \<Rightarrow> Numbered l n action) = Some l"
    by (simp split: option.split)
  show "same_slot k c (coordinated s)" if "k \<noteq> request_key q" for k
    using next_ordinal_other_slot[OF that, of "operation_of_request q" "coordinated s"] n by simp
  show "inside sha plan c ?d q (case action_of plan q n of None \<Rightarrow> Decided l None | Some action \<Rightarrow> Numbered l n action)"
    using same action_out[of q ?d n "snd (next_ordinal (operation_of_request q) (request_key q) ?d)" plan sha]
    by (simp split: option.split)
qed

lemma step_look_ok:
  assumes ok: "system_ok sha plan s" and i: "i < length (threads s)" and t: "threads s ! i = (q, Numbered l n action)"
  shows "system_ok sha plan (at_phase i (Looked l n action (get_record (request_key q) (coordinated s))) s)"
proof -
  let ?d = "served sha plan s"
  have "inside sha plan (coordinated s) ?d q (Numbered l n action)"
    using ok i t unfolding system_ok_def slots_ok_def by fastforce
  then have "inside sha plan (coordinated s) ?d q (Looked l n action (get_record (request_key q) (coordinated s)))"
    using get_record_same_slot next_ordinal_record by fastforce
  from step_inside[OF ok i t _ _ _ this, of l] show ?thesis by (simp del: inside.simps)
qed

lemma step_decide_ok:
  assumes ok: "system_ok sha plan s" and i: "i < length (threads s)" and t: "threads s ! i = (q, Looked l n action existing)"
    and f: "finish sha plan q action n existing (coordinated s) = (out, c)"
  shows "system_ok sha plan (at_phase i (Decided l (Some out)) (s\<lparr>coordinated := c\<rparr>))"
proof (rule step_inside[OF ok i t])
  let ?d = "served sha plan s"
  let ?o = "next_ordinal (operation_of_request q) (request_key q) ?d"
  have "inside sha plan (coordinated s) ?d q (Looked l n action existing)"
    using ok i t unfolding system_ok_def slots_ok_def by fastforce
  then have at: "n = fst ?o" "action_of plan q n = Some action" "same_slot (request_key q) (coordinated s) (snd ?o)"
    "existing = get_record (request_key q) (snd ?o)"
    by (auto simp: next_ordinal_record)
  then have "serve sha plan q ?d = (Some (fst (finish sha plan q action n existing (snd ?o))),
      snd (finish sha plan q action n existing (snd ?o)))"
    using finish_out[of q ?d n "snd ?o" plan action sha] by (simp add: split_beta)
  with finish_same_slot[OF at(3), of sha plan action n existing] f
  show "inside sha plan c ?d q (Decided l (Some out))" by simp
  show "same_slot k c (coordinated s)" if "k \<noteq> request_key q" for k
    using finish_other_slot[OF that, of sha plan action n existing "coordinated s"] f by simp
qed simp_all

lemma thread_step_ok: "thread_step sha plan s s' \<Longrightarrow> system_ok sha plan s \<Longrightarrow> system_ok sha plan s'"
proof (induction rule: thread_step.induct)
  case (step_lock_for i s q l s')
  then show ?case by (intro step_lock_for_ok)
next
  case (step_acquire i s q l)
  then show ?case by (intro step_acquire_ok)
next
  case (step_number i s q l n c)
  then show ?case by (intro step_number_ok)
next
  case (step_look i s q l n action)
  then show ?case by (intro step_look_ok)
next
  case (step_decide i s q l n action existing out c)
  then show ?case by (intro step_decide_ok)
next
  case (step_release i s q l out)
  then show ?case by (intro step_release_ok)
qed

lemma arrival_ok:
  assumes "system_ok sha plan s"
  shows "system_ok sha plan (s\<lparr>threads := threads s @ [(q, Arrived)]\<rparr>)"
proof -
  let ?s = "s\<lparr>threads := threads s @ [(q, Arrived)]\<rparr>"
  from assms have l: "locks_ok s" and o: "holders_ok s" and sl: "slots_ok sha plan s" and r: "replies_ok sha plan s"
    by (simp_all add: system_ok_def)
  have "locks_ok ?s" using l by (auto simp: locks_ok_def nth_append less_Suc_eq)
  moreover have "holders_ok ?s"
    unfolding holders_ok_def
  proof (intro conjI allI impI)
    fix k show "k \<in> taken ?s \<longleftrightarrow> (\<exists>i<length (threads ?s). held (snd (threads ?s ! i)) = Some k)"
      using o unfolding holders_ok_def by (auto simp: nth_append less_Suc_eq)
  next
    fix i j assume "i < length (threads ?s)" "j < length (threads ?s)" "held (snd (threads ?s ! i)) \<noteq> None"
      "held (snd (threads ?s ! i)) = held (snd (threads ?s ! j))"
    with o show "i = j" unfolding holders_ok_def by (simp add: nth_append less_Suc_eq split: if_splits)
  qed
  moreover have "served sha plan ?s = served sha plan s" by (simp add: served_def)
  then have "slots_ok sha plan ?s"
    using sl unfolding slots_ok_def by (simp add: nth_append less_Suc_eq all_conj_distrib)
  moreover have "replies_ok sha plan ?s" using r by (simp add: replies_ok_def finished_def)
  ultimately show ?thesis by (simp add: system_ok_def)
qed

lemma initial_system_ok: "system_ok sha plan initial_system"
  by (simp add: initial_system_def system_ok_def locks_ok_def holders_ok_def slots_ok_def replies_ok_def served_def)

text \<open>The trace of replies only grows, so it is in real-time order.\<close>

definition replies_le :: "system \<Rightarrow> system \<Rightarrow> bool" where
  "replies_le s t \<longleftrightarrow> (\<exists>rs. replies t = replies s @ rs)"

lemma thread_step_replies: "thread_step sha plan s s' \<Longrightarrow> replies_le s s'"
  by (induction rule: thread_step.induct) (auto simp: replies_le_def dest: lock_forD(4))

interpretation service: state_machine "service_step sha plan" "system_ok sha plan" replies_le for sha plan
proof
  fix s t u assume step: "service_step sha plan s t"
  show "system_ok sha plan s \<Longrightarrow> system_ok sha plan t"
    using step by cases (simp_all add: arrival_ok thread_step_ok)
  show "system_ok sha plan s \<Longrightarrow> replies_le s t"
    using step by cases (auto simp: replies_le_def dest: thread_step_replies)
next
  show "replies_le s s" for s by (simp add: replies_le_def)
  show "replies_le s t \<Longrightarrow> replies_le t u \<Longrightarrow> replies_le s u" for s t u by (auto simp: replies_le_def)
qed

lemma reachable_ok: "reachable sha plan s \<Longrightarrow> system_ok sha plan s"
  unfolding reachable_def by (rule service.steps_ok[OF _ initial_system_ok])

section \<open>Linearizability\<close>

text \<open>
  C20. The per-key locks make the service atomic: however the steps of the handler threads interleave,
  the replies are those of the same requests served one at a time, in the order in which the locks were
  released; every finished request is among them exactly once, and before every request that arrives
  later; no two threads hold the lock of one key; and once every thread has finished, the state is the
  one that serial service leaves.
\<close>

theorem service_is_linearizable:
  assumes "reachable sha plan s"
  shows "fst (serve_all sha plan (map fst (replies s)) new_coordinator) = map snd (replies s)
    \<and> mset (replies s) = mset (concat (map finished (threads s)))
    \<and> (\<forall>t. (service_step sha plan)\<^sup>*\<^sup>* s t \<longrightarrow> (\<exists>rs. replies t = replies s @ rs))
    \<and> (\<forall>i<length (threads s). \<forall>j<length (threads s). held (snd (threads s ! i)) \<noteq> None
         \<longrightarrow> held (snd (threads s ! j)) \<noteq> None
         \<longrightarrow> request_key (fst (threads s ! i)) = request_key (fst (threads s ! j)) \<longrightarrow> i = j)
    \<and> ((\<forall>t \<in> set (threads s). \<exists>out. snd t = Finished out)
         \<longrightarrow> coordinated s = snd (serve_all sha plan (map fst (replies s)) new_coordinator))"
proof (intro conjI impI allI)
  from reachable_ok[OF assms] have ok: "locks_ok s" "holders_ok s" "slots_ok sha plan s" "replies_ok sha plan s"
    by (simp_all add: system_ok_def)
  from ok(4) show "fst (serve_all sha plan (map fst (replies s)) new_coordinator) = map snd (replies s)"
    "mset (replies s) = mset (concat (map finished (threads s)))"
    by (simp_all add: replies_ok_def)
  show "\<exists>rs. replies t = replies s @ rs" if "(service_step sha plan)\<^sup>*\<^sup>* s t" for t
    using service.steps_le[OF that reachable_ok[OF assms]] by (simp add: replies_le_def)
  show "i = j" if "i < length (threads s)" "j < length (threads s)" "held (snd (threads s ! i)) \<noteq> None"
    "held (snd (threads s ! j)) \<noteq> None" "request_key (fst (threads s ! i)) = request_key (fst (threads s ! j))" for i j
    using that alone_inside[OF ok(1,2) that(1,2)] by auto
  assume "\<forall>t \<in> set (threads s). \<exists>out. snd t = Finished out"
  then have "\<forall>i<length (threads s). held (snd (threads s ! i)) = None"
    by (metis held.simps(7) nth_mem)
  with ok(3) have "same_slot k (coordinated s) (served sha plan s)" for k
    unfolding slots_ok_def by blast
  then show "coordinated s = snd (serve_all sha plan (map fst (replies s)) new_coordinator)"
    unfolding served_def[symmetric] by (rule same_slots_eq)
qed

section \<open>A schedule\<close>

text \<open>The next step of one thread, which stays where it is while its lock is taken.\<close>

definition advance :: "(string \<Rightarrow> string) \<Rightarrow> scenario_plan \<Rightarrow> nat \<Rightarrow> system \<Rightarrow> system" where
  "advance sha plan i s =
     (if i < length (threads s)
      then (let (q, ph) = threads s ! i
        in case ph of
             Arrived \<Rightarrow> (let (l, s') = lock_for (request_key q) s in at_phase i (Waiting l) s')
           | Waiting l \<Rightarrow> if l \<in> taken s then s else at_phase i (Locked l) (s\<lparr>taken := insert l (taken s)\<rparr>)
           | Locked l \<Rightarrow>
               (let (n, c) = next_ordinal (operation_of_request q) (request_key q) (coordinated s)
                in at_phase i (case action_of plan q n of None \<Rightarrow> Decided l None | Some action \<Rightarrow> Numbered l n action)
                     (s\<lparr>coordinated := c\<rparr>))
           | Numbered l n action \<Rightarrow> at_phase i (Looked l n action (get_record (request_key q) (coordinated s))) s
           | Looked l n action existing \<Rightarrow>
               (let (out, c) = finish sha plan q action n existing (coordinated s)
                in at_phase i (Decided l (Some out)) (s\<lparr>coordinated := c\<rparr>))
           | Decided l out \<Rightarrow>
               at_phase i (Finished out) (s\<lparr>taken := taken s - {l}, replies := replies s @ [(q, out)]\<rparr>)
           | Finished out \<Rightarrow> s)
      else s)"

lemma advance_step: "advance sha plan i s = s \<or> thread_step sha plan s (advance sha plan i s)"
proof (cases "i < length (threads s)")
  case i: True
  obtain q ph where t: "threads s ! i = (q, ph)" by (cases "threads s ! i")
  show ?thesis
  proof (cases ph)
    case Arrived
    with i t step_lock_for[OF i, of q] show ?thesis by (auto simp: advance_def split: prod.split)
  next
    case (Waiting l)
    with i t step_acquire[OF i, of q l] show ?thesis by (auto simp: advance_def)
  next
    case (Locked l)
    with i t step_number[OF i, of q l] show ?thesis by (auto simp: advance_def split: prod.split)
  next
    case (Numbered l n action)
    with i t step_look[OF i, of q l n action] show ?thesis by (auto simp: advance_def)
  next
    case (Looked l n action existing)
    with i t step_decide[OF i, of q l n action existing] show ?thesis by (auto simp: advance_def split: prod.split)
  next
    case (Decided l out)
    with i t step_release[OF i, of q l out] show ?thesis by (auto simp: advance_def)
  next
    case (Finished out)
    with i t show ?thesis by (simp add: advance_def)
  qed
next
  case False
  then show ?thesis by (simp add: advance_def)
qed

lemma schedule_steps: "\<exists>n. (thread_step sha plan ^^ n) s (fold (advance sha plan) is s)"
proof (induction "is" arbitrary: s)
  case Nil
  show ?case by (rule exI[of _ 0]) simp
next
  case (Cons i "is")
  obtain n where n: "(thread_step sha plan ^^ n) (advance sha plan i s) (fold (advance sha plan) is (advance sha plan i s))"
    using Cons by blast
  show ?case
  proof (cases "advance sha plan i s = s")
    case True
    with n show ?thesis by auto
  next
    case False
    with advance_step have "thread_step sha plan s (advance sha plan i s)" by blast
    with n have "(thread_step sha plan ^^ Suc n) s (fold (advance sha plan) is (advance sha plan i s))"
      by (auto simp: relpowp_Suc_left simp del: relpowp.simps)
    then show ?thesis by (intro exI[of _ "Suc n"]) simp
  qed
qed

lemma reachable_steps: "reachable sha plan s \<Longrightarrow> (thread_step sha plan ^^ n) s s' \<Longrightarrow> reachable sha plan s'"
  by (induction n arbitrary: s') (auto intro: reachable_step)

text \<open>
  A submission and a reconciliation of one key and a submission of another, whose steps alternate; the
  second thread waits for the first, and the third overtakes it.
\<close>

definition three_arrived :: system where
  "three_arrived = initial_system\<lparr>threads :=
     [(Submit ''a'' ''{}'' ''d'', Arrived), (Reconcile ''a'', Arrived), (Submit ''b'' ''{}'' ''d'', Arrived)]\<rparr>"

definition three_finished :: system where
  "three_finished = fold (advance no_sha EMPTY_PLAN) [0, 1, 0, 1, 2, 2, 0, 2, 2, 1, 2, 2, 0, 0, 0, 1, 1, 1, 1, 1] three_arrived"

lemma three_arrived_reachable: "reachable no_sha EMPTY_PLAN three_arrived"
proof -
  have "reachable no_sha EMPTY_PLAN (initial_system\<lparr>threads := [(Submit ''a'' ''{}'' ''d'', Arrived)]\<rparr>)"
    using reachable_arrival[OF reachable_initial] by (simp add: initial_system_def)
  from reachable_arrival[OF reachable_arrival[OF this]] show ?thesis
    by (simp add: three_arrived_def)
qed

lemma three_finished_replies:
  "map fst (replies three_finished) = [Submit ''b'' ''{}'' ''d'', Submit ''a'' ''{}'' ''d'', Reconcile ''a'']"
  by code_simp

lemma witness_service_is_linearizable:
  "fst (serve_all no_sha EMPTY_PLAN [Submit ''b'' ''{}'' ''d'', Submit ''a'' ''{}'' ''d'', Reconcile ''a''] new_coordinator)
     = map snd (replies three_finished)"
proof -
  obtain n where "(thread_step no_sha EMPTY_PLAN ^^ n) three_arrived three_finished"
    using schedule_steps unfolding three_finished_def by blast
  from service_is_linearizable[OF reachable_steps[OF three_arrived_reachable this]]
  show ?thesis unfolding three_finished_replies by blast
qed

section \<open>Progress\<close>

text \<open>How many steps a thread has left.\<close>

fun steps_left :: "phase \<Rightarrow> nat" where
  "steps_left Arrived = 6"
| "steps_left (Waiting l) = 5"
| "steps_left (Locked l) = 4"
| "steps_left (Numbered l n action) = 3"
| "steps_left (Looked l n action existing) = 2"
| "steps_left (Decided l out) = 1"
| "steps_left (Finished out) = 0"

definition work_left :: "system \<Rightarrow> nat" where
  "work_left s = sum_list (map (steps_left \<circ> snd) (threads s))"

lemma sum_list_update_less:
  "i < length xs \<Longrightarrow> f y < f (xs ! i) \<Longrightarrow> sum_list (map f (xs[i := y])) < (sum_list (map f xs) :: nat)"
proof (induction xs arbitrary: i)
  case (Cons x xs)
  then show ?case by (cases i) simp_all
qed simp

lemma work_left_at_phase:
  assumes "i < length (threads s)" "steps_left ph < steps_left (snd (threads s ! i))"
  shows "work_left (at_phase i ph s) < work_left s"
  using assms sum_list_update_less[of i "threads s" "steps_left \<circ> snd" "(fst (threads s ! i), ph)"]
  by (simp add: work_left_def at_phase_def)

lemma work_left_bound: "work_left s \<le> 6 * length (threads s)"
proof -
  have six: "steps_left ph \<le> 6" for ph by (cases ph) simp_all
  have "sum_list (map (steps_left \<circ> snd) ts) \<le> 6 * length ts" for ts
  proof (induction ts)
    case (Cons t ts)
    then show ?case using six[of "snd t"] by simp
  qed simp
  then show ?thesis by (simp add: work_left_def)
qed

lemma work_left_same [simp]:
  "work_left (s\<lparr>coordinated := c\<rparr>) = work_left s" "work_left (s\<lparr>taken := ls\<rparr>) = work_left s"
  "work_left (s\<lparr>taken := ls, replies := rs\<rparr>) = work_left s"
  by (simp_all add: work_left_def)

lemma step_decreases: "thread_step sha plan s s' \<Longrightarrow> work_left s' < work_left s"
proof (induction rule: thread_step.induct)
  case (step_lock_for i s q l s')
  note s' = lock_forD[OF step_lock_for(3)]
  from step_lock_for s'(2) work_left_at_phase[of i s' "Waiting l"] show ?case by (simp add: work_left_def)
next
  case (step_acquire i s q l)
  then show ?case using work_left_at_phase[of i "s\<lparr>taken := insert l (taken s)\<rparr>" "Locked l"] by simp
next
  case (step_number i s q l n c)
  then show ?case
    using work_left_at_phase[of i "s\<lparr>coordinated := c\<rparr>"
        "case action_of plan q n of None \<Rightarrow> Decided l None | Some action \<Rightarrow> Numbered l n action"]
    by (simp split: option.split)
next
  case (step_look i s q l n action)
  then show ?case using work_left_at_phase[of i s "Looked l n action (get_record (request_key q) (coordinated s))"] by simp
next
  case (step_decide i s q l n action existing out c)
  then show ?case using work_left_at_phase[of i "s\<lparr>coordinated := c\<rparr>" "Decided l (Some out)"] by simp
next
  case (step_release i s q l out)
  then show ?case
    using work_left_at_phase[of i "s\<lparr>taken := taken s - {l}, replies := replies s @ [(q, out)]\<rparr>" "Finished out"] by simp
qed

lemma held_can_step:
  assumes "i < length (threads s)" "held (snd (threads s ! i)) = Some l"
  shows "\<exists>s'. thread_step sha plan s s'"
proof -
  obtain q ph where t: "threads s ! i = (q, ph)" by (cases "threads s ! i")
  with assms(2) consider "ph = Locked l" | n action where "ph = Numbered l n action"
    | n action existing where "ph = Looked l n action existing" | out where "ph = Decided l out"
    by (cases ph) auto
  then show ?thesis
  proof cases
    case 1
    obtain n c where "next_ordinal (operation_of_request q) (request_key q) (coordinated s) = (n, c)" by (metis prod.exhaust)
    with step_number[OF assms(1)] t 1 show ?thesis by blast
  next
    case 2
    with step_look[OF assms(1)] t show ?thesis by blast
  next
    case (3 n action existing)
    obtain out c where "finish sha plan q action n existing (coordinated s) = (out, c)" by (metis prod.exhaust)
    with step_decide[OF assms(1)] t 3 show ?thesis by blast
  next
    case 4
    with step_release[OF assms(1)] t show ?thesis by blast
  qed
qed

lemma someone_can_step:
  assumes ok: "holders_ok s" and i: "i < length (threads s)" and unfinished: "\<nexists>out. snd (threads s ! i) = Finished out"
  shows "\<exists>s'. thread_step sha plan s s'"
proof (cases "held (snd (threads s ! i))")
  case (Some l)
  with i show ?thesis by (rule held_can_step)
next
  case None
  obtain q ph where t: "threads s ! i = (q, ph)" by (cases "threads s ! i")
  with None unfinished consider "ph = Arrived" | l where "ph = Waiting l"
    by (cases ph) auto
  then show ?thesis
  proof cases
    case 1
    obtain l s' where "lock_for (request_key q) s = (l, s')" by (metis prod.exhaust)
    with step_lock_for[OF i] t 1 show ?thesis by blast
  next
    case (2 l)
    show ?thesis
    proof (cases "l \<in> taken s")
      case True
      with ok obtain j where "j < length (threads s)" "held (snd (threads s ! j)) = Some l"
        unfolding holders_ok_def by blast
      then show ?thesis by (rule held_can_step)
    next
      case False
      with step_acquire[OF i] t 2 show ?thesis by blast
    qed
  qed
qed

text \<open>
  C32. The locks do not deadlock: from any reachable state, whatever order the threads are scheduled
  in, at most six steps per thread are left, and when no step is left every request has its outcome.
\<close>

theorem handlers_finish:
  assumes "reachable sha plan s" "(thread_step sha plan ^^ n) s s'"
  shows "n \<le> work_left s \<and> work_left s \<le> 6 * length (threads s)
    \<and> ((\<nexists>s''. thread_step sha plan s' s'') \<longrightarrow> (\<forall>t \<in> set (threads s'). \<exists>out. snd t = Finished out))"
proof (intro conjI impI ballI)
  have "reachable sha plan s' \<and> n + work_left s' \<le> work_left s"
    using assms(2)
  proof (induction n arbitrary: s')
    case 0
    with assms(1) show ?case by simp
  next
    case (Suc n)
    then obtain u where u: "(thread_step sha plan ^^ n) s u" "thread_step sha plan u s'" by auto
    with Suc.IH[OF u(1)] step_decreases[OF u(2)] show ?case by (auto intro: reachable_step)
  qed
  then have r: "reachable sha plan s'" and n: "n + work_left s' \<le> work_left s" by auto
  from n show "n \<le> work_left s" by simp
  show "work_left s \<le> 6 * length (threads s)" by (rule work_left_bound)
  fix t assume stuck: "\<nexists>s''. thread_step sha plan s' s''" and "t \<in> set (threads s')"
  then obtain i where "i < length (threads s')" "t = threads s' ! i" by (metis in_set_conv_nth)
  with someone_can_step[of s' i sha plan] reachable_ok[OF r] stuck show "\<exists>out. snd t = Finished out"
    by (auto simp: system_ok_def)
qed

lemma witness_handlers_finish:
  "\<exists>n. (thread_step no_sha EMPTY_PLAN ^^ n) three_arrived three_finished \<and> n \<le> 18"
proof -
  obtain n where n: "(thread_step no_sha EMPTY_PLAN ^^ n) three_arrived three_finished"
    using schedule_steps unfolding three_finished_def by blast
  from handlers_finish[OF three_arrived_reachable n] have "n \<le> 6 * length (threads three_arrived)" by linarith
  with n show ?thesis by (auto simp: three_arrived_def initial_system_def)
qed

end
