(* ===== verification/Pool.thy ===== *)
theory Pool
  imports Prelude
begin

text \<open>
  \<open>BoundedThreadingHTTPServer\<close> of \<open>simulator/server.py\<close>: the accept loop with its bounded semaphore,
  the handler threads with their registration, and \<open>shutdown_and_close\<close>, as actors whose steps
  interleave.  What a handler does is \<open>Server\<close>; here it is one step.  Of \<open>socketserver\<close> it is used
  that \<open>serve_forever\<close> passes one accepted connection at a time to \<open>process_request\<close> until
  \<open>shutdown\<close> asks it to stop or an interrupt ends it, that \<open>process_request\<close> starts one thread, and
  that \<open>shutdown\<close> waits for the end of the loop.
\<close>

section \<open>State\<close>

text \<open>
  The accept loop: in \<open>select\<close>; polling the semaphore for a request; after a timeout of the poll; with
  a slot, before the thread runs; ended.
\<close>

datatype acceptor =
    Serving
  | Acquiring nat
  | Timed_out nat
  | Starting nat
  | Loop_ended

text \<open>
  A handler: before its registration; in the handler; after it, before it is removed; before the
  release of its slot; ended.
\<close>

datatype handler = Started | Registered | Handled | Removed | Handler_ended

text \<open>\<open>shutdown_and_close\<close>, with the sockets still to close and the threads still to join.\<close>

datatype closer =
    Not_called
  | Signalled
  | Stopping
  | Listener_closed
  | Closing "nat list" "nat list"
  | Joining "nat list"
  | Returned

text \<open>
  A request stands for its socket and its thread, which are registered together.  \<open>leaked\<close> and
  \<open>dropped\<close> are only recorded: the slots whose thread failed to start, and the requests without handler.
\<close>

record pool =
  free_slots :: nat
  shutdown_event :: bool
  shutdown_request :: bool
  accept_loop :: acceptor
  arrivals :: nat
  handlers :: "(nat \<times> handler) list"
  active :: "nat set"
  closed_sockets :: "nat set"
  close_call :: closer
  leaked :: nat
  dropped :: "nat list"

definition DEFAULT_MAX_WORKERS :: nat where
  "DEFAULT_MAX_WORKERS = 32"

definition new_pool :: "nat \<Rightarrow> pool" where
  "new_pool max_workers = \<lparr>free_slots = max_workers, shutdown_event = False, shutdown_request = False,
     accept_loop = Serving, arrivals = 0, handlers = [], active = {}, closed_sockets = {}, close_call = Not_called,
     leaked = 0, dropped = []\<rparr>"

definition handler_at :: "nat \<Rightarrow> handler \<Rightarrow> pool \<Rightarrow> pool" where
  "handler_at i h s = s\<lparr>handlers := (handlers s)[i := (fst (handlers s ! i), h)]\<rparr>"

section \<open>Steps\<close>

text \<open>
  \<open>serve_forever\<close> and \<open>process_request\<close>.  A poll of the semaphore ends with a slot, or without one
  when none was free; only then the event is looked at.  A thread that cannot be started raises out of
  \<open>process_request\<close>, which keeps its slot.  The interrupt is the \<open>KeyboardInterrupt\<close> of the main thread.
\<close>

inductive accept_step :: "pool \<Rightarrow> pool \<Rightarrow> bool" where
  accept_request: "accept_loop s = Serving \<Longrightarrow> \<not> shutdown_request s
    \<Longrightarrow> accept_step s (s\<lparr>accept_loop := Acquiring (arrivals s), arrivals := Suc (arrivals s)\<rparr>)"
| acquire_slot: "accept_loop s = Acquiring r \<Longrightarrow> free_slots s = Suc n
    \<Longrightarrow> accept_step s (s\<lparr>accept_loop := Starting r, free_slots := n\<rparr>)"
| acquire_times_out: "accept_loop s = Acquiring r \<Longrightarrow> free_slots s = 0
    \<Longrightarrow> accept_step s (s\<lparr>accept_loop := Timed_out r\<rparr>)"
| poll_again: "accept_loop s = Timed_out r \<Longrightarrow> \<not> shutdown_event s
    \<Longrightarrow> accept_step s (s\<lparr>accept_loop := Acquiring r\<rparr>)"
| drop_request: "accept_loop s = Timed_out r \<Longrightarrow> shutdown_event s
    \<Longrightarrow> accept_step s (s\<lparr>accept_loop := Serving, dropped := dropped s @ [r]\<rparr>)"
| start_thread: "accept_loop s = Starting r
    \<Longrightarrow> accept_step s (s\<lparr>accept_loop := Serving, handlers := handlers s @ [(r, Started)]\<rparr>)"
| thread_not_started: "accept_loop s = Starting r
    \<Longrightarrow> accept_step s (s\<lparr>accept_loop := Serving, leaked := Suc (leaked s), dropped := dropped s @ [r]\<rparr>)"
| end_loop: "accept_loop s = Serving \<Longrightarrow> shutdown_request s \<Longrightarrow> accept_step s (s\<lparr>accept_loop := Loop_ended\<rparr>)"

inductive interrupt_step :: "pool \<Rightarrow> pool \<Rightarrow> bool" where
  interrupt_idle: "accept_loop s = Serving \<Longrightarrow> interrupt_step s (s\<lparr>accept_loop := Loop_ended\<rparr>)"
| interrupt_waiting: "accept_loop s \<in> {Acquiring r, Timed_out r}
    \<Longrightarrow> interrupt_step s (s\<lparr>accept_loop := Loop_ended, dropped := dropped s @ [r]\<rparr>)"
| interrupt_starting: "accept_loop s = Starting r
    \<Longrightarrow> interrupt_step s (s\<lparr>accept_loop := Loop_ended, leaked := Suc (leaked s), dropped := dropped s @ [r]\<rparr>)"

text \<open>\<open>process_request_thread\<close>.\<close>

inductive handler_step :: "pool \<Rightarrow> pool \<Rightarrow> bool" where
  register: "i < length (handlers s) \<Longrightarrow> handlers s ! i = (r, Started)
    \<Longrightarrow> handler_step s (handler_at i Registered (s\<lparr>active := insert r (active s)\<rparr>))"
| handle: "i < length (handlers s) \<Longrightarrow> handlers s ! i = (r, Registered) \<Longrightarrow> handler_step s (handler_at i Handled s)"
| deregister: "i < length (handlers s) \<Longrightarrow> handlers s ! i = (r, Handled)
    \<Longrightarrow> handler_step s (handler_at i Removed (s\<lparr>active := active s - {r}\<rparr>))"
| release_slot: "i < length (handlers s) \<Longrightarrow> handlers s ! i = (r, Removed)
    \<Longrightarrow> handler_step s (handler_at i Handler_ended (s\<lparr>free_slots := Suc (free_slots s)\<rparr>))"

text \<open>
  \<open>shutdown_and_close\<close>: the event first, then \<open>shutdown\<close>, which waits for the loop, then the snapshot of
  what is active.  A join ends with its thread or with its timeout.
\<close>

inductive close_step :: "pool \<Rightarrow> pool \<Rightarrow> bool" where
  set_event: "close_call s = Not_called \<Longrightarrow> close_step s (s\<lparr>close_call := Signalled, shutdown_event := True\<rparr>)"
| request_shutdown: "close_call s = Signalled \<Longrightarrow> close_step s (s\<lparr>close_call := Stopping, shutdown_request := True\<rparr>)"
| loop_has_ended: "close_call s = Stopping \<Longrightarrow> accept_loop s = Loop_ended
    \<Longrightarrow> close_step s (s\<lparr>close_call := Listener_closed\<rparr>)"
| take_snapshot: "close_call s = Listener_closed \<Longrightarrow> set sockets = active s \<Longrightarrow> set threads = active s
    \<Longrightarrow> distinct sockets \<Longrightarrow> distinct threads \<Longrightarrow> close_step s (s\<lparr>close_call := Closing sockets threads\<rparr>)"
| close_socket: "close_call s = Closing (r # sockets) threads
    \<Longrightarrow> close_step s (s\<lparr>close_call := Closing sockets threads, closed_sockets := insert r (closed_sockets s)\<rparr>)"
| sockets_closed: "close_call s = Closing [] threads \<Longrightarrow> close_step s (s\<lparr>close_call := Joining threads\<rparr>)"
| join_thread: "close_call s = Joining (r # threads) \<Longrightarrow> close_step s (s\<lparr>close_call := Joining threads\<rparr>)"
| all_joined: "close_call s = Joining [] \<Longrightarrow> close_step s (s\<lparr>close_call := Returned\<rparr>)"

inductive pool_step :: "pool \<Rightarrow> pool \<Rightarrow> bool" where
  by_loop: "accept_step s s' \<Longrightarrow> pool_step s s'"
| by_interrupt: "interrupt_step s s' \<Longrightarrow> pool_step s s'"
| by_handler: "handler_step s s' \<Longrightarrow> pool_step s s'"
| by_closer: "close_step s s' \<Longrightarrow> pool_step s s'"

definition pool_reachable :: "nat \<Rightarrow> pool \<Rightarrow> bool" where
  "pool_reachable max_workers s \<longleftrightarrow> pool_step\<^sup>*\<^sup>* (new_pool max_workers) s"

lemma pool_initial: "pool_reachable max_workers (new_pool max_workers)"
  by (simp add: pool_reachable_def)

lemma pool_next: "pool_reachable max_workers s \<Longrightarrow> pool_step s s' \<Longrightarrow> pool_reachable max_workers s'"
  unfolding pool_reachable_def by (rule rtranclp.rtrancl_into_rtrancl)

section \<open>Slots\<close>

text \<open>Handlers that hold a slot, and the slot of a thread being started.\<close>

definition running :: "(nat \<times> handler) list \<Rightarrow> nat" where
  "running hs = length (filter (\<lambda>(r, h). h \<noteq> Handler_ended) hs)"

definition starting :: "acceptor \<Rightarrow> nat" where
  "starting a = (case a of Starting r \<Rightarrow> 1 | _ \<Rightarrow> 0)"

definition registered :: "(nat \<times> handler) list \<Rightarrow> nat set" where
  "registered hs = {r. \<exists>h. (r, h) \<in> set hs \<and> h \<in> {Registered, Handled}}"

definition pending :: "acceptor \<Rightarrow> nat option" where
  "pending a = (case a of Acquiring r \<Rightarrow> Some r | Timed_out r \<Rightarrow> Some r | Starting r \<Rightarrow> Some r | _ \<Rightarrow> None)"

definition pool_ok :: "nat \<Rightarrow> pool \<Rightarrow> bool" where
  "pool_ok max_workers s \<longleftrightarrow>
     free_slots s + running (handlers s) + starting (accept_loop s) + leaked s = max_workers
     \<and> distinct (map fst (handlers s))
     \<and> (\<forall>r \<in> set (map fst (handlers s)). r < arrivals s \<and> pending (accept_loop s) \<noteq> Some r)
     \<and> (\<forall>r. pending (accept_loop s) = Some r \<longrightarrow> r < arrivals s)
     \<and> active s = registered (handlers s)
     \<and> (close_call s \<noteq> Not_called \<longrightarrow> shutdown_event s)
     \<and> (close_call s \<notin> {Not_called, Signalled} \<longrightarrow> shutdown_request s)
     \<and> (close_call s \<notin> {Not_called, Signalled, Stopping} \<longrightarrow> accept_loop s = Loop_ended)"

lemma handler_at_sel [simp]:
  "free_slots (handler_at i h s) = free_slots s" "shutdown_event (handler_at i h s) = shutdown_event s"
  "shutdown_request (handler_at i h s) = shutdown_request s" "accept_loop (handler_at i h s) = accept_loop s"
  "arrivals (handler_at i h s) = arrivals s" "active (handler_at i h s) = active s"
  "close_call (handler_at i h s) = close_call s" "leaked (handler_at i h s) = leaked s"
  "handlers (handler_at i h s) = (handlers s)[i := (fst (handlers s ! i), h)]"
  by (simp_all add: handler_at_def)

lemma handler_at_names:
  "i < length hs \<Longrightarrow> map fst (hs[i := (fst (hs ! i), h)]) = map fst hs"
  by (simp add: map_update) (metis list_update_id nth_map)

lemma running_update:
  "i < length hs \<Longrightarrow> hs ! i = (r, h) \<Longrightarrow> h \<noteq> Handler_ended \<Longrightarrow>
     running (hs[i := (r, h')]) = (if h' = Handler_ended then running hs - 1 else running hs) \<and> 0 < running hs"
proof (induction hs arbitrary: i)
  case (Cons x hs)
  then show ?case by (cases i) (auto simp: running_def)
qed simp

lemma registered_Cons:
  "registered ((r, h) # hs) = (if h \<in> {Registered, Handled} then insert r (registered hs) else registered hs)"
  by (auto simp: registered_def)

lemma registered_names: "registered hs \<subseteq> set (map fst hs)"
  by (force simp: registered_def)

lemma registered_update:
  "i < length hs \<Longrightarrow> hs ! i = (r, h) \<Longrightarrow> distinct (map fst hs) \<Longrightarrow> registered (hs[i := (r, h')]) =
    (if h' \<in> {Registered, Handled} then insert r (registered hs) else registered hs - {r})"
proof (induction hs arbitrary: i)
  case (Cons x hs)
  obtain r' h'' where x: "x = (r', h'')" by (cases x)
  show ?case
  proof (cases i)
    case 0
    with Cons.prems x have "r \<notin> registered hs" using registered_names[of hs] by auto
    with Cons.prems x 0 show ?thesis by (simp add: registered_Cons insert_absorb)
  next
    case (Suc j)
    with Cons have ih: "registered (hs[j := (r, h')]) =
        (if h' \<in> {Registered, Handled} then insert r (registered hs) else registered hs - {r})" by simp
    have "r \<in> set (map fst hs)" using Cons.prems Suc nth_mem[of j hs] by (force simp: image_iff)
    with Cons.prems x have "r' \<noteq> r" by auto
    then show ?thesis
      by (simp only: Suc x list_update.simps nat.case registered_Cons ih) auto
  qed
qed simp

lemma accept_step_ok: "accept_step s s' \<Longrightarrow> pool_ok m s \<Longrightarrow> pool_ok m s'"
  by (induction rule: accept_step.induct)
    (auto simp: pool_ok_def starting_def pending_def running_def registered_def)

lemma interrupt_step_ok: "interrupt_step s s' \<Longrightarrow> pool_ok m s \<Longrightarrow> pool_ok m s'"
  by (induction rule: interrupt_step.induct) (auto simp: pool_ok_def starting_def pending_def)

lemma close_step_ok: "close_step s s' \<Longrightarrow> pool_ok m s \<Longrightarrow> pool_ok m s'"
  by (induction rule: close_step.induct) (auto simp: pool_ok_def)

lemma handler_at_ok:
  assumes ok: "pool_ok m s" and i: "i < length (handlers s)" "handlers s ! i = (r, h)" "h \<noteq> Handler_ended"
    and f: "f = (if h' = Handler_ended then Suc (free_slots s) else free_slots s)"
    and a: "a = (if h' \<in> {Registered, Handled} then insert r (active s) else active s - {r})"
  shows "pool_ok m (handler_at i h' (s\<lparr>free_slots := f, active := a\<rparr>))"
proof -
  let ?hs = "(handlers s)[i := (r, h')]"
  have names: "map fst ?hs = map fst (handlers s)" using handler_at_names[OF i(1), of h'] i(2) by simp
  have act: "a = registered ?hs"
    using ok registered_update[OF i(1,2)] unfolding a by (simp add: pool_ok_def)
  have run: "running ?hs = (if h' = Handler_ended then running (handlers s) - 1 else running (handlers s))"
    "0 < running (handlers s)"
    using running_update[OF i] by auto
  have count: "f + running ?hs = free_slots s + running (handlers s)" using run f by simp
  show ?thesis
    using ok count unfolding pool_ok_def by (simp add: names act i(2) del: set_map)
qed

lemma handler_step_ok:
  assumes "handler_step s s'" "pool_ok m s"
  shows "pool_ok m s'"
  using assms(1)
proof cases
  case (register i r)
  with handler_at_ok[OF assms(2) register(2,3), of "free_slots s" Registered] show ?thesis by simp
next
  case (handle i r)
  have "r \<in> active s"
    using assms(2) handle(2,3) nth_mem[of i "handlers s"] by (force simp: pool_ok_def registered_def)
  with handle handler_at_ok[OF assms(2) handle(2,3), of "free_slots s" Handled "active s"] show ?thesis
    by (simp add: insert_absorb)
next
  case (deregister i r)
  with handler_at_ok[OF assms(2) deregister(2,3), of "free_slots s" Removed] show ?thesis by simp
next
  case (release_slot i r)
  have "r \<notin> active s"
  proof
    assume "r \<in> active s"
    then obtain j h where j: "j < length (handlers s)" "handlers s ! j = (r, h)" "h \<in> {Registered, Handled}"
      using assms(2) by (auto simp: pool_ok_def registered_def in_set_conv_nth)
    have "distinct (map fst (handlers s))" using assms(2) by (simp add: pool_ok_def)
    from nth_eq_iff_index_eq[OF this, of i j] release_slot j have "i = j" by simp
    with release_slot(3) j show False by auto
  qed
  with release_slot handler_at_ok[OF assms(2) release_slot(2,3), of "Suc (free_slots s)" Handler_ended "active s"]
  show ?thesis by simp
qed

lemma pool_step_ok:
  assumes "pool_step s s'" "pool_ok m s"
  shows "pool_ok m s'"
  using assms(1)
  by cases (use assms(2) accept_step_ok interrupt_step_ok handler_step_ok close_step_ok in blast)+

text \<open>Slots that are lost stay lost.\<close>

lemma leaked_mono:
  "accept_step s s' \<Longrightarrow> leaked s \<le> leaked s'" "interrupt_step s s' \<Longrightarrow> leaked s \<le> leaked s'"
  "handler_step s s' \<Longrightarrow> leaked s \<le> leaked s'" "close_step s s' \<Longrightarrow> leaked s \<le> leaked s'"
proof -
  show "accept_step s s' \<Longrightarrow> leaked s \<le> leaked s'" by (induction rule: accept_step.induct) simp_all
  show "interrupt_step s s' \<Longrightarrow> leaked s \<le> leaked s'" by (induction rule: interrupt_step.induct) simp_all
  show "handler_step s s' \<Longrightarrow> leaked s \<le> leaked s'" by (induction rule: handler_step.induct) simp_all
  show "close_step s s' \<Longrightarrow> leaked s \<le> leaked s'" by (induction rule: close_step.induct) simp_all
qed

interpretation server: state_machine pool_step "pool_ok m" "\<lambda>s t. leaked s \<le> leaked t" for m
proof
  fix s t assume step: "pool_step s t"
  show "pool_ok m s \<Longrightarrow> pool_ok m t" by (rule pool_step_ok[OF step])
  show "pool_ok m s \<Longrightarrow> leaked s \<le> leaked t" using step by cases (simp_all add: leaked_mono)
qed simp_all

lemma new_pool_ok: "pool_ok m (new_pool m)"
  by (simp add: pool_ok_def new_pool_def running_def starting_def pending_def registered_def)

lemma pool_reachable_ok: "pool_reachable m s \<Longrightarrow> pool_ok m s"
  unfolding pool_reachable_def by (rule server.steps_ok[OF _ new_pool_ok])

text \<open>A pool of one worker with one handler, before and after its registration.\<close>

lemma one_accepted: "pool_reachable 1 (new_pool 1\<lparr>accept_loop := Starting 0, arrivals := 1, free_slots := 0\<rparr>)"
proof -
  have "pool_reachable 1 (new_pool 1\<lparr>accept_loop := Acquiring 0, arrivals := 1\<rparr>)"
    using pool_next[OF pool_initial by_loop[OF accept_request]] by (simp add: new_pool_def)
  from pool_next[OF this by_loop[OF acquire_slot]] show ?thesis by (simp add: new_pool_def)
qed

lemma one_started:
  "pool_reachable 1 (new_pool 1\<lparr>arrivals := 1, free_slots := 0, handlers := [(0, Started)]\<rparr>)"
  using pool_next[OF one_accepted by_loop[OF start_thread]] by (simp add: new_pool_def)

lemma one_registered:
  "pool_reachable 1 (new_pool 1\<lparr>arrivals := 1, free_slots := 0, handlers := [(0, Registered)], active := {0}\<rparr>)"
  using pool_next[OF one_started by_handler[OF register[of 0 _ 0]]] by (simp add: new_pool_def handler_at_def)

lemma registered_bound: "finite (registered hs) \<and> card (registered hs) \<le> running hs"
proof (induction hs)
  case (Cons x hs)
  obtain r h where "x = (r, h)" by (cases x)
  with Cons show ?case by (auto simp: registered_Cons running_def card_insert_if)
qed (simp add: registered_def running_def)

text \<open>
  C30. The thread bound: in every state the free slots, the handlers that have not ended, a thread being
  started and the slots whose thread failed to start add up to \<open>max_workers\<close>, so at most that many
  handlers are active, exactly those between registration and removal are registered, and the release
  at the end of a handler never exceeds the bound of the semaphore.
\<close>

theorem handlers_are_bounded:
  assumes "pool_reachable m s"
  shows "free_slots s + running (handlers s) + starting (accept_loop s) + leaked s = m
    \<and> active s = registered (handlers s) \<and> card (active s) \<le> m
    \<and> ((\<exists>r. (r, Removed) \<in> set (handlers s)) \<longrightarrow> free_slots s < m)"
proof (intro conjI impI)
  from pool_reachable_ok[OF assms] have sum: "free_slots s + running (handlers s) + starting (accept_loop s) + leaked s = m"
    and act: "active s = registered (handlers s)"
    by (simp_all add: pool_ok_def)
  show "free_slots s + running (handlers s) + starting (accept_loop s) + leaked s = m" by (rule sum)
  show "active s = registered (handlers s)" by (rule act)
  show "card (active s) \<le> m" using sum act registered_bound[of "handlers s"] by simp
  assume "\<exists>r. (r, Removed) \<in> set (handlers s)"
  then have "filter (\<lambda>(r, h). h \<noteq> Handler_ended) (handlers s) \<noteq> []" by (force simp: filter_empty_conv)
  then have "0 < running (handlers s)" unfolding running_def by blast
  with sum show "free_slots s < m" by simp
qed

lemma witness_handlers_are_bounded:
  "\<exists>s. pool_reachable 1 s \<and> (0, Removed) \<in> set (handlers s) \<and> free_slots s < 1 \<and> card (active s) \<le> 1"
proof -
  let ?s = "new_pool 1\<lparr>arrivals := 1, free_slots := 0, handlers := [(0, Removed)]\<rparr>"
  have "pool_reachable 1 (new_pool 1\<lparr>arrivals := 1, free_slots := 0, handlers := [(0, Handled)], active := {0}\<rparr>)"
    using pool_next[OF one_registered by_handler[OF handle[of 0 _ 0]]] by (simp add: new_pool_def handler_at_def)
  from pool_next[OF this by_handler[OF deregister[of 0 _ 0]]] have r: "pool_reachable 1 ?s"
    by (simp add: new_pool_def handler_at_def)
  from handlers_are_bounded[OF this] r show ?thesis by (intro exI[of _ ?s]) (simp add: new_pool_def)
qed

section \<open>Shutdown\<close>

text \<open>The steps of the loop and of \<open>shutdown_and_close\<close>, without any step of a handler.\<close>

inductive closing_step :: "pool \<Rightarrow> pool \<Rightarrow> bool" where
  closing_loop: "accept_step s s' \<Longrightarrow> closing_step s s'"
| closing_interrupt: "interrupt_step s s' \<Longrightarrow> closing_step s s'"
| closing_call: "close_step s s' \<Longrightarrow> closing_step s s'"

fun loop_left :: "acceptor \<Rightarrow> nat" where
  "loop_left Loop_ended = 0"
| "loop_left Serving = 1"
| "loop_left (Timed_out r) = 2"
| "loop_left (Starting r) = 2"
| "loop_left (Acquiring r) = 3"

fun close_left :: "nat \<Rightarrow> closer \<Rightarrow> nat" where
  "close_left m Returned = 0"
| "close_left m (Joining threads) = length threads + 1"
| "close_left m (Closing sockets threads) = length sockets + length threads + 2"
| "close_left m Listener_closed = 2 * m + 3"
| "close_left m Stopping = 2 * m + 4"
| "close_left m _ = 2 * m + 5"

definition shutting_down :: "pool \<Rightarrow> bool" where
  "shutting_down s \<longleftrightarrow> close_call s \<notin> {Not_called, Signalled}"

lemma accept_step_left:
  "accept_step s s' \<Longrightarrow> shutdown_event s \<Longrightarrow> shutdown_request s
     \<Longrightarrow> loop_left (accept_loop s') < loop_left (accept_loop s) \<and> close_call s' = close_call s"
  by (induction rule: accept_step.induct) simp_all

lemma interrupt_step_left:
  "interrupt_step s s' \<Longrightarrow> loop_left (accept_loop s') < loop_left (accept_loop s) \<and> close_call s' = close_call s"
  by (induction rule: interrupt_step.induct) auto

lemma close_step_left:
  assumes "close_step s s'" "card (active s) \<le> m" "shutting_down s"
  shows "close_left m (close_call s') < close_left m (close_call s) \<and> accept_loop s' = accept_loop s
    \<and> shutting_down s'"
  using assms
  by (induction rule: close_step.induct) (auto simp: shutting_down_def distinct_card[symmetric])

lemma closing_step_left:
  assumes "closing_step s s'" "pool_reachable m s" "shutting_down s"
  shows "loop_left (accept_loop s') + close_left m (close_call s') < loop_left (accept_loop s) + close_left m (close_call s)
    \<and> pool_reachable m s' \<and> shutting_down s'"
proof -
  have flags: "shutdown_event s" "shutdown_request s"
    using pool_reachable_ok[OF assms(2)] assms(3) by (auto simp: pool_ok_def shutting_down_def)
  have bound: "card (active s) \<le> m"
    using pool_reachable_ok[OF assms(2)] registered_bound[of "handlers s"] by (simp add: pool_ok_def)
  from assms(1) show ?thesis
  proof cases
    case closing_loop
    with accept_step_left[OF this flags] assms(2,3) show ?thesis
      by (auto simp: shutting_down_def intro: pool_next by_loop)
  next
    case closing_interrupt
    with interrupt_step_left[OF this] assms(2,3) show ?thesis
      by (auto simp: shutting_down_def intro: pool_next by_interrupt)
  next
    case closing_call
    with close_step_left[OF this bound assms(3)] assms(2) show ?thesis
      by (auto intro: pool_next by_closer)
  qed
qed

lemma loop_can_step: "accept_loop s \<noteq> Loop_ended \<Longrightarrow> shutdown_request s \<Longrightarrow> \<exists>s'. accept_step s s'"
proof (cases "accept_loop s")
  case (Acquiring r)
  then show ?thesis by (cases "free_slots s") (auto intro: acquire_slot acquire_times_out)
next
  case (Timed_out r)
  then show ?thesis by (cases "shutdown_event s") (auto intro: poll_again drop_request)
qed (auto intro: start_thread end_loop)

lemma close_can_step:
  assumes "close_call s \<noteq> Returned" "accept_loop s = Loop_ended" "finite (active s)"
  shows "\<exists>s'. close_step s s'"
proof (cases "close_call s")
  case Listener_closed
  obtain xs where "set xs = active s" "distinct xs" using finite_distinct_list[OF assms(3)] by blast
  with Listener_closed take_snapshot show ?thesis by blast
next
  case (Closing sockets threads)
  then show ?thesis by (cases sockets) (auto intro: close_socket sockets_closed)
next
  case (Joining threads)
  then show ?thesis by (cases threads) (auto intro: join_thread all_joined)
qed (use assms in \<open>auto intro: set_event request_shutdown loop_has_ended\<close>)

text \<open>
  C31. Shutdown is not blocked by busy handlers: once \<open>shutdown_and_close\<close> has signalled and asked the
  loop to stop, the loop and the call need no step of any handler to end, even with every slot taken;
  they take at most \<open>2 * max_workers + 7\<close> steps, and when neither has a step left the call has returned.
\<close>

theorem shutdown_returns:
  assumes "pool_reachable m s" "close_call s = Stopping" "(closing_step ^^ n) s s'"
  shows "n \<le> 2 * m + 7 \<and> ((\<nexists>s''. closing_step s' s'') \<longrightarrow> close_call s' = Returned \<and> accept_loop s' = Loop_ended)"
proof -
  have run: "pool_reachable m s' \<and> shutting_down s'
      \<and> n + (loop_left (accept_loop s') + close_left m (close_call s')) \<le> loop_left (accept_loop s) + close_left m (close_call s)"
    using assms(3)
  proof (induction n arbitrary: s')
    case 0
    with assms(1,2) show ?case by (simp add: shutting_down_def)
  next
    case (Suc n)
    then obtain u where u: "(closing_step ^^ n) s u" "closing_step u s'" by auto
    from Suc.IH[OF u(1)] closing_step_left[OF u(2)] show ?case by fastforce
  qed
  moreover have "loop_left (accept_loop s) \<le> 3" by (cases "accept_loop s") simp_all
  ultimately have "n \<le> 2 * m + 7" using assms(2) by simp
  moreover have "close_call s' = Returned \<and> accept_loop s' = Loop_ended" if stuck: "\<nexists>s''. closing_step s' s''"
  proof -
    have ok: "pool_ok m s'" using run pool_reachable_ok by blast
    then have "shutdown_request s'" using run by (auto simp: pool_ok_def shutting_down_def)
    with loop_can_step stuck have ended: "accept_loop s' = Loop_ended" by (blast intro: closing_loop)
    have "finite (active s')" using ok registered_bound by (simp add: pool_ok_def)
    with close_can_step[OF _ ended] stuck ended show ?thesis by (blast intro: closing_call)
  qed
  ultimately show ?thesis by blast
qed

text \<open>Its worker is busy, a second request waits for its slot, and the shutdown has begun.\<close>

definition busy_pool :: pool where
  "busy_pool = new_pool 1\<lparr>arrivals := 2, free_slots := 0, handlers := [(0, Registered)], active := {0},
     accept_loop := Acquiring 1, shutdown_event := True, shutdown_request := True, close_call := Stopping\<rparr>"

lemma busy_pool_reachable: "pool_reachable 1 busy_pool"
proof -
  have "pool_reachable 1 (new_pool 1\<lparr>arrivals := 2, free_slots := 0, handlers := [(0, Registered)], active := {0},
      accept_loop := Acquiring 1\<rparr>)"
    using pool_next[OF one_registered by_loop[OF accept_request]] by (simp add: new_pool_def numeral_2_eq_2)
  from pool_next[OF this by_closer[OF set_event]]
  have "pool_reachable 1 (new_pool 1\<lparr>arrivals := 2, free_slots := 0, handlers := [(0, Registered)], active := {0},
      accept_loop := Acquiring 1, shutdown_event := True, close_call := Signalled\<rparr>)"
    by (simp add: new_pool_def)
  from pool_next[OF this by_closer[OF request_shutdown]] show ?thesis by (simp add: busy_pool_def new_pool_def)
qed

lemma witness_shutdown_returns: "\<exists>n s'. n \<le> 9 \<and> (closing_step ^^ n) busy_pool s' \<and> close_call s' = Returned"
proof -
  have call: "close_call busy_pool = Stopping" by (simp add: busy_pool_def)
  let ?P = "\<lambda>n. \<exists>s'. (closing_step ^^ n) busy_pool s'"
  have "?P 0" by simp
  moreover have "\<forall>n. ?P n \<longrightarrow> n \<le> 9" using shutdown_returns[OF busy_pool_reachable call] by fastforce
  ultimately obtain n where n: "?P n" "\<forall>k. ?P k \<longrightarrow> k \<le> n"
    using GreatestI_nat[of ?P 0 9] Greatest_le_nat[of ?P _ 9] by blast
  then obtain s' where s': "(closing_step ^^ n) busy_pool s'" by blast
  have "\<nexists>s''. closing_step s' s''"
  proof
    assume "\<exists>s''. closing_step s' s''"
    with s' have "?P (Suc n)" by auto
    with n(2) show False by fastforce
  qed
  with shutdown_returns[OF busy_pool_reachable call s'] s' show ?thesis by auto
qed

text \<open>
  The joins of the snapshot: each waits for its thread at most until the deadline.  A thread is the
  time at which it ends, if it does.
\<close>

fun join_all :: "int \<Rightarrow> int option list \<Rightarrow> int \<Rightarrow> int" where
  "join_all deadline [] now = now"
| "join_all deadline (e # es) now =
     (let remaining = max 0 (deadline - now)
      in join_all deadline es (case e of None \<Rightarrow> now + remaining | Some t \<Rightarrow> min (max now t) (now + remaining)))"

lemma joins_end_in_time: "now \<le> join_all deadline es now \<and> join_all deadline es now \<le> max now deadline"
proof (induction es arbitrary: now)
  case (Cons e es)
  define later where "later = (case e of None \<Rightarrow> now + max 0 (deadline - now)
    | Some t \<Rightarrow> min (max now t) (now + max 0 (deadline - now)))"
  have "now \<le> later \<and> later \<le> max now deadline" by (cases e) (auto simp: later_def)
  moreover have "join_all deadline (e # es) now = join_all deadline es later" by (simp add: later_def Let_def)
  ultimately show ?case using Cons[of later] by linarith
qed simp

lemma everyone_is_joined:
  assumes "\<And>e. e \<in> set es \<Longrightarrow> \<exists>t. e = Some t \<and> t \<le> deadline" "now \<le> deadline"
  shows "e \<in> set es \<Longrightarrow> the e \<le> join_all deadline es now"
  using assms
proof (induction es arbitrary: now)
  case (Cons x es)
  obtain t where t: "x = Some t" "t \<le> deadline" using Cons.prems by auto
  let ?now = "min (max now t) (now + max 0 (deadline - now))"
  have now: "?now = max now t" using t Cons.prems(3) by auto
  have "max now t \<le> deadline" using t Cons.prems(3) by simp
  with Cons.IH[of ?now] Cons.prems joins_end_in_time[of ?now deadline es] t now show ?case
    by (auto simp: Let_def)
qed simp

section \<open>What the pool does not promise\<close>

text \<open>
  A thread that cannot be started keeps its slot, and when that has happened \<open>max_workers\<close> times no
  request is handled any more.
\<close>

lemma failed_starts_exhaust_the_pool:
  assumes "pool_reachable m s" "leaked s = m" "pool_step\<^sup>*\<^sup>* s s'"
  shows "running (handlers s') = 0 \<and> free_slots s' = 0"
proof -
  have "pool_ok m s'" by (rule server.steps_ok[OF assms(3) pool_reachable_ok[OF assms(1)]])
  moreover have "leaked s \<le> leaked s'" by (rule server.steps_le[OF assms(3) pool_reachable_ok[OF assms(1)]])
  ultimately show ?thesis using assms(2) by (simp add: pool_ok_def)
qed

lemma a_pool_can_be_exhausted: "\<exists>s. pool_reachable 1 s \<and> leaked s = 1 \<and> accept_loop s = Serving"
  using pool_next[OF one_accepted by_loop[OF thread_not_started]] by (fastforce simp: new_pool_def)

lemma one_stopping:
  "pool_reachable 1 (new_pool 1\<lparr>arrivals := 1, free_slots := 0, handlers := [(0, Started)],
     shutdown_event := True, shutdown_request := True, close_call := Stopping\<rparr>)"
proof -
  have "pool_reachable 1 (new_pool 1\<lparr>arrivals := 1, free_slots := 0, handlers := [(0, Started)],
      shutdown_event := True, close_call := Signalled\<rparr>)"
    using pool_next[OF one_started by_closer[OF set_event]] by (simp add: new_pool_def)
  from pool_next[OF this by_closer[OF request_shutdown]] show ?thesis by (simp add: new_pool_def)
qed

text \<open>
  A handler whose thread runs but is not registered yet when the snapshot is taken is neither closed nor
  waited for: the call returns while it is still to handle its request.
\<close>

lemma unregistered_handler_is_missed:
  "\<exists>s. pool_reachable 1 s \<and> close_call s = Returned \<and> handlers s = [(0, Started)] \<and> closed_sockets s = {}"
proof -
  let ?s = "\<lambda>c. new_pool 1\<lparr>arrivals := 1, free_slots := 0, handlers := [(0, Started)],
     shutdown_event := True, shutdown_request := True, accept_loop := Loop_ended, close_call := c\<rparr>"
  have "pool_reachable 1 (?s Stopping)"
    using pool_next[OF one_stopping by_loop[OF end_loop]] by (simp add: new_pool_def)
  from pool_next[OF this by_closer[OF loop_has_ended]] have "pool_reachable 1 (?s Listener_closed)"
    by (simp add: new_pool_def)
  from pool_next[OF this by_closer[OF take_snapshot[of _ "[]" "[]"]]] have "pool_reachable 1 (?s (Closing [] []))"
    by (simp add: new_pool_def)
  from pool_next[OF this by_closer[OF sockets_closed]] have "pool_reachable 1 (?s (Joining []))"
    by (simp add: new_pool_def)
  from pool_next[OF this by_closer[OF all_joined]] have "pool_reachable 1 (?s Returned)"
    by (simp add: new_pool_def)
  then show ?thesis by (intro exI[of _ "?s Returned"]) (simp add: new_pool_def)
qed

end
