(* ===== verification/Simulator_Cli.thy ===== *)
theory Simulator_Cli
  imports Server
begin

text \<open>
  \<open>simulator/cli.py\<close>: \<open>main\<close> after \<open>argparse\<close>.  The content of the plan file, \<open>ipaddress\<close> and
  whether the socket can be bound are arguments; serving itself is \<open>route\<close> per request
  (\<open>Server\<close>) until the interrupt.
\<close>

text \<open>\<open>plan_file\<close>: not given, given but unreadable, or its bytes.\<close>

record simulator_args =
  bind_host :: string
  bind_port :: int
  plan_file :: "string option option"

definition simulator_event :: "string \<Rightarrow> string \<Rightarrow> log_event" where
  "simulator_event name level = \<lparr>log_name = name, log_level = level, log_operation = None, log_key = None,
     log_preset = None, log_ordinal = None, log_status = None, log_processed = None\<rparr>"

text \<open>
  The exit code (\<open>None\<close> is the \<open>RecursionError\<close> of a plan nested too deep, which is not caught), the
  plan that was served, and the log.
\<close>

record simulator_run =
  exit_code :: "int option"
  served_plan :: "scenario_plan option"
  run_log :: "log_event list"

definition stopped :: "int option \<Rightarrow> log_event list \<Rightarrow> simulator_run" where
  "stopped code log = \<lparr>exit_code = code, served_plan = None, run_log = log\<rparr>"

definition chosen_plan :: "nat \<Rightarrow> simulator_args \<Rightarrow> plan_error + scenario_plan" where
  "chosen_plan limit args =
     (case plan_file args of None \<Rightarrow> Inr EMPTY_PLAN | Some content \<Rightarrow> load_scenario_plan limit content)"

definition simulator_main :: "nat \<Rightarrow> (string \<Rightarrow> bool option) \<Rightarrow> bool \<Rightarrow> simulator_args \<Rightarrow> simulator_run" where
  "simulator_main limit ip_address binds args =
     (case ip_address (bind_host args) of
        None \<Rightarrow> stopped (Some 2) []
      | Some loopback \<Rightarrow>
          if \<not> loopback then stopped (Some 2) []
          else if \<not> (1 \<le> bind_port args \<and> bind_port args \<le> 65535) then stopped (Some 2) []
          else (case chosen_plan limit args of
              Inl ScenarioPlanError \<Rightarrow> stopped (Some 2) [simulator_event ''configuration_rejected'' ''error'']
            | Inl Plan_RecursionError \<Rightarrow> stopped None []
            | Inr plan \<Rightarrow>
                if \<not> binds then stopped (Some 1) []
                else \<lparr>exit_code = Some 0, served_plan = Some plan,
                  run_log = [simulator_event ''simulator_started'' ''info'', simulator_event ''simulator_stopped'' ''info'']\<rparr>))"

text \<open>
  Requests are served only on a loopback address and a port in range, under a plan that was
  validated as a whole; then and only then the exit code is 0.
\<close>

lemma served_only_when_valid:
  "served_plan (simulator_main limit ip_address binds args) = Some plan \<longleftrightarrow>
     ip_address (bind_host args) = Some True \<and> 1 \<le> bind_port args \<and> bind_port args \<le> 65535
     \<and> chosen_plan limit args = Inr plan \<and> binds"
  "exit_code (simulator_main limit ip_address binds args) = Some 0 \<longleftrightarrow>
     served_plan (simulator_main limit ip_address binds args) \<noteq> None"
  by (auto simp: simulator_main_def stopped_def split: option.split sum.split plan_error.split)

end
