(* ===== verification/Delivery.thy ===== *)
theory Delivery
  imports Simulator_Cli
begin

text \<open>
  What \<open>simulator/server.py\<close> does around a request beside its reply: the methods it accepts, the event
  it logs (\<open>_send_validation_failure\<close>, \<open>_deliver\<close>, \<open>handle_error\<close>), the draining of a body that is
  too large, and the write whose failure is swallowed.
\<close>

section \<open>Events\<close>

text \<open>The \<open>do_*\<close> methods; for any other method the library answers itself.\<close>

definition HANDLED_METHODS :: "string list" where
  "HANDLED_METHODS = [''GET'', ''POST'', ''PUT'', ''DELETE'', ''PATCH'', ''HEAD'', ''OPTIONS'']"

definition error_event :: "log_event" where
  "error_event = simulator_event ''request_aborted'' ''error''"

definition failure_event :: "failure \<Rightarrow> string option \<Rightarrow> string option \<Rightarrow> log_event" where
  "failure_event f op_name key =
     (case f of
        ValidationFailure s code message headers \<Rightarrow>
          \<lparr>log_name = ''request_completed'', log_level = ''error'', log_operation = op_name, log_key = None,
           log_preset = None, log_ordinal = None, log_status = Some s, log_processed = None\<rparr>
      | Entry_rejected \<Rightarrow>
          \<lparr>log_name = ''request_completed'', log_level = ''error'', log_operation = op_name, log_key = key,
           log_preset = None, log_ordinal = None, log_status = Some 400, log_processed = None\<rparr>
      | Uncaught \<Rightarrow> error_event)"

text \<open>\<open>idem_key\<close> when the \<open>JobEntryValidationError\<close> is caught.\<close>

definition validated_key :: "http_request \<Rightarrow> string option" where
  "validated_key req = (case validate_submission_idempotency_key req of Inl f \<Rightarrow> None | Inr key \<Rightarrow> Some key)"

definition outcome_event :: "service_outcome option \<Rightarrow> string \<Rightarrow> string \<Rightarrow> log_event" where
  "outcome_event out op_name key =
     (case out of None \<Rightarrow> error_event | Some o' \<Rightarrow> delivery_event o' op_name key)"

definition submission_event :: "service \<Rightarrow> http_request \<Rightarrow> coordinator \<Rightarrow> log_event" where
  "submission_event sv req c =
     (case validate_submission sv req of
        Inl f \<Rightarrow> failure_event f (Some ''submission'') (validated_key req)
      | Inr (key, bytes) \<Rightarrow>
          outcome_event (fst (handle_submission (service_sha256 sv) (service_plan sv) key bytes
            (payload_digest (service_sha256 sv) bytes) c)) ''submission'' key)"

definition reconciliation_event :: "service \<Rightarrow> http_request \<Rightarrow> string \<Rightarrow> coordinator \<Rightarrow> log_event" where
  "reconciliation_event sv req encoded_key c =
     (case validate_reconciliation req encoded_key of
        Inl f \<Rightarrow> failure_event f (Some ''reconciliation'') None
      | Inr key \<Rightarrow> outcome_event (fst (handle_reconciliation (service_plan sv) key c)) ''reconciliation'' key)"

definition route_event :: "service \<Rightarrow> (string \<Rightarrow> bool) \<Rightarrow> http_request \<Rightarrow> coordinator \<Rightarrow> log_event" where
  "route_event sv authority_ok req c =
     (case urlsplit authority_ok (target req) of
        None \<Rightarrow> error_event
      | Some parts \<Rightarrow>
          (let p = url_path parts; n = length RECONCILE_PREFIX
           in if p = JOBS_PATH then
                (if command req \<noteq> ''POST'' then failure_event (method_not_allowed ''POST'') (Some ''submission'') None
                 else submission_event sv req c)
              else if take n p = RECONCILE_PREFIX \<and> CHR ''/'' \<notin> set (drop n p) then
                (if command req \<noteq> ''GET'' then failure_event (method_not_allowed ''GET'') (Some ''reconciliation'') None
                 else reconciliation_event sv req (drop n p) c)
              else failure_event route_not_found None None))"

section \<open>The event tells what was replied\<close>

definition tells :: "log_event \<Rightarrow> delivery \<Rightarrow> bool" where
  "tells e d \<longleftrightarrow> (case d of
     Response s b hs \<Rightarrow> log_name e = ''request_completed'' \<and> log_status e = Some s
       \<and> log_level e = (if s < 400 then ''info'' else ''error'')
   | Aborted \<Rightarrow> log_name e = ''request_aborted'' \<and> log_status e = None \<and> log_level e = ''error'')"

definition refusal :: "failure \<Rightarrow> bool" where
  "refusal f \<longleftrightarrow> (case f of ValidationFailure s code message headers \<Rightarrow> 400 \<le> s | _ \<Rightarrow> True)"

lemma failure_event_tells: "refusal f \<Longrightarrow> tells (failure_event f op_name key) (failure_reply f)"
  by (cases f) (simp_all add: refusal_def tells_def failure_event_def failure_reply_def error_event_def simulator_event_def)

lemma outcome_event_tells: "tells (outcome_event out op_name key) (deliver out)"
  by (auto simp: tells_def outcome_event_def deliver_def delivery_event_def error_event_def simulator_event_def
      split: option.split delivery.split)

lemma bind_failure_refusal:
  "bind_failure r f = Inl e \<Longrightarrow> (\<And>e. r = Inl e \<Longrightarrow> refusal e) \<Longrightarrow> (\<And>a e. f a = Inl e \<Longrightarrow> refusal e) \<Longrightarrow> refusal e"
  by (cases r) (auto simp: bind_failure_def)

lemma framing_refusals:
  "validate_no_transfer_encoding req = Inl e \<Longrightarrow> refusal e"
  "parse_content_length req required limit = Inl e \<Longrightarrow> refusal e"
  "validate_get_content_length req = Inl e \<Longrightarrow> refusal e"
  "validate_json_content_type req = Inl e \<Longrightarrow> refusal e"
  "validate_submission_idempotency_key req = Inl e \<Longrightarrow> refusal e"
  "read_body req n = Inl e \<Longrightarrow> refusal e"
  "entry_failure r = Inl e \<Longrightarrow> refusal e"
  by (auto simp: refusal_def validate_no_transfer_encoding_def parse_content_length_def validate_get_content_length_def
      validate_json_content_type_def validate_submission_idempotency_key_def read_body_def entry_failure_def too_large_def Let_def
      split: list.splits if_splits option.splits sum.splits entry_error.splits)

lemma validate_submission_refusal: "validate_submission sv req = Inl e \<Longrightarrow> refusal e"
  unfolding validate_submission_def
  by (elim bind_failure_refusal framing_refusals)+ (auto elim!: bind_failure_refusal framing_refusals)

lemma validate_reconciliation_refusal: "validate_reconciliation req encoded_key = Inl e \<Longrightarrow> refusal e"
  unfolding validate_reconciliation_def
  by (elim bind_failure_refusal framing_refusals) (auto simp: refusal_def split: option.splits)

text \<open>
  Every request a \<open>do_*\<close> method handles is logged with exactly one event, which says \<open>request_completed\<close>
  with the status of the response when there is a response and \<open>request_aborted\<close> when there is none.
\<close>

lemma every_request_is_logged: "tells (route_event sv authority_ok req c) (fst (route sv authority_ok req c))"
proof -
  have sub: "tells (submission_event sv req c) (fst (http_submission sv req c))"
    using failure_event_tells[OF validate_submission_refusal] outcome_event_tells
    by (auto simp: submission_event_def http_submission_def split: sum.split prod.split)
  have rec: "tells (reconciliation_event sv req k c) (fst (http_reconciliation sv req k c))" for k
    using failure_event_tells[OF validate_reconciliation_refusal] outcome_event_tells
    by (auto simp: reconciliation_event_def http_reconciliation_def split: sum.split prod.split)
  have err: "tells error_event Aborted" by (simp add: tells_def error_event_def simulator_event_def)
  have fixed: "tells (failure_event (method_not_allowed a) op_name key) (failure_reply (method_not_allowed a))"
    "tells (failure_event route_not_found op_name key) (failure_reply route_not_found)" for a op_name key
    by (rule failure_event_tells, simp add: refusal_def method_not_allowed_def route_not_found_def)+
  show ?thesis
    by (simp add: route_event_def route_def Let_def sub rec fixed failure_reply_def[of Uncaught] err split: option.split)
qed

section \<open>Writing and draining\<close>

text \<open>\<open>_write_json_response\<close>: what reaches the client when the write may fail; the failure is swallowed.\<close>

definition write_json_response :: "bool \<Rightarrow> delivery \<Rightarrow> delivery" where
  "write_json_response fails d = (if fails then Aborted else d)"

text \<open>So a reply that was cut off is logged as complete.\<close>

lemma cut_off_reply_is_logged_as_complete:
  assumes "fst (route sv authority_ok req c) = Response s b hs"
  shows "write_json_response True (fst (route sv authority_ok req c)) = Aborted
    \<and> log_name (route_event sv authority_ok req c) = ''request_completed''"
  using every_request_is_logged[of sv authority_ok req c] assms by (simp add: write_json_response_def tells_def)

text \<open>
  \<open>_drain_body_best_effort\<close>: read number \<open>i\<close> asks for at most 64 KiB and returns a number of bytes,
  0 at the end, or raises (\<open>None\<close>); the result is how many bytes were read.
\<close>

function drain :: "(nat \<Rightarrow> nat \<Rightarrow> nat option) \<Rightarrow> nat \<Rightarrow> nat \<Rightarrow> nat" where
  "drain reads i remaining =
     (if remaining = 0 then 0
      else case reads i (min remaining 65536) of
             None \<Rightarrow> 0
           | Some n \<Rightarrow> if n = 0 then 0 else n + drain reads (Suc i) (remaining - n))"
  by pat_completeness auto
termination by (relation "measure (\<lambda>(reads, i, remaining). remaining)") auto

declare drain.simps [simp del]

definition drain_body_best_effort :: "bool \<Rightarrow> (nat \<Rightarrow> nat \<Rightarrow> nat option) \<Rightarrow> nat" where
  "drain_body_best_effort timeout_set reads = (if timeout_set then drain reads 0 (nat MAX_BODY_BYTES) else 0)"

lemma drain_bound:
  assumes "\<And>i n k. reads i n = Some k \<Longrightarrow> k \<le> n"
  shows "drain reads i remaining \<le> remaining"
  using assms
proof (induction reads i remaining rule: drain.induct)
  case (1 reads i remaining)
  show ?case
  proof (cases "reads i (min remaining 65536)")
    case (Some n)
    with 1(2) have "n \<le> remaining" by fastforce
    moreover have "n \<noteq> 0 \<Longrightarrow> remaining \<noteq> 0 \<Longrightarrow> drain reads (Suc i) (remaining - n) \<le> remaining - n"
      using 1(1)[of n] 1(2) Some by blast
    ultimately show ?thesis using Some by (subst drain.simps) auto
  qed (subst drain.simps, simp)
qed

text \<open>Only a body that is too large is drained.\<close>

definition drained :: "service \<Rightarrow> http_request \<Rightarrow> bool \<Rightarrow> (nat \<Rightarrow> nat \<Rightarrow> nat option) \<Rightarrow> nat" where
  "drained sv req timeout_set reads =
     (case validate_submission sv req of
        Inl (ValidationFailure s code message headers) \<Rightarrow>
          if s = 413 then drain_body_best_effort timeout_set reads else 0
      | _ \<Rightarrow> 0)"

end
