(* ===== verification/Reconciliation.thy ===== *)
theory Reconciliation
  imports Recording
begin

text \<open>
  The bounded wait of an invocation (\<open>application/waiting.py\<close>), the automatic reconciliation of
  an uncertain submission (\<open>application/reconciliation_sequence.py\<close>) and the fenced recovery of
  an interrupted one (\<open>application/recovery.py\<close>).

  Durations are microseconds.  The source keeps them as float seconds; every duration it adds
  or compares is a whole number of microseconds below a minute.
\<close>

section \<open>Waiting\<close>

definition CEILING_US :: int where
  "CEILING_US = 30000000"

definition RENEWAL_CADENCE_US :: int where
  "RENEWAL_CADENCE_US = 20000000"

definition QUARANTINE_US :: int where
  "QUARANTINE_US = 10000000"

definition remaining_us :: "int prog" where
  "remaining_us w = (Inr (max 0 (CEILING_US - slept_us w)), w)"

definition delay_until :: "timestamp \<Rightarrow> int prog" where
  "delay_until earliest =
     bind (parsed_timestamp earliest) (\<lambda>t. bind clock_now (\<lambda>now. ret (max 0 (t - now))))"

definition wait_if_it_fits :: "timestamp \<Rightarrow> bool prog" where
  "wait_if_it_fits earliest =
     bind (delay_until earliest) (\<lambda>delay.
     bind remaining_us (\<lambda>remaining.
     if delay > remaining then ret False
     else thn (sleep delay) (ret True)))"

text \<open>The \<open>True\<close>, \<open>False\<close> and \<open>None\<close> of \<open>wait_while_renewing_lease\<close>.\<close>

datatype wait_result = Waited | Does_not_fit | Renewal_failed

function renewing_chunks :: "int \<Rightarrow> bool prog \<Rightarrow> wait_result prog" where
  "renewing_chunks remaining renew =
     (if remaining \<le> 0 then ret Waited
      else
        let chunk = min remaining RENEWAL_CADENCE_US
        in thn (sleep chunk)
           (if remaining - chunk > 0
            then bind renew (\<lambda>renewed.
              if renewed then renewing_chunks (remaining - chunk) renew else ret Renewal_failed)
            else renewing_chunks (remaining - chunk) renew))"
  by pat_completeness auto
termination
  by (relation "measure (\<lambda>(remaining, _). nat remaining)") (auto simp: RENEWAL_CADENCE_US_def)

declare renewing_chunks.simps [simp del]

definition wait_while_renewing_lease :: "timestamp \<Rightarrow> bool prog \<Rightarrow> wait_result prog" where
  "wait_while_renewing_lease earliest renew =
     bind (delay_until earliest) (\<lambda>delay.
     bind remaining_us (\<lambda>remaining.
     if delay > remaining then ret Does_not_fit
     else renewing_chunks delay renew))"

section \<open>Reconciliation\<close>

definition MAX_RECONCILIATION_REQUESTS :: int where
  "MAX_RECONCILIATION_REQUESTS = 3"

record reconciliation_outcome =
  rec_job :: job_row
  rec_attempt :: attempt_row
  request_count :: int
  ownership_lost :: bool
  persistence_failed :: bool

definition reconciled :: "job_row \<Rightarrow> attempt_row \<Rightarrow> int \<Rightarrow> reconciliation_outcome" where
  "reconciled j a count = \<lparr>rec_job = j, rec_attempt = a, request_count = count,
     ownership_lost = False, persistence_failed = False\<rparr>"

definition lost_ownership :: "job_row \<Rightarrow> attempt_row \<Rightarrow> int \<Rightarrow> reconciliation_outcome" where
  "lost_ownership j a count = (reconciled j a count)\<lparr>ownership_lost := True\<rparr>"

definition failed_persistence :: "job_row \<Rightarrow> attempt_row \<Rightarrow> int \<Rightarrow> reconciliation_outcome" where
  "failed_persistence j a count = (reconciled j a count)\<lparr>persistence_failed := True\<rparr>"

text \<open>\<open>try: x = p() except Exception: ...\<close>: the exception as a value.\<close>

definition catching :: "'a prog \<Rightarrow> (exn + 'a) prog" where
  "catching p =
     try_except (bind p (\<lambda>a. ret (Inr a))) (\<lambda>e. if is_exception e then ret (Inl e) else raise e)"

lemma wp_catching [wp_simps]:
  "wp (catching p) Q E w =
     wp p (\<lambda>a. Q (Inr a)) (\<lambda>e w'. if is_exception e then Q (Inl e) w' else E e w') w"
  by (auto simp: catching_def wp_def try_except_def bind_def ret_def raise_def
      split: prod.split sum.split)

definition late_category_of :: "record_disposition \<Rightarrow> string" where
  "late_category_of disp =
     (case disp of
        R_matched \<Rightarrow> ''processed''
      | R_conflict \<Rightarrow> ''idempotency_conflict''
      | R_not_found \<Rightarrow> ''reconciliation_not_found''
      | R_inconclusive \<Rightarrow> ''reconciliation_inconclusive'')"

definition try_consume_late_evidence ::
  "job_row \<Rightarrow> attempt_row \<Rightarrow> string \<Rightarrow> int \<Rightarrow> int \<Rightarrow> reconciliation_outcome option prog" where
  "try_consume_late_evidence job attempt token generation count =
     bind (catching (consume_late_observations (job_id job) (attempt_id attempt) token generation))
       (\<lambda>result. case result of
          Inl _ \<Rightarrow> ret (Some (failed_persistence job attempt count))
        | Inr NoActionableLateEvidence \<Rightarrow> ret None
        | Inr LatePostFailure \<Rightarrow> ret (Some (lost_ownership job attempt count))
        | Inr (LateEvidenceConsumed j a) \<Rightarrow> ret (Some (reconciled j a count)))"

definition record_and_report ::
  "job_row \<Rightarrow> attempt_row \<Rightarrow> string \<Rightarrow> int \<Rightarrow> record_disposition \<Rightarrow> int \<Rightarrow> int option
   \<Rightarrow> string option \<Rightarrow> reconciliation_outcome prog" where
  "record_and_report job attempt token generation disp count status rid =
     bind (catching (record_reconciliation_result (job_id job) (attempt_id attempt) token
             generation disp status rid))
       (\<lambda>result. case result of
          Inl _ \<Rightarrow> ret (failed_persistence job attempt count)
        | Inr ReconciliationPostFailure \<Rightarrow>
            thn (catching (append_late_observation (attempt_id attempt) generation
                   (late_category_of disp) RECONCILIATION status rid None None))
            (ret (lost_ownership job attempt count))
        | Inr (ReconciliationFinalized j a) \<Rightarrow> ret (reconciled j a count))"

definition finalize_reconciliation ::
  "job_row \<Rightarrow> attempt_row \<Rightarrow> string \<Rightarrow> int \<Rightarrow> record_disposition \<Rightarrow> int \<Rightarrow> int option
   \<Rightarrow> string option \<Rightarrow> reconciliation_outcome prog" where
  "finalize_reconciliation job attempt token generation disp count status rid =
     (if disp = R_inconclusive
      then bind (try_consume_late_evidence job attempt token generation count) (\<lambda>consumed.
        case consumed of
          Some outcome \<Rightarrow> ret outcome
        | None \<Rightarrow> record_and_report job attempt token generation disp count status rid)
      else record_and_report job attempt token generation disp count status rid)"

text \<open>\<open>_renew\<close>, the renewal between two chunks of a wait.\<close>

definition renewed_lease :: "job_row \<Rightarrow> attempt_row \<Rightarrow> string \<Rightarrow> int \<Rightarrow> bool prog" where
  "renewed_lease job attempt token generation =
     bind (catching (renew_lease (job_id job) (attempt_id attempt) token generation LEASE_SECONDS))
       (\<lambda>result. case result of
          Inr (LeaseRenewed _) \<Rightarrow> ret True
        | _ \<Rightarrow> ret False)"

definition record_disposition_of :: "reconciliation_disposition \<Rightarrow> record_disposition option" where
  "record_disposition_of disp =
     (case disp of
        Matched \<Rightarrow> Some R_matched
      | Conflict \<Rightarrow> Some R_conflict
      | Not_found \<Rightarrow> Some R_not_found
      | Retryable \<Rightarrow> None)"

text \<open>
  The decision after a retryable observation: the gate, then whether another GET is due.
  \<open>Inl\<close> is a result, \<open>Inr\<close> the next \<open>not_before\<close>.
\<close>

definition after_retryable ::
  "job_row \<Rightarrow> attempt_row \<Rightarrow> string \<Rightarrow> int \<Rightarrow> int \<Rightarrow> bool \<Rightarrow> int option
   \<Rightarrow> (reconciliation_outcome + timestamp) prog" where
  "after_retryable job attempt token generation count limited server_ms =
     bind (draw_policy_delay count) (\<lambda>policy_ms.
     bind (if limited
           then catching (advance_gate_for_reconciliation_rate_limit
                  (effective_delay_ms policy_ms server_ms))
           else ret (Inr ())) (\<lambda>advanced.
     case advanced of
       Inl _ \<Rightarrow> ret (Inl (failed_persistence job attempt count))
     | Inr _ \<Rightarrow>
         if count \<ge> MAX_RECONCILIATION_REQUESTS
         then bind (finalize_reconciliation job attempt token generation R_inconclusive
                count None None) (\<lambda>outcome. ret (Inl outcome))
         else bind clock_now (\<lambda>t.
           ret (Inr (format_timestamp
             (add_milliseconds t (effective_delay_ms policy_ms server_ms)))))))"

text \<open>What follows a GET: the observation, then the authoritative result or the decision.\<close>

definition record_observation ::
  "job_row \<Rightarrow> attempt_row \<Rightarrow> string \<Rightarrow> int \<Rightarrow> string \<Rightarrow> int \<Rightarrow> reconcile_http_outcome
   \<Rightarrow> retry_after_result option \<Rightarrow> (reconciliation_outcome + timestamp) prog" where
  "record_observation job attempt token generation seq_id count http_outcome parsed =
     (let ev = classify_reconciliation_outcome http_outcome;
          status = reconcile_http_status http_outcome;
          rid = reconcile_remote_request_id http_outcome;
          server_ms = (case parsed of None \<Rightarrow> None | Some p \<Rightarrow> server_delay_of p);
          diag = (case parsed of None \<Rightarrow> None | Some p \<Rightarrow> diagnostic_of p)
      in
      bind (catching (append_observation (attempt_id attempt) seq_id count RECONCILIATION generation
              (rev_error_category ev) None status rid server_ms diag)) (\<lambda>appended.
      case appended of
        Inl _ \<Rightarrow> ret (Inl (failed_persistence job attempt count))
      | Inr _ \<Rightarrow>
          (case record_disposition_of (rdisposition ev) of
             Some disp \<Rightarrow>
               bind (finalize_reconciliation job attempt token generation disp count status rid)
                 (\<lambda>outcome. ret (Inl outcome))
           | None \<Rightarrow>
               after_retryable job attempt token generation count
                 (rev_error_category ev = Some ''rate_limited'') server_ms)))"

definition observe_reconciliation ::
  "job_row \<Rightarrow> attempt_row \<Rightarrow> string \<Rightarrow> int \<Rightarrow> string \<Rightarrow> int \<Rightarrow> reconcile_http_outcome
   \<Rightarrow> (reconciliation_outcome + timestamp) prog" where
  "observe_reconciliation job attempt token generation seq_id count http_outcome =
     (let ev = classify_reconciliation_outcome http_outcome
      in
      bind clock_now (\<lambda>now_instant.
      bind (if rev_error_category ev = Some ''rate_limited''
            then bind (parsed_retry_after (rev_retry_after_values ev) now_instant) (\<lambda>p. ret (Some p))
            else ret None)
        (record_observation job attempt token generation seq_id count http_outcome)))"

text \<open>
  The body of the loop after the authorization; \<open>continue\<close> is the next pass, with its request
  count and its \<open>not_before\<close>.
\<close>

definition after_authorization ::
  "(int \<Rightarrow> timestamp option \<Rightarrow> reconciliation_outcome prog)
   \<Rightarrow> job_row \<Rightarrow> attempt_row \<Rightarrow> string \<Rightarrow> int \<Rightarrow> string \<Rightarrow> int \<Rightarrow> timestamp option
   \<Rightarrow> exn + reconciliation_authorization \<Rightarrow> reconciliation_outcome prog" where
  "after_authorization continue job attempt token generation seq_id count earliest auth =
     (case auth of
        Inl _ \<Rightarrow> ret (failed_persistence job attempt count)
      | Inr ReconciliationOwnershipLost \<Rightarrow> ret (lost_ownership job attempt count)
      | Inr (ReconciliationDeferred t) \<Rightarrow>
          bind (wait_while_renewing_lease t (renewed_lease job attempt token generation)) (\<lambda>waited.
          case waited of
            Renewal_failed \<Rightarrow> ret (lost_ownership job attempt count)
          | Waited \<Rightarrow> continue count earliest
          | Does_not_fit \<Rightarrow>
              finalize_reconciliation job attempt token generation R_inconclusive count None None)
      | Inr ReconciliationAuthorized \<Rightarrow>
          bind (catching (reconcile_job (idempotency_key job))) (\<lambda>http.
          bind (observe_reconciliation job attempt token generation seq_id (count + 1)
                  (case http of Inl _ \<Rightarrow> ReconcileTransportFailure | Inr outcome \<Rightarrow> outcome)) (\<lambda>next.
          case next of
            Inl outcome \<Rightarrow> ret outcome
          | Inr t \<Rightarrow> continue (count + 1) (Some t))))"

fun reconciliation_loop ::
  "nat \<Rightarrow> job_row \<Rightarrow> attempt_row \<Rightarrow> string \<Rightarrow> int \<Rightarrow> string \<Rightarrow> int \<Rightarrow> timestamp option
   \<Rightarrow> reconciliation_outcome prog" where
  "reconciliation_loop 0 job attempt token generation seq_id count earliest = raise Out_of_fuel"
| "reconciliation_loop (Suc n) job attempt token generation seq_id count earliest =
     bind (try_consume_late_evidence job attempt token generation count) (\<lambda>consumed.
     case consumed of
       Some outcome \<Rightarrow> ret outcome
     | None \<Rightarrow>
         bind (catching (authorize_reconciliation_request (job_id job) (attempt_id attempt) token
                 generation LEASE_SECONDS earliest))
           (after_authorization (reconciliation_loop n job attempt token generation seq_id)
              job attempt token generation seq_id count earliest))"

definition run_reconciliation_sequence ::
  "job_row \<Rightarrow> attempt_row \<Rightarrow> string \<Rightarrow> int \<Rightarrow> reconciliation_outcome prog" where
  "run_reconciliation_sequence job attempt token generation =
     bind id_generator (\<lambda>seq_id.
     with_fuel (\<lambda>n. reconciliation_loop n job attempt token generation seq_id 0 None))"

section \<open>Recovery\<close>

datatype recovery_result =
    Recovered reconciliation_outcome
  | RecoveryRerouted
  | RecoveryPersistenceFailed

definition recover_and_reconcile ::
  "job_row \<Rightarrow> attempt_row \<Rightarrow> string \<Rightarrow> int \<Rightarrow> recovery_result prog" where
  "recover_and_reconcile job attempt token lease =
     thn (sleep QUARANTINE_US)
     (bind (catching (claim_expired_attempt (job_id job) (attempt_id attempt) (owner_token attempt)
              (fencing_generation attempt) (lease_expires_at attempt) token lease)) (\<lambda>claim.
      case claim of
        Inl _ \<Rightarrow> ret RecoveryPersistenceFailed
      | Inr ClaimRejected \<Rightarrow> ret RecoveryRerouted
      | Inr (ClaimSucceeded j a) \<Rightarrow>
          bind (run_reconciliation_sequence j a token (fencing_generation a)) (\<lambda>outcome.
          ret (Recovered outcome))))"

end
