(* ===== verification/Submission.thy ===== *)
theory Submission
  imports Reconciliation
begin

text \<open>
  The submission workflow (\<open>application/submit.py\<close>) and the attempt history it attaches
  (\<open>application/history_projection.py\<close>), from the open connection on.
\<close>

section \<open>Attempt history\<close>

record attempt_history_item =
  item_attempt_id :: string
  item_attempt_number :: int
  item_state :: attempt_state
  item_started_at :: timestamp
  item_completed_at :: "timestamp option"
  item_http_status :: "int option"
  item_remote_request_id :: "string option"
  item_error_category :: "string option"
  item_retry_after_ms :: "int option"
  item_request_count :: int
  item_final_category :: "string option"

definition reconciliation_final_categories :: "string list" where
  "reconciliation_final_categories =
     [''rate_limited'', ''server_uncertain'', ''transport_maybe_sent'', ''protocol_uncertain'',
      ''reconciliation_not_found'', ''reconciliation_inconclusive'', ''idempotency_conflict'']"

definition reconciliation_rows :: "database \<Rightarrow> string \<Rightarrow> observation_row list" where
  "reconciliation_rows d aid =
     filter (\<lambda>r. observed_attempt_id r = aid \<and> operation r = RECONCILIATION) (attempt_observations d)"

text \<open>\<open>ORDER BY sequence_number DESC LIMIT 1\<close>.\<close>

definition last_reconciliation_category :: "database \<Rightarrow> string \<Rightarrow> string option" where
  "last_reconciliation_category d aid =
     (case rev (sort_key sequence_number (reconciliation_rows d aid)) of
        [] \<Rightarrow> None
      | r # _ \<Rightarrow> evidence_category r)"

definition final_category :: "string option \<Rightarrow> string option" where
  "final_category cat =
     (case cat of
        None \<Rightarrow> None
      | Some c \<Rightarrow> if c \<in> set reconciliation_final_categories then Some c else None)"

definition history_item :: "attempt_row \<Rightarrow> int \<Rightarrow> string option \<Rightarrow> attempt_history_item" where
  "history_item a count final =
     \<lparr>item_attempt_id = attempt_id a, item_attempt_number = attempt_number a,
      item_state = astate a, item_started_at = started_at a, item_completed_at = completed_at a,
      item_http_status = http_status a, item_remote_request_id = remote_request_id a,
      item_error_category = error_category a, item_retry_after_ms = retry_after_ms a,
      item_request_count = count, item_final_category = final\<rparr>"

fun history_items :: "attempt_row list \<Rightarrow> attempt_history_item list prog" where
  "history_items [] = ret []"
| "history_items (a # as) =
     bind (select (\<lambda>d. int (length (reconciliation_rows d (attempt_id a))))) (\<lambda>count.
     bind (if final_category (error_category a) = None \<and> count > 0
           then select (\<lambda>d. last_reconciliation_category d (attempt_id a))
           else ret (final_category (error_category a))) (\<lambda>final.
     bind (history_items as) (\<lambda>items.
     ret (history_item a count final # items))))"

definition read_attempt_history :: "string \<Rightarrow> attempt_history_item list prog" where
  "read_attempt_history jid =
     bind (select (\<lambda>d. sort_key attempt_number (attempts_of d jid))) history_items"

section \<open>Outcomes\<close>

datatype success_outcome = Outcome_succeeded | Outcome_already_completed

datatype error_outcome =
    Outcome_idempotency_conflict | Outcome_job_in_progress | Outcome_failed_permanent
  | Outcome_retry_exhausted | Outcome_ambiguous | Outcome_submission_deferred
  | Outcome_retry_scheduled | Outcome_ownership_lost | Outcome_local_persistence_failure

record success_report =
  success_outcome :: success_outcome
  success_submitted :: bool
  success_job_id :: string
  success_key :: string
  success_state :: job_state
  success_attempt_id :: string
  success_attempt_number :: int
  success_http_status :: int
  success_remote_request_id :: string
  success_payload_digest :: string
  success_reconciliation_requests :: int
  success_history :: "attempt_history_item list option"

record error_report =
  error_outcome :: error_outcome
  error_submitted :: bool
  error_key :: "string option"
  error_state :: "job_state option"
  error_job_id :: "string option"
  error_reconciliation_requests :: int
  error_history :: "attempt_history_item list option"

datatype submit_outcome = SubmitSuccess success_report | SubmitError error_report

definition submit_error ::
  "error_outcome \<Rightarrow> bool \<Rightarrow> string option \<Rightarrow> job_state option \<Rightarrow> string option \<Rightarrow> int \<Rightarrow> submit_outcome" where
  "submit_error out sent key s jid count =
     SubmitError \<lparr>error_outcome = out, error_submitted = sent, error_key = key, error_state = s,
       error_job_id = jid, error_reconciliation_requests = count, error_history = None\<rparr>"

definition job_error ::
  "error_outcome \<Rightarrow> bool \<Rightarrow> job_row \<Rightarrow> job_state \<Rightarrow> int \<Rightarrow> submit_outcome" where
  "job_error out sent j s count =
     submit_error out sent (Some (idempotency_key j)) (Some s) (Some (job_id j)) count"

text \<open>The success of a completed attempt; the asserts narrow its optional columns.\<close>

definition submit_success ::
  "success_outcome \<Rightarrow> bool \<Rightarrow> job_row \<Rightarrow> job_state \<Rightarrow> attempt_row \<Rightarrow> string \<Rightarrow> int
   \<Rightarrow> submit_outcome prog" where
  "submit_success out sent j s a digest count =
     (case (http_status a, remote_request_id a) of
        (Some status, Some rid) \<Rightarrow>
          ret (SubmitSuccess \<lparr>success_outcome = out, success_submitted = sent,
            success_job_id = job_id j, success_key = idempotency_key j, success_state = s,
            success_attempt_id = attempt_id a, success_attempt_number = attempt_number a,
            success_http_status = status, success_remote_request_id = rid,
            success_payload_digest = digest, success_reconciliation_requests = count,
            success_history = None\<rparr>)
      | _ \<Rightarrow> raise AssertionError)"

definition with_submitted :: "bool \<Rightarrow> submit_outcome \<Rightarrow> submit_outcome" where
  "with_submitted sent out =
     (case out of
        SubmitSuccess r \<Rightarrow> SubmitSuccess (r\<lparr>success_submitted := sent\<rparr>)
      | SubmitError r \<Rightarrow> SubmitError (r\<lparr>error_submitted := sent\<rparr>))"

definition with_history :: "attempt_history_item list \<Rightarrow> submit_outcome \<Rightarrow> submit_outcome" where
  "with_history items out =
     (case out of
        SubmitSuccess r \<Rightarrow> SubmitSuccess (r\<lparr>success_history := Some items\<rparr>)
      | SubmitError r \<Rightarrow> SubmitError (r\<lparr>error_history := Some items\<rparr>))"

definition outcome_job_id :: "submit_outcome \<Rightarrow> string option" where
  "outcome_job_id out =
     (case out of SubmitSuccess r \<Rightarrow> Some (success_job_id r) | SubmitError r \<Rightarrow> error_job_id r)"

definition render_reconciliation_outcome ::
  "reconciliation_outcome \<Rightarrow> string \<Rightarrow> bool \<Rightarrow> submit_outcome prog" where
  "render_reconciliation_outcome out digest sent =
     (let j = rec_job out; a = rec_attempt out; count = request_count out
      in if persistence_failed out
         then ret (job_error Outcome_local_persistence_failure sent j SUBMITTING count)
         else if ownership_lost out
         then ret (job_error Outcome_ownership_lost sent j (jstate j) count)
         else if astate a = A_SUCCEEDED
         then submit_success Outcome_succeeded sent j SUCCEEDED a digest count
         else if astate a = A_PERMANENT_FAILURE
         then ret (job_error Outcome_failed_permanent sent j FAILED_PERMANENT count)
         else if astate a = A_RETRYABLE_FAILURE
         then ret (job_error (if jstate j = FAILED_PERMANENT then Outcome_retry_exhausted
                              else Outcome_retry_scheduled) sent j (jstate j) count)
         else thn (asserting (astate a = A_AMBIGUOUS))
              (ret (job_error Outcome_ambiguous sent j AMBIGUOUS count)))"

section \<open>Dispatch\<close>

datatype step_result =
    Outcome submit_outcome
  | RetryEligibleAfterDispatch job_row attempt_row

definition not_sent_evidence :: submission_evidence where
  "not_sent_evidence = evidence Retryable_failure None None (Some ''transport_not_sent'') []"

text \<open>The late report of an owner that lost its attempt before it could finalize.\<close>

definition report_late ::
  "attempt_row \<Rightarrow> submission_evidence \<Rightarrow> unit prog" where
  "report_late attempt ev =
     (let category = (if disposition ev = Succeeded then ''processed''
          else case ev_error_category ev of
            None \<Rightarrow> ''protocol_uncertain''
          | Some c \<Rightarrow> if c = [] then ''protocol_uncertain'' else c)
      in
      bind (if category = ''rate_limited''
            then bind clock_now (\<lambda>now.
                 bind (parsed_retry_after (retry_after_values ev) now) (\<lambda>p. ret (Some p)))
            else ret None) (\<lambda>parsed.
      let server_ms = (case parsed of None \<Rightarrow> None | Some p \<Rightarrow> server_delay_of p);
          diag = (case parsed of None \<Rightarrow> None | Some p \<Rightarrow> diagnostic_of p)
      in
      thn (catching (append_late_observation (attempt_id attempt) (fencing_generation attempt)
             category SUBMISSION (ev_http_status ev) (ev_remote_request_id ev) server_ms diag))
      (ret ())))"

definition after_finalization ::
  "job_row \<Rightarrow> attempt_row \<Rightarrow> string \<Rightarrow> string \<Rightarrow> submission_evidence \<Rightarrow> bool
   \<Rightarrow> submission_record_result \<Rightarrow> (step_result \<times> bool) prog" where
  "after_finalization job attempt token digest ev sent result =
     (case result of
        PostSideEffectFailure \<Rightarrow>
          thn (report_late attempt ev)
          (ret (Outcome (job_error Outcome_ownership_lost sent job SUBMITTING 0), sent))
      | SubmissionRetained j a \<Rightarrow>
          bind (run_reconciliation_sequence j a token (fencing_generation attempt)) (\<lambda>out.
          bind (render_reconciliation_outcome out digest sent) (\<lambda>rendered.
          ret (Outcome rendered, sent)))
      | SubmissionRetryScheduled j a \<Rightarrow> ret (RetryEligibleAfterDispatch j a, sent)
      | SubmissionFinalized j a \<Rightarrow>
          if astate a = A_SUCCEEDED
          then bind (submit_success Outcome_succeeded True j SUCCEEDED a digest 0) (\<lambda>out.
               ret (Outcome out, sent))
          else if astate a = A_PERMANENT_FAILURE
          then ret (Outcome (job_error Outcome_failed_permanent sent j FAILED_PERMANENT 0), sent)
          else thn (asserting (astate a = A_RETRYABLE_FAILURE))
               (ret (Outcome (job_error Outcome_retry_exhausted sent j FAILED_PERMANENT 0), sent)))"

definition finalize_with ::
  "job_row \<Rightarrow> attempt_row \<Rightarrow> string \<Rightarrow> submission_evidence \<Rightarrow> submission_record_result prog" where
  "finalize_with job attempt token ev =
     finalize_submission_attempt (job_id job) (attempt_id attempt) (attempt_number attempt) token
       (fencing_generation attempt) ev"

text \<open>
  Cancellation is awaited only where the code treats it: at the lease renewal, which is modelled
  as run to its end before the cancellation is seen.
\<close>

definition renewal_before_dispatch :: "job_row \<Rightarrow> attempt_row \<Rightarrow> string \<Rightarrow> lease_renewal_result prog" where
  "renewal_before_dispatch job attempt token =
     bind cancelled_at_renewal (\<lambda>cancelled.
     bind (catching (renew_lease (job_id job) (attempt_id attempt) token
             (fencing_generation attempt) LEASE_SECONDS)) (\<lambda>renewal.
     if cancelled then raise CancelledError
     else case renewal of Inl e \<Rightarrow> raise e | Inr r \<Rightarrow> ret r))"

definition dispatch_and_finalize ::
  "job_row \<Rightarrow> attempt_row \<Rightarrow> payload \<Rightarrow> string \<Rightarrow> string \<Rightarrow> (step_result \<times> bool) prog" where
  "dispatch_and_finalize job attempt bytes digest token =
     bind (try_except
            (bind (renewal_before_dispatch job attempt token) (\<lambda>r. ret (Inr r)))
            (\<lambda>e. if e = CancelledError
                  then thn (catching (finalize_with job attempt token not_sent_evidence)) (raise e)
                  else if is_exception e then ret (Inl e) else raise e)) (\<lambda>renewal.
     case renewal of
       Inl _ \<Rightarrow>
         ret (Outcome (job_error Outcome_local_persistence_failure False job SUBMITTING 0), False)
     | Inr LeaseLost \<Rightarrow>
         ret (Outcome (job_error Outcome_ownership_lost False job SUBMITTING 0), False)
     | Inr (LeaseRenewed _) \<Rightarrow>
         bind (catching (submit_job (idempotency_key job) bytes)) (\<lambda>http.
         case http of
           Inl _ \<Rightarrow>
             ret (Outcome (job_error Outcome_local_persistence_failure True job SUBMITTING 0), True)
         | Inr http_outcome \<Rightarrow>
             (let ev = classify_submission_outcome http_outcome;
                  sent = (ev_error_category ev \<noteq> Some ''transport_not_sent'')
              in bind (catching (finalize_with job attempt token ev)) (\<lambda>recorded.
                 case recorded of
                   Inl _ \<Rightarrow>
                     ret (Outcome (job_error Outcome_local_persistence_failure sent job SUBMITTING 0),
                          sent)
                 | Inr result \<Rightarrow> after_finalization job attempt token digest ev sent result))))"

section \<open>The invocation\<close>

definition failed_permanent_outcome :: "attempt_row \<Rightarrow> error_outcome" where
  "failed_permanent_outcome a =
     (if astate a = A_RETRYABLE_FAILURE then Outcome_retry_exhausted else Outcome_failed_permanent)"

text \<open>
  The variables of the loop: the key to use, the Job known so far, and whether a POST of this
  invocation may have been sent.
\<close>

record invocation =
  current_key :: "string option"
  known_job_id :: "string option"
  submitted_this_invocation :: bool

text \<open>One pass of the loop: \<open>Inl\<close> is \<open>return\<close>, \<open>Inr\<close> is \<open>continue\<close>.\<close>

definition handle_dispatched ::
  "invocation \<Rightarrow> step_result \<Rightarrow> bool \<Rightarrow> (submit_outcome + invocation) prog" where
  "handle_dispatched st step sent =
     (let st = st\<lparr>submitted_this_invocation := submitted_this_invocation st \<or> sent\<rparr>
      in case step of
        Outcome out \<Rightarrow> ret (Inl (with_submitted (submitted_this_invocation st) out))
      | RetryEligibleAfterDispatch j a \<Rightarrow>
          (let st = st\<lparr>current_key := Some (idempotency_key j), known_job_id := Some (job_id j)\<rparr>
           in case (completed_at a, retry_after_ms a) of
             (Some completed, Some delay) \<Rightarrow>
               bind (parsed_timestamp completed) (\<lambda>t.
               bind (wait_if_it_fits (format_timestamp (add_milliseconds t delay))) (\<lambda>waited.
               if waited then ret (Inr st)
               else ret (Inl (job_error Outcome_retry_scheduled (submitted_this_invocation st) j
                      RETRY_SCHEDULED 0))))
           | _ \<Rightarrow> raise AssertionError))"

definition handle_pre_result ::
  "string option \<Rightarrow> payload \<Rightarrow> string \<Rightarrow> string \<Rightarrow> int \<Rightarrow> invocation \<Rightarrow> pre_side_effect_result
   \<Rightarrow> (submit_outcome + invocation) prog" where
  "handle_pre_result supplied_key bytes digest token lease st pre_result =
     (let sent = submitted_this_invocation st
      in case pre_result of
        IdempotencyConflict \<Rightarrow>
          thn (asserting (supplied_key \<noteq> None))
          (ret (Inl (submit_error Outcome_idempotency_conflict False supplied_key None None 0)))
      | AlreadyCompleted j a \<Rightarrow>
          bind (asks digest_of) (\<lambda>digest_of.
          bind (submit_success Outcome_already_completed False j (jstate j) a
                  (digest_of (payload_canonical j)) 0) (\<lambda>out.
          ret (Inl out)))
      | JobInProgress j \<Rightarrow> ret (Inl (job_error Outcome_job_in_progress sent j (jstate j) 0))
      | RecoveryCandidate j a \<Rightarrow>
          (let st = st\<lparr>current_key := Some (idempotency_key j), known_job_id := Some (job_id j)\<rparr>
           in bind (recover_and_reconcile j a token lease) (\<lambda>result.
              case result of
                RecoveryRerouted \<Rightarrow> ret (Inr st)
              | RecoveryPersistenceFailed \<Rightarrow>
                  ret (Inl (submit_error Outcome_local_persistence_failure sent (current_key st)
                    (Some SUBMITTING) (known_job_id st) 0))
              | Recovered out \<Rightarrow>
                  bind (render_reconciliation_outcome out digest sent) (\<lambda>rendered.
                  ret (Inl rendered))))
      | TerminalFailedPermanent j a \<Rightarrow>
          ret (Inl (job_error (failed_permanent_outcome a) sent j (jstate j) 0))
      | TerminalAmbiguous j a \<Rightarrow> ret (Inl (job_error Outcome_ambiguous sent j (jstate j) 0))
      | NotYetEligible j t \<Rightarrow>
          (let st = st\<lparr>current_key := Some (idempotency_key j), known_job_id := Some (job_id j)\<rparr>
           in bind (wait_if_it_fits t) (\<lambda>waited.
              if waited then ret (Inr st)
              else ret (Inl (job_error
                     (if jstate j = PENDING then Outcome_submission_deferred
                      else Outcome_retry_scheduled) sent j (jstate j) 0))))
      | ReadyToSubmit j a _ \<Rightarrow>
          (let st = st\<lparr>known_job_id := Some (job_id j)\<rparr>
           in bind (catching (dispatch_and_finalize j a bytes digest token)) (\<lambda>dispatched.
              case dispatched of
                Inl _ \<Rightarrow>
                  ret (Inl (job_error Outcome_local_persistence_failure True j SUBMITTING 0))
              | Inr (step, this_attempt_submitted) \<Rightarrow>
                  handle_dispatched st step this_attempt_submitted)))"

fun submission_loop ::
  "nat \<Rightarrow> string option \<Rightarrow> payload \<Rightarrow> string \<Rightarrow> string \<Rightarrow> int \<Rightarrow> invocation \<Rightarrow> submit_outcome prog" where
  "submission_loop 0 supplied_key bytes digest token lease st = raise Out_of_fuel"
| "submission_loop (Suc n) supplied_key bytes digest token lease st =
     bind (catching (with_fuel (\<lambda>m.
             run_pre_side_effect_transaction m (current_key st) bytes token lease))) (\<lambda>pre.
     case pre of
       Inl _ \<Rightarrow>
         ret (submit_error Outcome_local_persistence_failure (submitted_this_invocation st)
           (current_key st) None (known_job_id st) 0)
     | Inr pre_result \<Rightarrow>
         bind (handle_pre_result supplied_key bytes digest token lease st pre_result) (\<lambda>next.
         case next of
           Inl out \<Rightarrow> ret out
         | Inr st' \<Rightarrow> submission_loop n supplied_key bytes digest token lease st'))"

definition run_with_connection :: "string option \<Rightarrow> payload \<Rightarrow> string \<Rightarrow> int \<Rightarrow> submit_outcome prog" where
  "run_with_connection supplied_key bytes digest lease =
     bind id_generator (\<lambda>token.
     with_fuel (\<lambda>n. submission_loop n supplied_key bytes digest token lease
       \<lparr>current_key = supplied_key, known_job_id = None, submitted_this_invocation = False\<rparr>))"

text \<open>Closing the connection drops a transaction that was left open.\<close>

definition close_connection :: "world \<Rightarrow> world" where
  "close_connection w = w\<lparr>open_tx := None\<rparr>"

definition finally_close :: "'a prog \<Rightarrow> 'a prog" where
  "finally_close p w = (case p w of (r, w') \<Rightarrow> (r, close_connection w'))"

text \<open>
  \<open>run_submit\<close> after the Job Entry and the key were validated and the connection opened.
\<close>

definition run_submit :: "string option \<Rightarrow> payload \<Rightarrow> submit_outcome prog" where
  "run_submit supplied_key bytes =
     finally_close
     (bind (asks digest_of) (\<lambda>digest_of.
      bind (asks lease_seconds) (\<lambda>lease.
      bind (run_with_connection supplied_key bytes (digest_of bytes) lease) (\<lambda>out.
      case outcome_job_id out of
        None \<Rightarrow> ret out
      | Some jid \<Rightarrow>
          except_exception
            (bind (read_attempt_history jid) (\<lambda>items. ret (with_history items out)))
            (ret out)))))"

end
