(* ===== verification/Workflow.thy ===== *)
theory Workflow
  imports Guarantee Submission
begin

text \<open>
  The workflow programs, composed from the transactions: what an invocation does to the
  database, to the network and to its wait budget, on every path and under every environment.
\<close>

section \<open>Runs\<close>

definition is_posted :: "event \<Rightarrow> bool" where
  "is_posted e = (case e of Posted _ _ _ _ \<Rightarrow> True | _ \<Rightarrow> False)"

definition is_got :: "event \<Rightarrow> bool" where
  "is_got e = (case e of Got _ \<Rightarrow> True | _ \<Rightarrow> False)"

text \<open>
  \<open>runs P w w'\<close>: a stretch of a run whose database progress is made of steps, whose events all
  satisfy \<open>P\<close>, and whose request counters count its events.
\<close>

definition runs :: "(event \<Rightarrow> bool) \<Rightarrow> world \<Rightarrow> world \<Rightarrow> bool" where
  "runs P w w' \<longleftrightarrow>
     progress w w'
     \<and> (\<exists>es. trace w' = trace w @ es \<and> list_all P es
          \<and> post_n w' = post_n w + length (filter is_posted es)
          \<and> get_n w' = get_n w + length (filter is_got es))"

lemma runs_refl [simp]: "runs P w w"
  by (simp add: runs_def)

lemma runs_trans:
  assumes "runs P w w1" "runs P w1 w2"
  shows "runs P w w2"
proof -
  from assms obtain es fs where
    "trace w1 = trace w @ es" "list_all P es" "post_n w1 = post_n w + length (filter is_posted es)"
    "get_n w1 = get_n w + length (filter is_got es)"
    "trace w2 = trace w1 @ fs" "list_all P fs" "post_n w2 = post_n w1 + length (filter is_posted fs)"
    "get_n w2 = get_n w1 + length (filter is_got fs)"
    by (auto simp: runs_def)
  with assms show ?thesis
    unfolding runs_def by (auto intro!: exI[of _ "es @ fs"] intro: progress_trans)
qed

lemma runs_mono: "runs P w w' \<Longrightarrow> (\<And>e. P e \<Longrightarrow> P' e) \<Longrightarrow> runs P' w w'"
  unfolding runs_def by (auto simp: list_all_iff)

lemma runs_progress: "runs P w w' \<Longrightarrow> progress w w'"
  by (simp add: runs_def)

lemma runs_quiet: "progress w w' \<Longrightarrow> quiet w w' \<Longrightarrow> runs P w w'"
  by (simp add: runs_def quiet_def)

lemma sound_runs: "sound w \<Longrightarrow> runs P w w' \<Longrightarrow> sound w'"
  by (blast intro: sound_progress runs_progress)

lemma progress_updates [simp]:
  "progress w (next_stmt w1) = progress w w1"
  "progress w (w1\<lparr>open_tx := t\<rparr>) = progress w w1"
  "progress w (w1\<lparr>clock_n := n\<rparr>) = progress w w1"
  "progress w (w1\<lparr>id_n := n\<rparr>) = progress w w1"
  "progress w (w1\<lparr>rand_n := n\<rparr>) = progress w w1"
  "progress w (w1\<lparr>key_n := n\<rparr>) = progress w w1"
  "progress w (w1\<lparr>renew_n := n\<rparr>) = progress w w1"
  "progress w (w1\<lparr>post_n := n\<rparr>) = progress w w1"
  "progress w (w1\<lparr>get_n := n\<rparr>) = progress w w1"
  "progress w (w1\<lparr>trace := t'\<rparr>) = progress w w1"
  "progress w (w1\<lparr>slept_us := u\<rparr>) = progress w w1"
  by (simp_all add: progress_def)

lemma runs_updates [simp]:
  "runs P w (next_stmt w1) = runs P w w1"
  "runs P w (w1\<lparr>open_tx := t\<rparr>) = runs P w w1"
  "runs P w (w1\<lparr>clock_n := n\<rparr>) = runs P w w1"
  "runs P w (w1\<lparr>id_n := n\<rparr>) = runs P w w1"
  "runs P w (w1\<lparr>rand_n := n\<rparr>) = runs P w w1"
  "runs P w (w1\<lparr>key_n := n\<rparr>) = runs P w w1"
  "runs P w (w1\<lparr>renew_n := n\<rparr>) = runs P w w1"
  by (simp_all add: runs_def)

lemma runs_event:
  assumes "runs P w w1" "P e"
  shows "runs P w (w1\<lparr>post_n := post_n w1 + (if is_posted e then 1 else 0),
    get_n := get_n w1 + (if is_got e then 1 else 0), trace := trace w1 @ [e]\<rparr>)"
proof -
  from assms(1) obtain es where "trace w1 = trace w @ es" "list_all P es"
    "post_n w1 = post_n w + length (filter is_posted es)"
    "get_n w1 = get_n w + length (filter is_got es)" by (auto simp: runs_def)
  with assms show ?thesis unfolding runs_def
    by (auto intro!: exI[of _ "es @ [e]"])
qed

lemma runs_sleep:
  assumes "runs P w w1" "\<And>n. P (Slept n)"
  shows "runs P w (w1\<lparr>slept_us := s, trace := trace w1 @ [Slept us]\<rparr>)"
proof -
  have "runs P w (w1\<lparr>post_n := post_n w1, get_n := get_n w1, trace := trace w1 @ [Slept us]\<rparr>)"
    using runs_event[OF assms(1), of "Slept us"] assms(2) by (simp add: is_posted_def is_got_def)
  then show ?thesis by (simp add: runs_def)
qed

lemma runs_get:
  assumes "runs P w w1" "P (Got k)"
  shows "runs P w (w1\<lparr>get_n := Suc (get_n w1), trace := trace w1 @ [Got k]\<rparr>)"
proof -
  have "runs P w (w1\<lparr>post_n := post_n w1, get_n := Suc (get_n w1), trace := trace w1 @ [Got k]\<rparr>)"
    using runs_event[OF assms] by (simp add: is_posted_def is_got_def)
  then show ?thesis by (simp add: runs_def)
qed

lemma runs_post:
  assumes "runs P w w1" "P (Posted k b d0 d)"
  shows "runs P w (w1\<lparr>post_n := Suc (post_n w1), trace := trace w1 @ [Posted k b d0 d]\<rparr>)"
proof -
  have "runs P w (w1\<lparr>post_n := Suc (post_n w1), get_n := get_n w1, trace := trace w1 @ [Posted k b d0 d]\<rparr>)"
    using runs_event[OF assms] by (simp add: is_posted_def is_got_def)
  then show ?thesis by (simp add: runs_def)
qed

text \<open>What the others commit belongs to a run.\<close>

lemma runs_others: "runs P w0 w \<Longrightarrow> sound w0 \<Longrightarrow> runs P w0 (others_commit w)"
  using runs_quiet[OF others_progress[OF sound_runs], of w0 P w P] by (auto intro: runs_trans)

lemma runs_settled:
  assumes "runs P w0 w" "sound w0" "settled w d w'" "db_steps (seen w) d"
  shows "runs P w0 w'"
proof -
  have "progress w w'" using settled_progress sound_runs assms by blast
  then have "runs P w w'" using assms(3) by (simp add: runs_quiet settled_def)
  with assms(1) show ?thesis by (rule runs_trans)
qed

lemma runs_aborted:
  assumes "runs P w0 w" "sound w0" "aborted w e w'"
  shows "runs P w0 w'"
proof -
  have "progress w w'" using aborted_progress sound_runs assms by blast
  then have "runs P w w'" using assms(3) by (simp add: runs_quiet aborted_def)
  with assms(1) show ?thesis by (rule runs_trans)
qed

text \<open>A \<open>BEGIN\<close> on a connection whose last transaction was left open.\<close>

lemma wp_open:
  "open_tx w \<noteq> None \<Longrightarrow> E PersistenceError (next_stmt w) \<Longrightarrow> wp (thn begin_immediate p) Q E w"
  by (auto simp: wp_thn wp_begin_immediate)

section \<open>Transactions in a run\<close>

text \<open>Further along a run, with no event since \<open>w\<close>.\<close>

definition after :: "(event \<Rightarrow> bool) \<Rightarrow> world \<Rightarrow> world \<Rightarrow> world \<Rightarrow> bool" where
  "after P w0 w w' \<longleftrightarrow> runs P w0 w' \<and> quiet w w'"

lemma after_settled:
  "runs P w0 w \<Longrightarrow> sound w0 \<Longrightarrow> settled w d w' \<Longrightarrow> db_steps (seen w) d \<Longrightarrow> after P w0 w w'"
  by (auto simp: after_def settled_def intro: runs_settled)

lemma after_aborted: "runs P w0 w \<Longrightarrow> sound w0 \<Longrightarrow> aborted w e w' \<Longrightarrow> after P w0 w w'"
  by (auto simp: after_def aborted_def intro: runs_aborted)

lemma afterD: "after P w0 w w' \<Longrightarrow> runs P w0 w' \<and> quiet w w'"
  by (simp add: after_def)

text \<open>
  One rule per transaction: from a run that is sound so far, both ends of the transaction are
  further along the same run.
\<close>

lemma run_transaction:
  assumes "runs P w0 w" "sound w0" "\<And>e w'. after P w0 w w' \<Longrightarrow> E e w'"
    "open_tx w = None \<Longrightarrow> (\<And>e w'. aborted w e w' \<Longrightarrow> E e w') \<Longrightarrow> wp (thn begin_immediate p) Q E w"
  shows "wp (thn begin_immediate p) Q E w"
proof (cases "open_tx w = None")
  case True
  have "E e w'" if "aborted w e w'" for e w'
    using after_aborted[OF assms(1,2) that] by (rule assms(3))
  with True show ?thesis by (rule assms(4))
next
  case False
  then show ?thesis by (rule wp_open) (simp add: assms(1,3) after_def)
qed

lemma run_renew_lease:
  assumes "runs P w0 w" "sound w0" "\<And>e w'. after P w0 w w' \<Longrightarrow> E e w'"
    "\<And>w'. after P w0 w w' \<Longrightarrow> Q LeaseLost w'"
    "\<And>t w'. after P w0 w w' \<Longrightarrow> owned w jid aid token generation \<Longrightarrow>
       update_attempt aid (with_lease t) (seen w) = Inr (durable w') \<Longrightarrow> Q (LeaseRenewed t) w'"
  shows "wp (renew_lease jid aid token generation lease) Q E w"
  using assms(1-3) unfolding renew_lease_def
proof (rule run_transaction, fold renew_lease_def)
  assume closed: "open_tx w = None" "\<And>e w'. aborted w e w' \<Longrightarrow> E e w'"
  show "wp (renew_lease jid aid token generation lease) Q E w"
    by (rule wp_renew_lease[OF closed(1)])
      (auto intro!: closed(2) assms(4) intro: after_settled[OF assms(1,2)] renew_steps
        intro!: assms(5) simp: settled_def)
qed

lemma sound_seen: "sound w0 \<Longrightarrow> runs P w0 w \<Longrightarrow> db_ok (seen w) \<and> db_steps (durable w0) (seen w)"
  by (metis progress_def runs_progress rtranclp_trans seen_ok seen_steps sound_def sound_runs)

lemma known_seen:
  "known_attempt (durable w0) jid aid n \<Longrightarrow> sound w0 \<Longrightarrow> runs P w0 w \<Longrightarrow> known_attempt (seen w) jid aid n"
  using sound_seen known_attempt_steps sound_def by blast

lemma run_claim_expired_attempt:
  assumes "runs P w0 w" "sound w0" "\<And>e w'. after P w0 w w' \<Longrightarrow> E e w'"
    "\<And>w'. after P w0 w w' \<Longrightarrow> Q ClaimRejected w'"
    "\<And>j a t w'. after P w0 w w' \<Longrightarrow> select_job (seen w) jid = Some j \<Longrightarrow>
       select_attempt (seen w) aid = Some a \<Longrightarrow>
       Q (ClaimSucceeded j (with_claim new_token (fencing_generation a + 1) t a)) w'"
  shows "wp (claim_expired_attempt jid aid token generation expires new_token lease) Q E w"
  using assms(1-3) unfolding claim_expired_attempt_def
proof (rule run_transaction, fold claim_expired_attempt_def)
  assume closed: "open_tx w = None" "\<And>e w'. aborted w e w' \<Longrightarrow> E e w'"
  show "wp (claim_expired_attempt jid aid token generation expires new_token lease) Q E w"
    by (rule wp_claim_expired_attempt[OF closed(1)])
      (auto intro!: closed(2) assms(4,5) intro: after_settled[OF assms(1,2)] claim_steps)
qed

lemma run_append_observation:
  assumes "runs P w0 w" "sound w0" "\<And>e w'. after P w0 w w' \<Longrightarrow> E e w'"
    "\<And>oid w'. after P w0 w w' \<Longrightarrow> Q oid w'"
  shows "wp (append_observation aid sid ordinal op generation cat cert status rid delay diag) Q E w"
  using assms(1-3) unfolding append_observation_def
proof (rule run_transaction, fold append_observation_def)
  assume closed: "open_tx w = None" "\<And>e w'. aborted w e w' \<Longrightarrow> E e w'"
  show "wp (append_observation aid sid ordinal op generation cat cert status rid delay diag) Q E w"
    by (rule wp_append_observation[OF closed(1)])
      (auto intro!: closed(2) assms(4) intro: after_settled[OF assms(1,2)] r_into_rtranclp[of db_step] step_observe)
qed

lemma run_append_late_observation:
  assumes "runs P w0 w" "sound w0" "\<And>e w'. after P w0 w w' \<Longrightarrow> E e w'"
    "\<And>oid w'. after P w0 w w' \<Longrightarrow> Q oid w'"
  shows "wp (append_late_observation aid generation cat op status rid delay diag) Q E w"
  using assms(1-3) unfolding append_late_observation_def
proof (rule run_transaction, fold append_late_observation_def)
  assume closed: "open_tx w = None" "\<And>e w'. aborted w e w' \<Longrightarrow> E e w'"
  show "wp (append_late_observation aid generation cat op status rid delay diag) Q E w"
    by (rule wp_append_late_observation[OF closed(1)])
      (auto intro!: closed(2) assms(4) intro: after_settled[OF assms(1,2)] r_into_rtranclp[of db_step] step_observe)
qed

lemma run_advance_gate:
  assumes "runs P w0 w" "sound w0" "\<And>e w'. after P w0 w w' \<Longrightarrow> E e w'" "\<And>w'. after P w0 w w' \<Longrightarrow> Q () w'"
  shows "wp (advance_gate_for_reconciliation_rate_limit delay) Q E w"
  using assms(1-3) unfolding advance_gate_for_reconciliation_rate_limit_def
proof (rule run_transaction, fold advance_gate_for_reconciliation_rate_limit_def)
  assume closed: "open_tx w = None" "\<And>e w'. aborted w e w' \<Longrightarrow> E e w'"
  show "wp (advance_gate_for_reconciliation_rate_limit delay) Q E w"
    by (rule wp_advance_gate[OF closed(1)])
      (auto intro!: closed(2) assms(4) intro: after_settled[OF assms(1,2)] gate_steps)
qed

lemma run_authorize_reconciliation_request:
  assumes "runs P w0 w" "sound w0" "\<And>e w'. after P w0 w w' \<Longrightarrow> E e w'" "\<And>r w'. after P w0 w w' \<Longrightarrow> Q r w'"
  shows "wp (authorize_reconciliation_request jid aid token generation lease earliest) Q E w"
  using assms(1-3) unfolding authorize_reconciliation_request_def
proof (rule run_transaction, fold authorize_reconciliation_request_def)
  assume closed: "open_tx w = None" "\<And>e w'. aborted w e w' \<Longrightarrow> E e w'"
  show "wp (authorize_reconciliation_request jid aid token generation lease earliest) Q E w"
    by (rule wp_authorize_reconciliation_request[OF closed(1)])
      (auto intro!: closed(2) assms(4) intro: after_settled[OF assms(1,2)] renew_steps)
qed

text \<open>The durable row of an attempt of the Job \<open>jid\<close>, exactly as reported.\<close>

definition recorded :: "database \<Rightarrow> string \<Rightarrow> attempt_row \<Rightarrow> bool" where
  "recorded d jid a \<longleftrightarrow> a \<in> set (submission_attempts d) \<and> attempt_job_id a = jid"

lemma recorded_update:
  assumes "update_attempt aid g d1 = Inr d2" "update_job jid f d2 = Inr d'"
    "submission_attempts d1 = submission_attempts d" "select_attempt d aid = Some a"
    "attempt_job_id (g a) = attempt_job_id a" "attempt_job_id a = jid"
  shows "recorded d' jid (g a)"
  using select_attemptD[OF assms(4)] assms(3,5,6)
  by (auto simp: recorded_def update_jobD(1)[OF assms(2)] update_attemptD(1)[OF assms(1)])

lemma active_job: "active d jid aid j a \<Longrightarrow> attempt_job_id a = jid"
  by (simp add: active_def)

lemma change_job [simp]:
  "attempt_job_id (record_change disp now status rid a) = attempt_job_id a"
  "attempt_job_id (late_change row now delay a) = attempt_job_id a"
  "attempt_job_id (final_change ev now delay a) = attempt_job_id a"
  by (simp_all add: record_change_def late_change_def final_change_def split: record_disposition.split
      submission_disposition.split)

lemma run_record_reconciliation_result:
  assumes "runs P w0 w" "sound w0" "\<And>e w'. after P w0 w w' \<Longrightarrow> E e w'"
    and known: "known_attempt (durable w0) jid aid n"
    and disp: "disp = R_matched \<Longrightarrow> status \<in> {Some 200, Some 201} \<and> rid \<noteq> None"
    and "\<And>w'. after P w0 w w' \<Longrightarrow> Q ReconciliationPostFailure w'"
    "\<And>j a now w'. after P w0 w w' \<Longrightarrow> select_job (seen w) jid = Some j \<Longrightarrow>
       select_attempt (seen w) aid = Some a \<Longrightarrow>
       recorded (durable w') jid (record_change disp now status rid a) \<Longrightarrow>
       Q (ReconciliationFinalized (with_job_state (record_state disp) now j)
           (record_change disp now status rid a)) w'"
  shows "wp (record_reconciliation_result jid aid token generation disp status rid) Q E w"
  using assms(1-3) unfolding record_reconciliation_result_def
proof (rule run_transaction, fold record_reconciliation_result_def)
  assume closed: "open_tx w = None" "\<And>e w'. aborted w e w' \<Longrightarrow> E e w'"
  show "wp (record_reconciliation_result jid aid token generation disp status rid) Q E w"
  proof (rule wp_record_reconciliation_result[OF closed(1)])
    fix w' assume "settled w (seen w) w'"
    then show "Q ReconciliationPostFailure w'" using assms(1,2) by (auto intro: assms(6) after_settled)
  next
    fix j a d1 d' w'
    assume *: "owned w jid aid token generation" "select_job (seen w) jid = Some j"
      "select_attempt (seen w) aid = Some a"
      "update_attempt aid (record_change disp (now_text w) status rid) (seen w) = Inr d1"
      "update_job jid (with_job_state (record_state disp) (now_text w)) d1 = Inr d'" "settled w d' w'"
    note act = owned_active(1)[OF *(1) known_seen[OF known assms(2,1)] *(2,3)]
    have "db_steps (seen w) d'" using act disp *(4,5) by (rule record_steps)
    with *(6) assms(1,2) have "after P w0 w w'" by (blast intro: after_settled)
    moreover have "recorded d' jid (record_change disp (now_text w) status rid a)"
      by (rule recorded_update[OF *(4,5) refl *(3)]) (simp_all add: active_job[OF act])
    ultimately show "Q (ReconciliationFinalized (with_job_state (record_state disp) (now_text w) j)
        (record_change disp (now_text w) status rid a)) w'"
      using *(2,3,6) by (intro assms(7)) (simp_all add: settled_def)
  qed (rule closed(2))
qed

lemma run_consume_late_observations:
  assumes "runs P w0 w" "sound w0" "\<And>e w'. after P w0 w w' \<Longrightarrow> E e w'"
    and known: "known_attempt (durable w0) jid aid n"
    and "\<And>w'. after P w0 w w' \<Longrightarrow> Q LatePostFailure w'" "\<And>w'. after P w0 w w' \<Longrightarrow> Q NoActionableLateEvidence w'"
    "\<And>j a row now delay w'. after P w0 w w' \<Longrightarrow> select_job (seen w) jid = Some j \<Longrightarrow>
       select_attempt (seen w) aid = Some a \<Longrightarrow> actionable_row row \<Longrightarrow>
       recorded (durable w') jid (late_change row now delay a) \<Longrightarrow>
       Q (LateEvidenceConsumed (with_job_state (late_state row (attempt_number a)) now j)
           (late_change row now delay a)) w'"
  shows "wp (consume_late_observations jid aid token generation) Q E w"
  using assms(1-3) unfolding consume_late_observations_def
proof (rule run_transaction, fold consume_late_observations_def)
  assume closed: "open_tx w = None" "\<And>e w'. aborted w e w' \<Longrightarrow> E e w'"
  show "wp (consume_late_observations jid aid token generation) Q E w"
  proof (rule wp_consume_late_observations[OF closed(1)])
    fix w' assume "settled w (seen w) w'"
    then have "after P w0 w w'" using assms(1,2) by (auto intro: after_settled)
    then show "Q LatePostFailure w'" "Q NoActionableLateEvidence w'" by (auto intro: assms(5,6))
  next
    fix j a row delay d2 d' w'
    assume *: "owned w jid aid token generation" "select_job (seen w) jid = Some j"
      "select_attempt (seen w) aid = Some a"
      "find_first actionable_row (unconsumed_late_rows (seen w) aid) = Some row"
      "update_attempt aid (late_change row (now_text w) delay)
         (late_gate w row delay
           (update_observation (observation_id row) (with_consumed (now_text w)) (seen w))) = Inr d2"
      "update_job jid (with_job_state (late_state row (attempt_number a)) (now_text w)) d2 = Inr d'"
      "settled w d' w'"
    note act = owned_active(1)[OF *(1) known_seen[OF known assms(2,1)] *(2,3)]
    have "db_steps (seen w) d'" using act *(4-6) by (rule late_steps)
    with *(7) assms(1,2) have "after P w0 w w'" by (blast intro: after_settled)
    moreover have "recorded d' jid (late_change row (now_text w) delay a)"
      by (rule recorded_update[OF *(5,6) _ *(3)])
        (simp_all add: active_job[OF act] late_gate_def update_observation_def)
    ultimately show "Q (LateEvidenceConsumed (with_job_state (late_state row (attempt_number a)) (now_text w) j)
        (late_change row (now_text w) delay a)) w'"
      using *(2,3,7) late_row(5)[OF *(4)] by (intro assms(7)) (simp_all add: settled_def)
  qed (rule closed(2))
qed

lemma run_finalize_submission_attempt:
  assumes "runs P w0 w" "sound w0" "\<And>e w'. after P w0 w w' \<Longrightarrow> E e w'"
    and known: "known_attempt (durable w0) jid aid n" and ev: "evidence_ok ev"
    and "\<And>w'. after P w0 w w' \<Longrightarrow> Q PostSideEffectFailure w'"
    "\<And>j a now delay w'. after P w0 w w' \<Longrightarrow> select_job (seen w) jid = Some j \<Longrightarrow>
       select_attempt (seen w) aid = Some a \<Longrightarrow>
       recorded (durable w') jid (final_change ev now delay a) \<Longrightarrow> Q (final_result ev n now delay j a) w'"
  shows "wp (finalize_submission_attempt jid aid n token generation ev) Q E w"
  using assms(1-3) unfolding finalize_submission_attempt_def
proof (rule run_transaction, fold finalize_submission_attempt_def)
  assume closed: "open_tx w = None" "\<And>e w'. aborted w e w' \<Longrightarrow> E e w'"
  show "wp (finalize_submission_attempt jid aid n token generation ev) Q E w"
  proof (rule wp_finalize_submission_attempt[OF closed(1)])
    fix w' assume "settled w (seen w) w'"
    then show "Q PostSideEffectFailure w'" using assms(1,2) by (auto intro: assms(6) after_settled)
  next
    fix j a parsed delay rdelay diag cat rid r d1 d2 d' w'
    assume *: "owned w jid aid token generation" "select_job (seen w) jid = Some j"
      "select_attempt (seen w) aid = Some a" "disposition ev \<noteq> Retained"
      "insert_observation_row r (final_gate w ev delay (seen w)) = Inr d1"
      "update_attempt aid (final_change ev (now_text w) delay) d1 = Inr d2"
      "update_job jid (with_job_state (final_state ev n) (now_text w)) d2 = Inr d'"
      "settled w d' w'"
    note act = owned_active[OF *(1) known_seen[OF known assms(2,1)] *(2,3)]
    then have "db_steps (seen w) d'" using *(4-7) ev by (intro finalize_steps) auto
    with *(8) assms(1,2) have "after P w0 w w'" by (blast intro: after_settled)
    moreover have "recorded d' jid (final_change ev (now_text w) delay a)"
      by (rule recorded_update[OF *(6,7) _ *(3)])
        (simp_all add: active_job[OF act(1)] insert_observation_rowD(1)[OF *(5)] final_gate_def)
    ultimately show "Q (final_result ev n (now_text w) delay j a) w'"
      using *(2,3,8) by (intro assms(7)) (simp_all add: settled_def)
  next
    fix j a r d' w'
    assume own: "owned w jid aid token generation" and *: "select_job (seen w) jid = Some j"
      "select_attempt (seen w) aid = Some a"
      "disposition ev = Retained" "insert_observation_row r (seen w) = Inr d'" "settled w d' w'"
    then have "db_steps (seen w) d'" by (auto intro: step_observe)
    with *(5) assms(1,2) have "after P w0 w w'" by (blast intro: after_settled)
    moreover have "recorded d' jid (final_change ev [] 0 a)"
      using active_job[OF owned_active(1)[OF own known_seen[OF known assms(2,1)] *(1,2)]] select_attemptD[OF *(2)]
      by (simp add: recorded_def insert_observation_rowD(1)[OF *(4)] final_change_def *(3))
    ultimately have "Q (final_result ev n [] 0 j a) w'"
      using *(1,2,5) by (intro assms(7)) (simp_all add: settled_def)
    then show "Q (SubmissionRetained j a) w'" using *(3) by (simp add: final_result_def)
  qed (rule closed(2))
qed

section \<open>Admission in a run\<close>

lemma authorization_ready:
  assumes "authorization now expires d j number token eligible (ReadyToSubmit j' a t) d'" "db_ok d'"
    "select_job d (job_id j) = Some j"
  shows "t = token" "select_job d' (job_id j) = Some j'" "select_attempt d' (attempt_id a) = Some a"
    "attempt_job_id a = job_id j" "astate a = A_STARTED" "owner_token a = Some token"
    "attempt_number a = number" "j' = with_job_state SUBMITTING now j"
proof -
  from assms(1) obtain aid d1 where
    *: "t = token" "j' = with_job_state SUBMITTING now j" "a = new_attempt aid (job_id j) number now token expires"
      "insert_attempt_row a d = Inr d1" "update_job (job_id j) (with_job_state SUBMITTING now) d1 = Inr d'"
    by (auto elim: authorizationE)
  note d1 = insert_attempt_rowD(1)[OF *(4)] and d' = update_jobD(1)[OF *(5)]
  have "j \<in> set (jobs d1)" using select_jobD[OF assms(3)] by (simp add: d1)
  then have "j' \<in> set (jobs d')" using *(2) by (auto simp: d')
  then show "select_job d' (job_id j) = Some j'"
    using *(2) by (simp add: select_job_iff[OF db_okD(2)[OF assms(2)]])
  have "a \<in> set (submission_attempts d')" by (simp add: d' d1)
  then show "select_attempt d' (attempt_id a) = Some a"
    by (simp add: select_attempt_iff[OF db_okD(2)[OF assms(2)]])
qed (use assms(1) in \<open>auto elim: authorizationE\<close>)

text \<open>What an authorized attempt looks like in the database the transaction left.\<close>

definition authorized_attempt ::
  "database \<Rightarrow> string \<Rightarrow> payload \<Rightarrow> string \<Rightarrow> job_row \<Rightarrow> attempt_row \<Rightarrow> bool" where
  "authorized_attempt d key bytes token j a \<longleftrightarrow>
     select_job d (job_id j) = Some j \<and> select_attempt d (attempt_id a) = Some a
     \<and> idempotency_key j = key \<and> payload_canonical j = bytes \<and> jstate j = SUBMITTING
     \<and> attempt_job_id a = job_id j \<and> astate a = A_STARTED \<and> owner_token a = Some token"

lemma admission_ready:
  assumes "admission now expires supplied key bytes token d (ReadyToSubmit j a t) d'" "db_ok d"
  shows "authorized_attempt d' key bytes token j a"
proof -
  have ok': "db_ok d'" using admission_steps[OF assms] assms(2) by (rule db_steps_ok)
  from assms(1) show ?thesis
  proof (cases rule: admission.cases)
    case (admission_created jid d1)
    have "db_ok d1" using db_step_ok[OF step_create[OF admission_created(2)] assms(2)] .
    then have "select_job d1 jid = Some (new_job jid key bytes now)"
      using insert_job_rowD(1)[OF admission_created(2)] by (simp add: select_job_iff db_okD(2))
    then show ?thesis
      using authorization_ready[OF admission_created(3) ok'] by (simp add: authorized_attempt_def)
  next
    case (admission_existing j0)
    have j0: "select_job d (job_id j0) = Some j0" "idempotency_key j0 = key"
      using find_job_by_keyD[OF admission_existing(2)] db_okD(2)[OF assms(2)]
      by (simp_all add: select_job_iff)
    from admission_existing(4) obtain number eligible where
      "authorization now expires d j0 number token eligible (ReadyToSubmit j a t) d'"
      by (auto elim: routingE)
    from authorization_ready[OF this ok' j0(1)] j0(2) admission_existing(3) show ?thesis
      by (simp add: authorized_attempt_def)
  qed
qed

lemma authorized_known:
  "authorized_attempt d key bytes token j a \<Longrightarrow>
     known_attempt d (job_id j) (attempt_id a) (attempt_number a)"
  by (simp add: authorized_attempt_def known_attempt_def)

lemma latest_in: "latest_of as = Some l \<Longrightarrow> l \<in> set as"
  by (induction as arbitrary: l) (auto split: option.splits if_splits)

lemma select_latest_known:
  assumes "select_latest_attempt d jid = Some l" "db_ok d"
  shows "select_attempt d (attempt_id l) = Some l" "attempt_job_id l = jid"
  using latest_in[of "attempts_of d jid" l] assms db_okD(2)[OF assms(2)]
  by (simp_all add: select_latest_attempt_def attempts_of_job select_attempt_iff)

lemma admission_recovery:
  assumes "admission now expires supplied key bytes token d (RecoveryCandidate j a) d'" "db_ok d"
  shows "d' = d" "select_job d (job_id j) = Some j" "select_attempt d (attempt_id a) = Some a"
    "attempt_job_id a = job_id j" "idempotency_key j = key" "payload_canonical j = bytes"
proof -
  from assms(1) obtain l where l: "find_job_by_key d key = Some j" "payload_canonical j = bytes"
    "select_latest_attempt d (job_id j) = Some a" "d' = d"
    by (auto elim!: admissionE routingE elim: authorizationE)
  then show "d' = d" "select_job d (job_id j) = Some j" "select_attempt d (attempt_id a) = Some a"
    "attempt_job_id a = job_id j" "idempotency_key j = key" "payload_canonical j = bytes"
    using find_job_by_keyD[OF l(1)] select_latest_known[OF l(3) assms(2)] db_okD(2)[OF assms(2)]
    by (auto simp: select_job_iff)
qed

lemma run_pre_side_effect:
  assumes "runs P w0 w" "sound w0" "\<And>e w'. after P w0 w w' \<Longrightarrow> E e w'"
    "\<And>w1 now expires key r w'. after P w0 w w' \<Longrightarrow> open_tx w' = None \<Longrightarrow> (supplied \<noteq> None \<Longrightarrow> supplied = Some key) \<Longrightarrow>
       db_ok (seen w1) \<Longrightarrow> db_steps (durable w) (seen w1) \<Longrightarrow>
       admission now expires supplied key bytes token (seen w1) r (durable w') \<Longrightarrow> Q r w'"
  shows "wp (run_pre_side_effect_transaction n supplied bytes token lease) Q E w"
proof (cases "open_tx w = None")
  case True
  have sound: "sound w" using sound_runs[OF assms(2,1)] .
  have idle: "after P w0 w w1 \<and> sound w1 \<and> progress w w1" if "idle w w1" for w1
  proof -
    have p: "progress w w1" using idle_progress[OF that sound] .
    then have "runs P w w1" using idle_quiet[OF that] by (rule runs_quiet)
    then show ?thesis
      using p sound_progress[OF sound p] idle_quiet[OF that] runs_trans[OF assms(1)]
      by (auto simp: after_def)
  qed
  have start: "idle w w" by (rule idle_refl) (simp_all add: True)
  show ?thesis
  proof (rule wp_run_pre_side_effect_transaction[OF start])
    fix w1 key r d' w'
    assume w1: "idle w w1" and key: "supplied \<noteq> None \<Longrightarrow> supplied = Some key"
      and adm: "admission (now_text w1) (start_lease w1 lease) supplied key bytes token (seen w1) r d'" and set: "settled w1 d' w'"
    note i = idle[OF w1]
    have ok: "db_ok (seen w1)" "db_steps (durable w1) (seen w1)"
      using i seen_ok seen_steps by (auto simp: sound_def)
    have "after P w1 w1 w'"
      using i by (intro after_settled[OF _ _ set admission_steps[OF adm ok(1)]]) auto
    then have "after P w0 w w'" using i by (auto simp: after_def intro: runs_trans quiet_trans)
    moreover have "db_steps (durable w) (seen w1)" using i ok(2) by (auto simp: progress_def)
    ultimately show "Q r w'"
      using key ok(1) adm set by (intro assms(4)) (auto simp: settled_def)
  next
    fix w1 e w' assume w1: "idle w w1" and ab: "aborted w1 e w'"
    note i = idle[OF w1]
    have "after P w1 w1 w'" using i by (intro after_aborted[OF _ _ ab]) auto
    then show "E e w'" using i by (intro assms(3)) (auto simp: after_def intro: runs_trans quiet_trans)
  next
    fix w' assume "idle w w'"
    then show "E Out_of_fuel w'" using idle by (intro assms(3)) auto
  qed
next
  case False
  then show ?thesis
    using assms(1,3)
    by (cases n; cases supplied)
      (auto simp: wp_raise wp_bind wp_ret wp_sources after_def intro!: wp_open)
qed

end
