(* ===== verification/Invocation.thy ===== *)
theory Invocation
  imports Workflow
begin

text \<open>
  The reconciliation sequence, the recovery, the dispatch and the submission loop as runs: the
  rules of \<open>Workflow\<close> composed the way \<open>application/\<close> composes the transactions.
\<close>

section \<open>What may escape, and what comes back\<close>

text \<open>
  The exceptions that leave the workflow: cancellation, the fuel of the model, and the
  \<open>ValueError\<close> of a timestamp or of an oversized \<open>Retry-After\<close>.
\<close>

definition escapes :: "exn \<Rightarrow> bool" where
  "escapes e \<longleftrightarrow> \<not> is_exception e \<or> e = ValueError"

definition ended_attempt :: "attempt_row \<Rightarrow> bool" where
  "ended_attempt a \<longleftrightarrow>
     astate a \<in> {A_SUCCEEDED, A_PERMANENT_FAILURE, A_RETRYABLE_FAILURE, A_AMBIGUOUS}
     \<and> (astate a = A_SUCCEEDED \<longrightarrow> success_evidence_ok a)"

definition recon_ok :: "database \<Rightarrow> string \<Rightarrow> int \<Rightarrow> reconciliation_outcome \<Rightarrow> bool" where
  "recon_ok d jid count out \<longleftrightarrow>
     job_id (rec_job out) = jid \<and> request_count out = count
     \<and> (persistence_failed out \<or> ownership_lost out
        \<or> ended_attempt (rec_attempt out) \<and> recorded d jid (rec_attempt out))"

definition outcomes_ok :: "env \<Rightarrow> bool" where
  "outcomes_ok e \<longleftrightarrow>
     (\<forall>n out. post_at e n = Inr out \<longrightarrow> submit_outcome_ok out)
     \<and> (\<forall>n out. get_at e n = Inr out \<longrightarrow> reconcile_outcome_ok out)"

definition harmless :: "(event \<Rightarrow> bool) \<Rightarrow> bool" where
  "harmless P \<longleftrightarrow> (\<forall>k. P (Got k)) \<and> (\<forall>n. P (Slept n))"

lemma reconciled_sel [simp]:
  "rec_job (reconciled j a c) = j" "rec_attempt (reconciled j a c) = a"
  "request_count (reconciled j a c) = c" "ownership_lost (reconciled j a c) = False"
  "persistence_failed (reconciled j a c) = False"
  "rec_job (lost_ownership j a c) = j" "request_count (lost_ownership j a c) = c"
  "ownership_lost (lost_ownership j a c)" "rec_job (failed_persistence j a c) = j"
  "request_count (failed_persistence j a c) = c" "persistence_failed (failed_persistence j a c)"
  by (simp_all add: reconciled_def lost_ownership_def failed_persistence_def)

lemma recon_ok_simps [simp]:
  "recon_ok d jid c (lost_ownership j a c) = (job_id j = jid)"
  "recon_ok d jid c (failed_persistence j a c) = (job_id j = jid)"
  "recon_ok d jid c (reconciled j a c) = (job_id j = jid \<and> ended_attempt a \<and> recorded d jid a)"
  by (auto simp: recon_ok_def)

lemma late_ended: "actionable_row row \<Longrightarrow> ended_attempt (late_change row now delay a)"
  by (auto simp: ended_attempt_def late_change_def success_evidence_ok_def actionable_row_def
      is_actionable_late_evidence_def)

lemma record_ended:
  "(disp = R_matched \<Longrightarrow> status \<in> {Some 200, Some 201} \<and> rid \<noteq> None) \<Longrightarrow>
     ended_attempt (record_change disp now status rid a)"
  by (cases disp) (auto simp: ended_attempt_def record_change_def success_evidence_ok_def)

lemma select_job_id: "select_job d jid = Some j \<Longrightarrow> job_id j = jid"
  using select_jobD by blast

section \<open>Late evidence and the final record\<close>

lemma run_try_consume:
  assumes "runs P w0 w" "sound w0" "known_attempt (durable w0) (job_id j) (attempt_id a) n"
    "\<And>e w'. after P w0 w w' \<Longrightarrow> escapes e \<Longrightarrow> E e w'" "\<And>w'. after P w0 w w' \<Longrightarrow> Q None w'"
    "\<And>out w'. after P w0 w w' \<Longrightarrow> recon_ok (durable w') (job_id j) count out \<Longrightarrow> Q (Some out) w'"
  shows "wp (try_consume_late_evidence j a token generation count) Q E w"
  unfolding try_consume_late_evidence_def wp_bind wp_catching
  by (rule run_consume_late_observations[OF assms(1,2) _ assms(3)])
    (auto simp: wp_ret escapes_def late_ended select_job_id intro!: assms(4-6))

lemma run_record_and_report:
  assumes "runs P w0 w" "sound w0" "known_attempt (durable w0) (job_id j) (attempt_id a) n"
    "disp = R_matched \<Longrightarrow> status \<in> {Some 200, Some 201} \<and> rid \<noteq> None"
    "\<And>e w'. after P w0 w w' \<Longrightarrow> escapes e \<Longrightarrow> E e w'"
    "\<And>out w'. after P w0 w w' \<Longrightarrow> recon_ok (durable w') (job_id j) count out \<Longrightarrow> Q out w'"
  shows "wp (record_and_report j a token generation disp count status rid) Q E w"
proof -
  have late: "wp (thn (catching (append_late_observation (attempt_id a) generation
        (late_category_of disp) RECONCILIATION status rid None None))
      (ret (lost_ownership j a count))) Q E w1" if "after P w0 w w1" for w1
  proof -
    have "Q (lost_ownership j a count) w2" if "after P w0 w1 w2" for w2
      using that \<open>after P w0 w w1\<close>
      by (intro assms(6)) (auto simp: after_def intro: quiet_trans)
    moreover have "E e w2" if "after P w0 w1 w2" "\<not> is_exception e" for e w2
      using that \<open>after P w0 w w1\<close>
      by (intro assms(5)) (auto simp: after_def escapes_def intro: quiet_trans)
    moreover have "runs P w0 w1" using that by (simp add: after_def)
    ultimately show ?thesis
      unfolding wp_thn wp_catching
      by (intro run_append_late_observation[OF _ assms(2)]) (auto simp: wp_ret)
  qed
  show ?thesis
    unfolding record_and_report_def wp_bind wp_catching
    by (rule run_record_reconciliation_result[OF assms(1,2) _ assms(3,4)])
      (auto simp: wp_ret escapes_def record_ended[OF assms(4)] select_job_id
        intro!: assms(5,6) late)
qed

lemma run_finalize_reconciliation:
  assumes "runs P w0 w" "sound w0" "known_attempt (durable w0) (job_id j) (attempt_id a) n"
    "disp = R_matched \<Longrightarrow> status \<in> {Some 200, Some 201} \<and> rid \<noteq> None"
    "\<And>e w'. after P w0 w w' \<Longrightarrow> escapes e \<Longrightarrow> E e w'"
    "\<And>out w'. after P w0 w w' \<Longrightarrow> recon_ok (durable w') (job_id j) count out \<Longrightarrow> Q out w'"
  shows "wp (finalize_reconciliation j a token generation disp count status rid) Q E w"
proof -
  have rep: "wp (record_and_report j a token generation disp count status rid) Q E w1"
    if "after P w0 w w1" for w1
    using that
    by (intro run_record_and_report[OF _ assms(2-4)])
      (auto simp: after_def intro: quiet_trans intro!: assms(5,6))
  have "after P w0 w w" using assms(1) by (simp add: after_def)
  note this_rep = rep[OF this]
  show ?thesis
  proof (cases "disp = R_inconclusive")
    case True
    then show ?thesis
      unfolding finalize_reconciliation_def
      by (simp add: wp_bind)
        (rule run_try_consume[OF assms(1-3)]; auto simp: wp_ret intro!: assms(5,6) rep[unfolded True])
  next
    case False
    with this_rep show ?thesis by (simp add: finalize_reconciliation_def)
  qed
qed

section \<open>Waiting\<close>

text \<open>A stretch of a run without requests: it may sleep, within the budget, and renew leases.\<close>

definition waits :: "(event \<Rightarrow> bool) \<Rightarrow> world \<Rightarrow> world \<Rightarrow> world \<Rightarrow> bool" where
  "waits P w0 w w' \<longleftrightarrow>
     runs P w0 w' \<and> post_n w' = post_n w \<and> get_n w' = get_n w
     \<and> slept_us w \<le> slept_us w' \<and> slept_us w' \<le> max (slept_us w) CEILING_US"

lemma waits_after: "after P w0 w w' \<Longrightarrow> waits P w0 w w'"
  by (auto simp: waits_def after_def quiet_def)

lemma waits_trans: "waits P w0 w w1 \<Longrightarrow> waits P w0 w1 w2 \<Longrightarrow> waits P w0 w w2"
  by (auto simp: waits_def)

lemma waits_refl: "runs P w0 w \<Longrightarrow> waits P w0 w w"
  by (simp add: waits_def)

lemma waits_updates [simp]:
  "waits P w0 w (w1\<lparr>clock_n := k\<rparr>) = waits P w0 w w1"
  "waits P w0 w (w1\<lparr>rand_n := k\<rparr>) = waits P w0 w w1"
  "waits P w0 w (w1\<lparr>id_n := k\<rparr>) = waits P w0 w w1"
  by (simp_all add: waits_def)

lemma wp_delay_until:
  assumes "\<And>d k. 0 \<le> d \<Longrightarrow> Q d (w\<lparr>clock_n := k\<rparr>)" "E ValueError w"
  shows "wp (delay_until t) Q E w"
  using assms by (auto simp: delay_until_def parsed_timestamp_def wp_simps split: option.split)

lemma run_wait_if_it_fits:
  assumes "runs P w0 w" "harmless P"
    "\<And>w'. waits P w0 w w' \<Longrightarrow> open_tx w' = open_tx w \<Longrightarrow> E ValueError w'"
    "\<And>r w'. waits P w0 w w' \<Longrightarrow> open_tx w' = open_tx w \<Longrightarrow> Q r w'"
  shows "wp (wait_if_it_fits t) Q E w"
proof -
  have slept: "waits P w0 w (w1\<lparr>slept_us := slept_us w1 + d, trace := trace w1 @ [Slept d]\<rparr>)"
    if "waits P w0 w w1" "0 \<le> d" "d \<le> max 0 (CEILING_US - slept_us w1)" for w1 d
    using that assms(2) runs_sleep[of P w0 w1] by (auto simp: waits_def harmless_def)
  have now: "waits P w0 w (w\<lparr>clock_n := k\<rparr>)" for k using assms(1) by (simp add: waits_refl)
  show ?thesis
    unfolding wait_if_it_fits_def wp_bind
  proof (rule wp_delay_until)
    fix d k assume d: "0 \<le> (d::int)"
    let ?w = "w\<lparr>clock_n := k\<rparr>" and ?s = "w\<lparr>clock_n := k, slept_us := slept_us w + d, trace := trace w @ [Slept d]\<rparr>"
    have "Q False ?w" using now by (intro assms(4)) simp_all
    moreover have "Q True ?s" if "d \<le> max 0 (CEILING_US - slept_us w)"
      using slept[OF now d, of k] that by (intro assms(4)) simp_all
    ultimately show "wp remaining_us (\<lambda>r. wp (if r < d then ret False else thn (sleep d) (ret True)) Q E) E ?w"
      by (auto simp: wp_def[of remaining_us] remaining_us_def wp_if wp_ret wp_thn wp_sources
            le_max_iff_disj not_less)
  qed (use assms(3)[OF waits_refl[OF assms(1)]] in simp)
qed

lemma run_renewing_chunks:
  assumes "harmless P"
    "\<And>Q E w. runs P w0 w \<Longrightarrow> (\<And>e w'. after P w0 w w' \<Longrightarrow> escapes e \<Longrightarrow> E e w') \<Longrightarrow>
       (\<And>r w'. after P w0 w w' \<Longrightarrow> Q r w') \<Longrightarrow> wp renew Q E w"
    "waits P w0 w1 w" "remaining \<le> max 0 (CEILING_US - slept_us w)"
    "\<And>e w'. waits P w0 w1 w' \<Longrightarrow> escapes e \<Longrightarrow> E e w'" "\<And>r w'. waits P w0 w1 w' \<Longrightarrow> Q r w'"
  shows "wp (renewing_chunks remaining renew) Q E w"
  using assms(3,4)
proof (induction "nat remaining" arbitrary: remaining w rule: less_induct)
  case less
  show ?case
  proof (cases "remaining \<le> 0")
    case True
    with less.prems show ?thesis by (subst renewing_chunks.simps) (simp add: wp_ret assms(6))
  next
    case False
    define chunk where "chunk = min remaining RENEWAL_CADENCE_US"
    let ?w = "w\<lparr>slept_us := slept_us w + chunk, trace := trace w @ [Slept chunk]\<rparr>"
    have chunk: "0 < chunk" "chunk \<le> remaining" using False by (simp_all add: chunk_def RENEWAL_CADENCE_US_def)
    have w: "waits P w0 w1 ?w"
      using less.prems chunk assms(1) runs_sleep[of P w0 w] by (auto simp: waits_def harmless_def)
    have rest: "wp (renewing_chunks (remaining - chunk) renew) Q E w2" if w2: "after P w0 ?w w2" for w2
    proof (rule less.hyps)
      show "nat (remaining - chunk) < nat remaining" using chunk False by linarith
      show "waits P w0 w1 w2" using w waits_after[OF w2] by (rule waits_trans)
      show "remaining - chunk \<le> max 0 (CEILING_US - slept_us w2)"
        using less.prems(2) w2 False by (auto simp: after_def quiet_def)
    qed
    have "after P w0 ?w ?w" using w by (simp add: after_def waits_def)
    note straight = rest[OF this]
    have "wp (bind renew (\<lambda>renewed. if renewed then renewing_chunks (remaining - chunk) renew
        else ret Renewal_failed)) Q E ?w"
      unfolding wp_bind
      by (rule assms(2))
        (use w in \<open>auto simp: wp_ret waits_def[of P w0 w1 ?w] intro!: rest assms(5,6) intro: waits_trans[OF w] waits_after\<close>)
    with straight False show ?thesis
      by (subst renewing_chunks.simps)
        (simp add: Let_def chunk_def[symmetric] wp_thn wp_sources)
  qed
qed

lemma run_wait_while_renewing:
  assumes "runs P w0 w" "harmless P"
    "\<And>Q E w. runs P w0 w \<Longrightarrow> (\<And>e w'. after P w0 w w' \<Longrightarrow> escapes e \<Longrightarrow> E e w') \<Longrightarrow>
       (\<And>r w'. after P w0 w w' \<Longrightarrow> Q r w') \<Longrightarrow> wp renew Q E w"
    "\<And>e w'. waits P w0 w w' \<Longrightarrow> escapes e \<Longrightarrow> E e w'" "\<And>r w'. waits P w0 w w' \<Longrightarrow> Q r w'"
  shows "wp (wait_while_renewing_lease t renew) Q E w"
  unfolding wait_while_renewing_lease_def wp_bind
proof (rule wp_delay_until)
  fix d k assume d: "0 \<le> (d::int)"
  let ?w = "w\<lparr>clock_n := k\<rparr>"
  have w: "waits P w0 w ?w" using assms(1) by (simp add: waits_refl)
  have "wp (renewing_chunks d renew) Q E ?w" if "d \<le> max 0 (CEILING_US - slept_us w)"
    using that w by (intro run_renewing_chunks[OF assms(2,3)]) (auto intro: assms(4,5))
  with w show "wp remaining_us (\<lambda>r. wp (if r < d then ret Does_not_fit else renewing_chunks d renew) Q E) E ?w"
    by (auto simp: wp_def[of remaining_us] remaining_us_def wp_if wp_ret le_max_iff_disj not_less
        intro!: assms(5))
qed (rule assms(4), simp_all add: waits_refl assms(1) escapes_def)

lemma run_renewed_lease:
  assumes "runs P w0 w" "sound w0" "\<And>e w'. after P w0 w w' \<Longrightarrow> escapes e \<Longrightarrow> E e w'"
    "\<And>r w'. after P w0 w w' \<Longrightarrow> Q r w'"
  shows "wp (renewed_lease j a token generation) Q E w"
  unfolding renewed_lease_def wp_bind wp_catching
  by (rule run_renew_lease[OF assms(1,2)]) (auto simp: wp_ret escapes_def intro!: assms(3,4))

section \<open>The reconciliation sequence\<close>

lemma after_updates [simp]:
  "after P w0 w (w1\<lparr>clock_n := k\<rparr>) = after P w0 w w1"
  "after P w0 w (w1\<lparr>rand_n := k\<rparr>) = after P w0 w w1"
  "after P w0 w (w1\<lparr>id_n := k\<rparr>) = after P w0 w w1"
  "after P w0 (w\<lparr>clock_n := k\<rparr>) w1 = after P w0 w w1"
  "after P w0 (w\<lparr>rand_n := k\<rparr>) w1 = after P w0 w w1"
  "after P w0 (w\<lparr>id_n := k\<rparr>) w1 = after P w0 w w1"
  by (simp_all add: after_def) (simp_all add: quiet_def)

lemma after_trans: "after P w0 w w1 \<Longrightarrow> after P w0 w1 w2 \<Longrightarrow> after P w0 w w2"
  by (auto simp: after_def intro: quiet_trans)

lemma after_runs: "after P w0 w w1 \<Longrightarrow> runs P w0 w1"
  by (simp add: after_def)

lemma after_refl: "runs P w0 w \<Longrightarrow> after P w0 w w"
  by (simp add: after_def)

lemma matched_evidence:
  assumes "reconcile_outcome_ok out"
    "record_disposition_of (rdisposition (classify_reconciliation_outcome out)) = Some R_matched"
  shows "reconcile_http_status out \<in> {Some 200, Some 201} \<and> reconcile_remote_request_id out \<noteq> None"
  using assms by (cases out) (auto simp: record_disposition_of_def)

text \<open>The transactions whose failures are caught, as one rule each.\<close>

lemma run_catching_gate:
  assumes "runs P w0 w" "sound w0" "\<And>r w'. after P w0 w w' \<Longrightarrow> Q r w'"
    "\<And>e w'. after P w0 w w' \<Longrightarrow> escapes e \<Longrightarrow> E e w'"
  shows "wp (catching (advance_gate_for_reconciliation_rate_limit delay)) Q E w"
  unfolding wp_catching
  by (rule run_advance_gate[OF assms(1,2)]) (auto simp: escapes_def intro!: assms(3,4))

lemma run_catching_append:
  assumes "runs P w0 w" "sound w0" "\<And>r w'. after P w0 w w' \<Longrightarrow> Q r w'"
    "\<And>e w'. after P w0 w w' \<Longrightarrow> escapes e \<Longrightarrow> E e w'"
  shows "wp (catching (append_observation aid sid ordinal op generation cat cert status rid delay diag)) Q E w"
  unfolding wp_catching
  by (rule run_append_observation[OF assms(1,2)]) (auto simp: escapes_def intro!: assms(3,4))

lemma run_catching_authorize:
  assumes "runs P w0 w" "sound w0" "\<And>r w'. after P w0 w w' \<Longrightarrow> Q r w'"
    "\<And>e w'. after P w0 w w' \<Longrightarrow> escapes e \<Longrightarrow> E e w'"
  shows "wp (catching (authorize_reconciliation_request jid aid token generation lease earliest)) Q E w"
  unfolding wp_catching
  by (rule run_authorize_reconciliation_request[OF assms(1,2)])
    (auto simp: escapes_def intro!: assms(3,4))

text \<open>The decision after an observation that settled nothing.\<close>

lemma run_after_retryable:
  assumes "after P w0 w w1" "sound w0" "known_attempt (durable w0) (job_id j) (attempt_id a) n"
    "\<And>e w'. after P w0 w w' \<Longrightarrow> escapes e \<Longrightarrow> E e w'"
    "\<And>out w'. after P w0 w w' \<Longrightarrow> recon_ok (durable w') (job_id j) count out \<Longrightarrow> Q (Inl out) w'"
    "\<And>t w'. after P w0 w w' \<Longrightarrow> count < 3 \<Longrightarrow> Q (Inr t) w'"
  shows "wp (after_retryable j a token generation count limited server_ms) Q E w1"
proof -
  let ?rest = "\<lambda>policy_ms (advanced :: exn + unit). case advanced of
       Inl _ \<Rightarrow> ret (Inl (failed_persistence j a count))
     | Inr _ \<Rightarrow>
         if count \<ge> MAX_RECONCILIATION_REQUESTS
         then bind (finalize_reconciliation j a token generation R_inconclusive
                count None None) (\<lambda>outcome. ret (Inl outcome))
         else bind clock_now (\<lambda>t.
           ret (Inr (format_timestamp
             (add_milliseconds t (effective_delay_ms policy_ms server_ms)))))"
  let ?gate = "\<lambda>policy_ms. if limited
           then catching (advance_gate_for_reconciliation_rate_limit
                  (effective_delay_ms policy_ms server_ms))
           else ret (Inr ())"
  have final: "wp (bind (finalize_reconciliation j a token generation R_inconclusive count None None)
      (\<lambda>outcome. ret (Inl outcome))) Q E w2" if "after P w0 w w2" for w2
    unfolding wp_bind
    by (rule run_finalize_reconciliation[OF after_runs[OF that] assms(2,3)])
      (auto simp: wp_ret intro!: assms(4,5) intro: after_trans[OF that])
  have rest: "wp (?rest policy_ms advanced) Q E w2" if "after P w0 w w2" for policy_ms advanced w2
    using that final[OF that]
    by (cases advanced)
      (auto simp: wp_ret wp_bind wp_sources MAX_RECONCILIATION_REQUESTS_def intro!: assms(5,6))
  have gate: "wp (bind (?gate policy_ms) (?rest policy_ms)) Q E w2" if "after P w0 w w2" for policy_ms w2
  proof (cases limited)
    case True
    show ?thesis
      unfolding wp_bind if_P[OF True]
      by (rule run_catching_gate[OF after_runs[OF that] assms(2)])
        (use after_trans[OF that] rest assms(4) in blast)+
  next
    case False
    show ?thesis unfolding wp_bind if_not_P[OF False] wp_ret by (rule rest[OF that])
  qed
  have "after P w0 w (w1\<lparr>rand_n := Suc (rand_n w1)\<rparr>)" using assms(1) by simp
  note gate[OF this]
  then show ?thesis by (simp only: after_retryable_def wp_bind[of "draw_policy_delay _"] wp_sources)
qed

lemma run_observe_reconciliation:
  assumes "runs P w0 w" "sound w0" "known_attempt (durable w0) (job_id j) (attempt_id a) n"
    "reconcile_outcome_ok http"
    "\<And>e w'. after P w0 w w' \<Longrightarrow> escapes e \<Longrightarrow> E e w'"
    "\<And>out w'. after P w0 w w' \<Longrightarrow> recon_ok (durable w') (job_id j) count out \<Longrightarrow> Q (Inl out) w'"
    "\<And>t w'. after P w0 w w' \<Longrightarrow> count < 3 \<Longrightarrow> Q (Inr t) w'"
  shows "wp (observe_reconciliation j a token generation seq_id count http) Q E w"
proof -
  let ?ev = "classify_reconciliation_outcome http"
  let ?status = "reconcile_http_status http" and ?rid = "reconcile_remote_request_id http"
  have final: "wp (bind (finalize_reconciliation j a token generation disp count ?status ?rid)
      (\<lambda>outcome. ret (Inl outcome))) Q E w2"
    if w2: "after P w0 w w2" and disp: "record_disposition_of (rdisposition ?ev) = Some disp" for disp w2
  proof -
    have "disp = R_matched \<Longrightarrow> ?status \<in> {Some 200, Some 201} \<and> ?rid \<noteq> None"
      using matched_evidence[OF assms(4)] disp by simp
    then show ?thesis
      unfolding wp_bind
      by (intro run_finalize_reconciliation[OF after_runs[OF w2] assms(2,3)])
        (auto simp: wp_ret intro!: assms(5,6) intro: after_trans[OF w2])
  qed
  have rest: "wp (record_observation j a token generation seq_id count http parsed) Q E w1"
    if w1: "after P w0 w w1" for parsed w1
    unfolding record_observation_def Let_def wp_bind[of "catching _"]
    by (rule run_catching_append[OF after_runs[OF w1] assms(2)])
      (auto simp: wp_ret split: sum.split option.split intro!: assms(5,6) final
        run_after_retryable[OF _ assms(2,3)] intro: assms(7) after_trans[OF w1])
  have now: "after P w0 w (w\<lparr>clock_n := k\<rparr>)" for k using assms(1) by (simp add: after_refl)
  show ?thesis
  proof (cases "rev_error_category ?ev = Some ''rate_limited''")
    case True
    show ?thesis
      unfolding observe_reconciliation_def Let_def wp_bind wp_sources if_P[OF True] parsed_retry_after_def
      using rest[OF now] assms(5)[OF now]
      by (auto simp: wp_ret wp_raise escapes_def parse_retry_after_ValueError split: sum.split)
  next
    case False
    show ?thesis
      unfolding observe_reconciliation_def Let_def wp_bind wp_sources if_not_P[OF False] wp_ret
      by (rule rest[OF now])
  qed
qed

text \<open>A stretch of a run with \<open>g\<close> GETs and no POST, its waits within the budget.\<close>

definition reconciling :: "(event \<Rightarrow> bool) \<Rightarrow> world \<Rightarrow> world \<Rightarrow> int \<Rightarrow> world \<Rightarrow> bool" where
  "reconciling P w0 w g w' \<longleftrightarrow>
     runs P w0 w' \<and> post_n w' = post_n w \<and> int (get_n w') = int (get_n w) + g
     \<and> slept_us w \<le> slept_us w' \<and> slept_us w' \<le> max (slept_us w) CEILING_US"

lemma reconciling_after: "reconciling P w0 w g w1 \<Longrightarrow> after P w0 w1 w2 \<Longrightarrow> reconciling P w0 w g w2"
  by (auto simp: reconciling_def after_def quiet_def)

lemma reconciling_waits: "reconciling P w0 w g w1 \<Longrightarrow> waits P w0 w1 w2 \<Longrightarrow> reconciling P w0 w g w2"
  by (auto simp: reconciling_def waits_def)

lemma reconciling_runs: "reconciling P w0 w g w1 \<Longrightarrow> runs P w0 w1"
  by (simp add: reconciling_def)

lemma reconciling_get:
  assumes "reconciling P w0 w g w1" "harmless P" "sound w0"
  shows "reconciling P w0 w (g + 1) ((others_commit w1)\<lparr>get_n := Suc (get_n w1), trace := trace w1 @ [Got k]\<rparr>)"
  using assms runs_get[OF runs_others[of P w0 w1], of k] by (simp add: reconciling_def harmless_def)

lemma runs_env: "runs P w0 w \<Longrightarrow> the_env w = the_env w0"
  by (simp add: runs_def progress_def)

lemma run_reconciliation_loop:
  assumes "sound w0" "harmless P" "outcomes_ok (the_env w0)"
    "known_attempt (durable w0) (job_id j) (attempt_id a) m"
    "reconciling P w0 ws count w" "0 \<le> count" "count < 3"
    "\<And>e g w'. reconciling P w0 ws g w' \<Longrightarrow> 0 \<le> g \<Longrightarrow> g \<le> 3 \<Longrightarrow> escapes e \<Longrightarrow> E e w'"
    "\<And>out g w'. reconciling P w0 ws g w' \<Longrightarrow> recon_ok (durable w') (job_id j) g out \<Longrightarrow> 0 \<le> g \<Longrightarrow> g \<le> 3 \<Longrightarrow> Q out w'"
  shows "wp (reconciliation_loop n j a token generation seq_id count earliest) Q E w"
  using assms(5-7)
proof (induction n arbitrary: w count earliest)
  case 0
  then show ?case by (auto simp: wp_raise escapes_def is_exception_def intro!: assms(8))
next
  case (Suc n)
  note w = Suc.prems
  have fin: "Q out w2" if "reconciling P w0 ws count w1" "after P w0 w1 w2" "recon_ok (durable w2) (job_id j) count out" for out w1 w2
    using reconciling_after[OF that(1,2)] that(3) w(2,3) by (intro assms(9)) auto
  have err: "E e w2" if "reconciling P w0 ws count w1" "after P w0 w1 w2" "escapes e" for e w1 w2
    using reconciling_after[OF that(1,2)] that(3) w(2,3) by (intro assms(8)) auto
  have give_up: "wp (finalize_reconciliation j a token generation R_inconclusive count None None) Q E w1"
    if w1: "reconciling P w0 ws count w1" for w1
    by (rule run_finalize_reconciliation[OF reconciling_runs[OF w1] assms(1,4)])
      (auto intro: fin[OF w1] err[OF w1])
  let ?next = "reconciliation_loop n j a token generation seq_id"
  have deferred: "wp (after_authorization ?next j a token generation seq_id count earliest
      (Inr (ReconciliationDeferred t))) Q E w1"
    if w1: "reconciling P w0 ws count w1" for w1 t
    unfolding after_authorization_def sum.case reconciliation_authorization.case wp_bind
  proof (rule run_wait_while_renewing[OF reconciling_runs[OF w1] assms(2)])
    fix Q' :: "bool \<Rightarrow> world \<Rightarrow> bool" and E' w2 assume "runs P w0 w2" "\<And>e w'. after P w0 w2 w' \<Longrightarrow> escapes e \<Longrightarrow> E' e w'"
      "\<And>r w'. after P w0 w2 w' \<Longrightarrow> Q' r w'"
    then show "wp (renewed_lease j a token generation) Q' E' w2"
      using assms(1) by (intro run_renewed_lease) auto
  next
    fix e w' assume "waits P w0 w1 w'" "escapes e"
    then show "E e w'" using reconciling_waits[OF w1] w(2,3) by (intro assms(8)) auto
  next
    fix waited w' assume "waits P w0 w1 w'"
    then have w': "reconciling P w0 ws count w'" by (rule reconciling_waits[OF w1])
    then show "wp (case waited of Waited \<Rightarrow> ?next count earliest
        | Does_not_fit \<Rightarrow> finalize_reconciliation j a token generation R_inconclusive count None None
        | Renewal_failed \<Rightarrow> ret (lost_ownership j a count)) Q E w'"
      using Suc.IH[OF w' w(2,3)] give_up[OF w'] fin[OF w' after_refl[OF reconciling_runs[OF w']]]
      by (cases waited) (simp_all add: wp_ret)
  qed
  have observed: "wp (bind (observe_reconciliation j a token generation seq_id (count + 1) http) (\<lambda>next.
         case next of Inl outcome \<Rightarrow> ret outcome | Inr t \<Rightarrow> ?next (count + 1) (Some t))) Q E w1"
    if w1: "reconciling P w0 ws (count + 1) w1" and http: "reconcile_outcome_ok http" for w1 http
    unfolding wp_bind
  proof (rule run_observe_reconciliation[OF reconciling_runs[OF w1] assms(1,4) http, where count = "count + 1"])
    fix e w' assume "after P w0 w1 w'" "escapes e"
    then show "E e w'" using reconciling_after[OF w1] w(2,3) by (intro assms(8)[where g = "count + 1"]) auto
  next
    fix out w' assume "after P w0 w1 w'" "recon_ok (durable w') (job_id j) (count + 1) out"
    then have "Q out w'" using reconciling_after[OF w1] w(2,3) by (intro assms(9)[where g = "count + 1"]) auto
    then show "wp (case Inl out of Inl outcome \<Rightarrow> ret outcome | Inr t \<Rightarrow> ?next (count + 1) (Some t)) Q E w'"
      by (simp add: wp_ret)
  next
    fix t w' assume "after P w0 w1 w'" "count + 1 < 3"
    then have "wp (?next (count + 1) (Some t)) Q E w'"
      using reconciling_after[OF w1] w(2) by (intro Suc.IH) auto
    then show "wp (case Inr t of Inl outcome \<Rightarrow> ret outcome | Inr t \<Rightarrow> ?next (count + 1) (Some t)) Q E w'"
      by simp
  qed
  have got: "wp (after_authorization ?next j a token generation seq_id count earliest
      (Inr ReconciliationAuthorized)) Q E w1"
    if w1: "reconciling P w0 ws count w1" for w1
  proof -
    have g: "reconciling P w0 ws (count + 1)
        ((others_commit w1)\<lparr>get_n := Suc (get_n w1), trace := trace w1 @ [Got (idempotency_key j)]\<rparr>)"
      using w1 assms(2,1) by (rule reconciling_get)
    have ok: "reconcile_outcome_ok out" if "get_at (the_env w1) (get_n w1) = Inr out" for out
      using that assms(3) runs_env[OF reconciling_runs[OF w1]] by (auto simp: outcomes_ok_def)
    show ?thesis
      unfolding after_authorization_def sum.case reconciliation_authorization.case
        wp_bind[of "catching _"] wp_catching wp_reconcile_job Let_def
      using observed[OF g] ok assms(8)[OF g] w(2,3)
      by (auto simp: escapes_def split: sum.split)
  qed
  have authorized: "wp (after_authorization ?next j a token generation seq_id count earliest auth) Q E w1"
    if w1: "reconciling P w0 ws count w1" for auth w1
    using got[OF w1] deferred[OF w1] fin[OF w1 after_refl[OF reconciling_runs[OF w1]]]
    by (cases auth; (cases "projr auth")?)
      (auto simp: after_authorization_def wp_ret split: sum.split reconciliation_authorization.split)
  have authorize: "wp (bind (catching (authorize_reconciliation_request (job_id j) (attempt_id a) token
        generation LEASE_SECONDS earliest))
      (after_authorization ?next j a token generation seq_id count earliest)) Q E w1"
    if w1: "reconciling P w0 ws count w1" for w1
    unfolding wp_bind
    by (rule run_catching_authorize[OF reconciling_runs[OF w1] assms(1)])
      (auto intro: authorized reconciling_after[OF w1] err[OF w1])
  show ?case
    unfolding reconciliation_loop.simps wp_bind[of "try_consume_late_evidence _ _ _ _ _"]
    by (rule run_try_consume[OF reconciling_runs[OF w(1)] assms(1,4), where count = count])
      (auto simp: wp_ret intro: authorize reconciling_after[OF w(1)] fin[OF w(1)] err[OF w(1)])
qed

end
