(* ===== verification/Dispatch.thy ===== *)
theory Dispatch
  imports Invocation
begin

text \<open>
  The reconciliation sequence and the recovery as a whole, one dispatch of an authorized attempt
  and the submission loop.  The facts an invocation owes its caller: a POST is sent only for an
  attempt that is durably started and owned, the \<open>submitted\<close> flag tells whether a POST may have
  reached the service, and at most three reconciliation GETs are sent.
\<close>

section \<open>The whole reconciliation sequence\<close>

lemma run_sequence:
  assumes "runs P w0 w" "sound w0" "harmless P" "outcomes_ok (the_env w0)"
    "known_attempt (durable w0) (job_id j) (attempt_id a) m"
    "\<And>e g w'. reconciling P w0 w g w' \<Longrightarrow> 0 \<le> g \<Longrightarrow> g \<le> 3 \<Longrightarrow> escapes e \<Longrightarrow> E e w'"
    "\<And>out g w'. reconciling P w0 w g w' \<Longrightarrow> recon_ok (durable w') (job_id j) g out \<Longrightarrow> 0 \<le> g \<Longrightarrow> g \<le> 3 \<Longrightarrow> Q out w'"
  shows "wp (run_reconciliation_sequence j a token generation) Q E w"
  unfolding run_reconciliation_sequence_def wp_bind wp_sources wp_with_fuel
  by (rule run_reconciliation_loop[OF assms(2,3,4,5), where ws = w])
    (use assms(1) in \<open>auto simp: reconciling_def intro!: assms(6,7)\<close>)

text \<open>
  A recovery: the quarantine, whatever the budget, then a claim and one sequence.
\<close>

definition recovering :: "(event \<Rightarrow> bool) \<Rightarrow> world \<Rightarrow> world \<Rightarrow> world \<Rightarrow> bool" where
  "recovering P w0 w w' \<longleftrightarrow>
     runs P w0 w' \<and> post_n w' = post_n w
     \<and> get_n w \<le> get_n w' \<and> get_n w' \<le> get_n w + 3
     \<and> slept_us w + QUARANTINE_US \<le> slept_us w'
     \<and> slept_us w' \<le> max (slept_us w + QUARANTINE_US) CEILING_US"

lemma run_recover:
  assumes "runs P w0 w" "sound w0" "harmless P" "outcomes_ok (the_env w0)"
    "known_attempt (durable w0) (job_id j) (attempt_id a) m"
    "\<And>e w'. recovering P w0 w w' \<Longrightarrow> escapes e \<Longrightarrow> E e w'"
    "\<And>w'. recovering P w0 w w' \<Longrightarrow> get_n w' = get_n w \<Longrightarrow> Q RecoveryRerouted w'"
    "\<And>w'. recovering P w0 w w' \<Longrightarrow> Q RecoveryPersistenceFailed w'"
    "\<And>out g w'. recovering P w0 w w' \<Longrightarrow> recon_ok (durable w') (job_id j) g out \<Longrightarrow>
       int (get_n w') = int (get_n w) + g \<Longrightarrow> Q (Recovered out) w'"
  shows "wp (recover_and_reconcile j a token lease) Q E w"
proof -
  let ?w = "w\<lparr>slept_us := slept_us w + QUARANTINE_US, trace := trace w @ [Slept QUARANTINE_US]\<rparr>"
  have w: "runs P w0 ?w" using assms(1,3) by (auto simp: harmless_def intro: runs_sleep)
  have still: "recovering P w0 w w' \<and> get_n w' = get_n w" if "after P w0 ?w w'" for w'
    using that by (auto simp: recovering_def after_def quiet_def)
  have seq: "recovering P w0 w w' \<and> int (get_n w') = int (get_n w) + g"
    if "after P w0 ?w w1" "reconciling P w0 w1 g w'" "0 \<le> g" "g \<le> 3" for w1 w' g
    using that by (auto simp: recovering_def reconciling_def after_def quiet_def)
  have sequence: "wp (run_reconciliation_sequence j' a' token generation)
      (\<lambda>out. wp (ret (Recovered out)) Q E) E w1"
    if w1: "after P w0 ?w w1" and ids: "job_id j' = job_id j" "attempt_id a' = attempt_id a"
    for w1 j' a' generation
    using seq[OF w1] ids assms(5)
    by (intro run_sequence[OF after_runs[OF w1] assms(2,3,4), where m = m])
      (auto simp: wp_ret intro!: assms(6,9))
  show ?thesis
    unfolding recover_and_reconcile_def wp_thn wp_sources wp_bind wp_catching
    by (rule run_claim_expired_attempt[OF w assms(2)])
      (auto simp: wp_ret escapes_def wp_bind select_job_id dest: still select_attemptD
        intro!: assms(6-8) sequence)
qed

section \<open>Rendering\<close>

definition flag_of :: "submit_outcome \<Rightarrow> bool" where
  "flag_of out = (case out of SubmitSuccess r \<Rightarrow> success_submitted r | SubmitError r \<Rightarrow> error_submitted r)"

lemma flag_simps [simp]:
  "flag_of (submit_error out sent k s jid c) = sent"
  "flag_of (job_error out sent j s' c) = sent"
  "flag_of (with_submitted sent r) = sent"
  "flag_of (with_history items r) = flag_of r"
  by (simp_all add: flag_of_def submit_error_def job_error_def with_submitted_def with_history_def
      split: submit_outcome.split)

text \<open>
  A success of this invocation's own work is the durable row of an attempt of the Job \<open>jid\<close>.
\<close>

definition attests :: "attempt_row \<Rightarrow> success_report \<Rightarrow> bool" where
  "attests a r \<longleftrightarrow>
     astate a = A_SUCCEEDED \<and> attempt_id a = success_attempt_id r
     \<and> attempt_number a = success_attempt_number r
     \<and> http_status a = Some (success_http_status r)
     \<and> remote_request_id a = Some (success_remote_request_id r)"

definition vouched :: "database \<Rightarrow> string \<Rightarrow> submit_outcome \<Rightarrow> bool" where
  "vouched d jid out \<longleftrightarrow>
     (case out of
        SubmitSuccess r \<Rightarrow> success_outcome r = Outcome_succeeded \<and> success_job_id r = jid
          \<and> (\<exists>a. recorded d jid a \<and> attests a r)
      | SubmitError _ \<Rightarrow> True)"

lemma vouched_errors [simp]:
  "vouched d jid (submit_error out sent k s i c)" "vouched d jid (job_error out sent j s' c)"
  by (simp_all add: vouched_def submit_error_def job_error_def)

lemma run_submit_success:
  assumes "success_evidence_ok a"
    "\<And>r. success_submitted r = sent \<Longrightarrow> success_outcome r = out \<Longrightarrow> success_job_id r = job_id j \<Longrightarrow>
       (astate a = A_SUCCEEDED \<Longrightarrow> attests a r) \<Longrightarrow> Q (SubmitSuccess r) w"
  shows "wp (submit_success out sent j s a digest count) Q E w"
  using assms unfolding attests_def
  by (auto simp: submit_success_def success_evidence_ok_def wp_ret split: option.split)

lemma run_render:
  assumes "recon_ok d jid g out" "\<And>r. flag_of r = sent \<Longrightarrow> vouched d jid r \<Longrightarrow> Q r w"
  shows "wp (render_reconciliation_outcome out digest sent) Q E w"
proof -
  have "wp (submit_success Outcome_succeeded sent (rec_job out) SUCCEEDED (rec_attempt out) digest
      (request_count out)) Q E w" if "success_evidence_ok (rec_attempt out)"
      "recorded d jid (rec_attempt out)" "astate (rec_attempt out) = A_SUCCEEDED" "job_id (rec_job out) = jid"
    using that by (intro run_submit_success assms(2)) (auto simp: flag_of_def vouched_def)
  moreover have "Q (job_error o' sent j' s' c) w" for o' j' s' c by (simp add: assms(2))
  ultimately show ?thesis
    using assms(1) unfolding render_reconciliation_outcome_def Let_def
    by (auto simp: recon_ok_def ended_attempt_def wp_ret wp_thn wp_asserting)
qed

section \<open>One dispatch\<close>

text \<open>
  The Job and attempt a POST belongs to, as the renewal of the lease left them in the durable
  database.
\<close>

definition in_flight :: "string \<Rightarrow> string \<Rightarrow> payload \<Rightarrow> database \<Rightarrow> bool" where
  "in_flight token key bytes d \<longleftrightarrow>
     (\<exists>j\<in>set (jobs d). \<exists>a\<in>set (submission_attempts d).
        idempotency_key j = key \<and> payload_canonical j = bytes \<and> jstate j = SUBMITTING
        \<and> attempt_job_id a = job_id j \<and> astate a = A_STARTED \<and> owner_token a = Some token)"

text \<open>
  The same Job and attempt when the request goes out: others may have ended the attempt or, with a
  higher fencing generation, claimed it meanwhile; as long as they have not, it is still this
  invocation's and the Job is still being submitted.
\<close>

definition goes_out :: "string \<Rightarrow> string \<Rightarrow> payload \<Rightarrow> database \<Rightarrow> database \<Rightarrow> bool" where
  "goes_out token key bytes d0 d \<longleftrightarrow>
     (\<exists>j\<in>set (jobs d0). \<exists>a\<in>set (submission_attempts d0).
        idempotency_key j = key \<and> payload_canonical j = bytes \<and> jstate j = SUBMITTING
        \<and> attempt_job_id a = job_id j \<and> astate a = A_STARTED \<and> owner_token a = Some token
        \<and> (\<exists>j'\<in>set (jobs d). \<exists>a'\<in>set (submission_attempts d).
             job_id j' = job_id j \<and> idempotency_key j' = key \<and> payload_canonical j' = bytes
             \<and> attempt_id a' = attempt_id a \<and> attempt_job_id a' = job_id j
             \<and> attempt_number a' = attempt_number a
             \<and> fencing_generation a \<le> fencing_generation a'
             \<and> (astate a' = A_STARTED \<and> fencing_generation a' = fencing_generation a \<longrightarrow>
                  jstate j' = SUBMITTING \<and> owner_token a' = Some token)))"

definition licensed :: "string \<Rightarrow> string \<Rightarrow> payload \<Rightarrow> event \<Rightarrow> bool" where
  "licensed token key bytes e =
     (case e of
        Posted k b d0 d \<Rightarrow> k = key \<and> b = bytes \<and> goes_out token key bytes d0 d
      | _ \<Rightarrow> True)"

lemma in_flight_goes_out:
  assumes "in_flight token key bytes d0" "db_ok d0" "db_steps d0 d"
  shows "goes_out token key bytes d0 d"
proof -
  from assms(1) obtain j a where j: "j \<in> set (jobs d0)" "idempotency_key j = key" "payload_canonical j = bytes"
      "jstate j = SUBMITTING"
    and a: "a \<in> set (submission_attempts d0)" "attempt_job_id a = job_id j" "astate a = A_STARTED"
      "owner_token a = Some token"
    unfolding in_flight_def by blast
  have le: "db_le d0 d" and ok: "db_ok d" using assms(2,3) by (auto intro: db_steps_le db_steps_ok)
  obtain j' where j': "j' \<in> set (jobs d)" "job_le j j'"
    using le extends_member[of job_le "jobs d0" "jobs d" j] j(1) by (auto simp: db_le_def)
  obtain a' where a': "a' \<in> set (submission_attempts d)" "attempt_le a a'"
    using le extends_member[of attempt_le "submission_attempts d0" "submission_attempts d" a] a(1)
    by (auto simp: db_le_def)
  have "jstate j' = SUBMITTING" if "astate a' = A_STARTED"
    using j'(2) a'(2) a(2) by (intro started_in_submitting(1)[OF ok j'(1) a'(1) _ that]) (simp add: job_le_def attempt_le_def)
  moreover have "owner_token a' = Some token"
    if "astate a' = A_STARTED" "fencing_generation a' = fencing_generation a"
    using a'(2) a(4) that by (auto simp: attempt_le_def)
  ultimately show ?thesis
    unfolding goes_out_def using j a j' a'
    by (intro bexI[OF _ j(1)] bexI[OF _ a(1)] conjI bexI[OF _ j'(1)] bexI[OF _ a'(1)])
      (auto simp: job_le_def attempt_le_def)
qed

text \<open>Some POST between two worlds was not answered by a proof that it was never sent.\<close>

definition maybe_sent :: "world \<Rightarrow> world \<Rightarrow> bool" where
  "maybe_sent w w' \<longleftrightarrow>
     (\<exists>i. post_n w \<le> i \<and> i < post_n w'
        \<and> post_at (the_env w) i \<noteq> Inr (SubmitHttpTransportFailure False))"

text \<open>A stretch with exactly one POST, the first thing in it, and \<open>g\<close> GETs.\<close>

definition dispatched :: "(event \<Rightarrow> bool) \<Rightarrow> world \<Rightarrow> int \<Rightarrow> world \<Rightarrow> bool" where
  "dispatched P w g w' \<longleftrightarrow>
     runs P w w' \<and> post_n w' = Suc (post_n w) \<and> int (get_n w') = int (get_n w) + g
     \<and> slept_us w \<le> slept_us w' \<and> slept_us w' \<le> max (slept_us w) CEILING_US"

lemma dispatched_after: "dispatched P w g w1 \<Longrightarrow> after P w w1 w2 \<Longrightarrow> dispatched P w g w2"
  by (auto simp: dispatched_def after_def quiet_def)

lemma dispatched_reconciling: "dispatched P w 0 w1 \<Longrightarrow> reconciling P w w1 g w2 \<Longrightarrow> dispatched P w g w2"
  by (auto simp: dispatched_def reconciling_def)

lemma dispatched_runs: "dispatched P w g w' \<Longrightarrow> runs P w w'"
  by (simp add: dispatched_def)

lemma harmless_licensed: "harmless (licensed token key bytes)"
  by (simp add: harmless_def licensed_def)

lemma owned_in_flight:
  assumes "authorized_attempt d key bytes token j a" "db_ok d" "db_steps d (seen w)"
    "owned w (job_id j) (attempt_id a) token generation"
    "update_attempt (attempt_id a) (with_lease t) (seen w) = Inr d'"
  shows "in_flight token key bytes d'"
proof -
  note le = db_steps_le[OF assms(3,2)] and ok = db_steps_ok[OF assms(3,2)]
  from assms(4) obtain j1 a1 where
    1: "select_job (seen w) (job_id j) = Some j1" "select_attempt (seen w) (attempt_id a) = Some a1"
      "jstate j1 = SUBMITTING" "astate a1 = A_STARTED" "owner_token a1 = Some token"
    by (rule owned_rows)
  have "job_le j j1" using db_le_select_job[OF le ok] assms(1) 1(1)
    by (metis authorized_attempt_def option.inject)
  moreover have "attempt_le a a1" using db_le_select_attempt[OF le ok] assms(1) 1(2)
    by (metis authorized_attempt_def option.inject)
  ultimately have "idempotency_key j1 = key"
    "payload_canonical j1 = bytes" "attempt_job_id a1 = job_id j1"
    using assms(1) 1 select_jobD[OF 1(1)] select_attemptD[OF 1(2)]
    by (auto simp: job_le_def attempt_le_def authorized_attempt_def)
  moreover have "jobs d' = jobs (seen w)" "with_lease t a1 \<in> set (submission_attempts d')"
    using update_attemptD(1)[OF assms(5)] select_attemptD[OF 1(2)] by auto
  ultimately show ?thesis
    using 1 select_jobD[OF 1(1)]
    by (auto simp: in_flight_def with_lease_def intro!: bexI[of _ j1] bexI[of _ "with_lease t a1"])
qed

lemma run_report_late:
  assumes "dispatched P w 0 w1" "sound w"
    "\<And>e w'. dispatched P w 0 w' \<Longrightarrow> escapes e \<Longrightarrow>
       (is_exception e \<Longrightarrow> ev_error_category ev = Some ''rate_limited'' \<and> disposition ev \<noteq> Succeeded) \<Longrightarrow> E e w'"
    "\<And>w'. dispatched P w 0 w' \<Longrightarrow> Q () w'"
  shows "wp (report_late a ev) Q E w1"
proof -
  let ?cat = "if disposition ev = Succeeded then ''processed''
          else case ev_error_category ev of None \<Rightarrow> ''protocol_uncertain''
          | Some c \<Rightarrow> if c = [] then ''protocol_uncertain'' else c"
  have app: "wp (thn (catching (append_late_observation (attempt_id a) (fencing_generation a)
       cat SUBMISSION status rid ms diag)) (ret ())) Q E w2" if "dispatched P w 0 w2" for cat status rid ms diag w2
    unfolding wp_thn wp_catching
    by (rule run_append_late_observation[OF dispatched_runs[OF that] assms(2)])
      (auto simp: wp_ret escapes_def intro!: assms(3,4) dispatched_after[OF that])
  have now: "dispatched P w 0 (w1\<lparr>clock_n := k\<rparr>)" for k using assms(1) by (simp add: dispatched_def)
  show ?thesis
  proof (cases "?cat = ''rate_limited''")
    case True
    then have "ev_error_category ev = Some ''rate_limited''" "disposition ev \<noteq> Succeeded"
      by (auto split: if_splits option.splits)
    then show ?thesis
      unfolding report_late_def Let_def wp_bind wp_sources if_P[OF True] parsed_retry_after_def
      using app[OF now] assms(3)[OF now]
      by (auto simp: wp_ret wp_raise escapes_def parse_retry_after_ValueError split: sum.split)
  next
    case False
    show ?thesis
      unfolding report_late_def Let_def wp_bind if_not_P[OF False] wp_ret
      by (rule app[OF assms(1)])
  qed
qed

lemma run_after_finalization:
  assumes w1: "dispatched P w 0 w1" and sound: "sound w" and "harmless P" "outcomes_ok (the_env w)"
    and known: "known_attempt (durable w) (job_id j) (attempt_id a) n"
    and ok: "evidence_ok ev" and unsent: "\<not> sent \<Longrightarrow> ev = not_sent_evidence"
    and result: "result \<noteq> PostSideEffectFailure \<Longrightarrow>
       \<exists>j0 a0 now delay. job_id j0 = job_id j \<and> idempotency_key j0 = idempotency_key j
         \<and> attempt_id a0 = attempt_id a \<and> recorded (durable w1) (job_id j) (final_change ev now delay a0)
         \<and> result = final_result ev n now delay j0 a0"
    and E: "\<And>e g w'. dispatched P w g w' \<Longrightarrow> 0 \<le> g \<Longrightarrow> g \<le> 3 \<Longrightarrow> escapes e \<Longrightarrow> (is_exception e \<Longrightarrow> sent) \<Longrightarrow> E e w'"
    and Q: "\<And>out g w'. dispatched P w g w' \<Longrightarrow> 0 \<le> g \<Longrightarrow> g \<le> 3 \<Longrightarrow> vouched (durable w') (job_id j) out \<Longrightarrow>
       Q (Outcome out, sent) w'"
    and again: "\<And>j' a' w'. dispatched P w 0 w' \<Longrightarrow> job_id j' = job_id j \<Longrightarrow>
       idempotency_key j' = idempotency_key j \<Longrightarrow> completed_at a' \<noteq> None \<Longrightarrow> retry_after_ms a' \<noteq> None \<Longrightarrow>
       Q (RetryEligibleAfterDispatch j' a', sent) w'"
  shows "wp (after_finalization j a token digest ev sent result) Q E w1"
proof (cases "result = PostSideEffectFailure")
  case True
  have "is_exception e \<Longrightarrow> sent" if "is_exception e \<Longrightarrow> ev_error_category ev = Some ''rate_limited''" for e
    using unsent that by (cases sent) (auto simp: not_sent_evidence_def)
  with True show ?thesis
    unfolding after_finalization_def
    by (auto simp: wp_thn intro!: run_report_late[OF w1 sound] E[where g = 0] Q[where g = 0] simp: wp_ret)
next
  case False
  from result[OF False] obtain j0 a0 now delay where
    ids: "job_id j0 = job_id j" "idempotency_key j0 = idempotency_key j" "attempt_id a0 = attempt_id a"
    and rec: "recorded (durable w1) (job_id j) (final_change ev now delay a0)"
    and res: "result = final_result ev n now delay j0 a0" by blast
  have "evidence_ok ev" by (rule ok)
  then have success: "disposition ev = Succeeded \<Longrightarrow>
      wp (submit_success Outcome_succeeded True j' SUCCEEDED (final_change ev now delay a0) digest 0)
        (\<lambda>out. wp (ret (Outcome out, sent)) Q E) E w1" if "job_id j' = job_id j" for j'
    using rec that
    by (intro run_submit_success)
      (auto simp: evidence_ok_def success_evidence_ok_def final_change_def wp_ret vouched_def
        intro!: Q[OF w1])
  have sequence: "wp (run_reconciliation_sequence j0 a0 token (fencing_generation a))
      (\<lambda>out. wp (bind (render_reconciliation_outcome out digest sent)
        (\<lambda>rendered. ret (Outcome rendered, sent))) Q E) E w1"
    if "disposition ev = Retained"
  proof (rule run_sequence[OF dispatched_runs[OF w1] sound assms(3,4)])
    show "known_attempt (durable w) (job_id j0) (attempt_id a0) n" using known ids by simp
  next
    fix e g w' assume "reconciling P w w1 g w'" "0 \<le> g" "g \<le> 3" "escapes e"
    moreover have sent using unsent that by (cases sent) (auto simp: not_sent_evidence_def)
    ultimately show "E e w'" using dispatched_reconciling[OF w1] by (intro E)
  next
    fix out g w' assume *: "reconciling P w w1 g w'" "recon_ok (durable w') (job_id j0) g out" "0 \<le> g" "g \<le> 3"
    show "wp (bind (render_reconciliation_outcome out digest sent)
        (\<lambda>rendered. ret (Outcome rendered, sent))) Q E w'"
      unfolding wp_bind
      by (rule run_render[OF *(2)]) (use Q[OF dispatched_reconciling[OF w1 *(1)] *(3,4)] ids in \<open>simp add: wp_ret\<close>)
  qed
  show ?thesis
  proof (cases "disposition ev")
    case Succeeded
    then show ?thesis
      using success res ids by (simp add: after_finalization_def final_result_def Let_def wp_bind final_change_def with_success_def)
  next
    case Permanent_failure
    then show ?thesis using res Q[OF w1]
      by (simp add: after_finalization_def final_result_def Let_def wp_ret final_change_def with_permanent_def)
  next
    case Retryable_failure
    then show ?thesis using res Q[OF w1] again[OF w1] ids
      by (simp add: after_finalization_def final_result_def Let_def wp_ret wp_thn wp_asserting
          final_change_def with_retryable_def)
  next
    case Retained
    then show ?thesis using sequence res
      by (simp add: after_finalization_def final_result_def Let_def wp_bind)
  qed
qed

text \<open>A stretch without requests or waits.\<close>

definition unsent :: "(event \<Rightarrow> bool) \<Rightarrow> world \<Rightarrow> world \<Rightarrow> bool" where
  "unsent P w w' \<longleftrightarrow>
     runs P w w' \<and> post_n w' = post_n w \<and> get_n w' = get_n w \<and> slept_us w' = slept_us w"

definition dispatching :: "(event \<Rightarrow> bool) \<Rightarrow> world \<Rightarrow> world \<Rightarrow> bool" where
  "dispatching P w w' \<longleftrightarrow> unsent P w w' \<or> (\<exists>g. dispatched P w g w' \<and> 0 \<le> g \<and> g \<le> 3)"

lemma dispatched_dispatching: "dispatched P w 0 w' \<Longrightarrow> dispatching P w w'"
  by (auto simp: dispatching_def)

lemma unsent_after: "unsent P w w1 \<Longrightarrow> after P w w1 w2 \<Longrightarrow> unsent P w w2"
  by (auto simp: unsent_def after_def quiet_def)

lemma unsent_maybe: "unsent P w w' \<Longrightarrow> \<not> maybe_sent w w'"
  by (simp add: unsent_def maybe_sent_def)

lemma dispatched_maybe:
  "dispatched P w g w' \<Longrightarrow>
     maybe_sent w w' \<longleftrightarrow> post_at (the_env w) (post_n w) \<noteq> Inr (SubmitHttpTransportFailure False)"
  by (auto simp: dispatched_def maybe_sent_def less_Suc_eq_le intro: le_antisym)

lemma unsent_evidence:
  "ev_error_category (classify_submission_outcome out) \<noteq> Some ''transport_not_sent'' \<longleftrightarrow>
     out \<noteq> SubmitHttpTransportFailure False"
  "classify_submission_outcome (SubmitHttpTransportFailure False) = not_sent_evidence"
  by (cases out; simp) (simp add: not_sent_evidence_def)

lemma run_finalize_with:
  assumes "runs P w w1" "sound w" "authorized_attempt (durable w) key bytes token j a" "evidence_ok ev"
    "\<And>e w'. after P w w1 w' \<Longrightarrow> \<not> is_exception e \<Longrightarrow> E e w'"
    "\<And>e w'. after P w w1 w' \<Longrightarrow> is_exception e \<Longrightarrow> Q (Inl e) w'"
    "\<And>result w'. after P w w1 w' \<Longrightarrow>
       (result \<noteq> PostSideEffectFailure \<Longrightarrow>
         \<exists>j0 a0 now delay. job_id j0 = job_id j \<and> idempotency_key j0 = idempotency_key j
           \<and> attempt_id a0 = attempt_id a \<and> recorded (durable w') (job_id j) (final_change ev now delay a0)
           \<and> result = final_result ev (attempt_number a) now delay j0 a0) \<Longrightarrow> Q (Inr result) w'"
  shows "wp (catching (finalize_with j a token ev)) Q E w1"
proof -
  have key: "idempotency_key j0 = idempotency_key j" if "select_job (seen w1) (job_id j) = Some j0" for j0
  proof -
    have "db_steps (durable w) (seen w1)" "db_ok (durable w)"
      using sound_seen[OF assms(2,1)] assms(2) by (simp_all add: sound_def)
    note le = db_steps_le[OF this] and ok = db_steps_ok[OF this]
    have "select_job (durable w) (job_id j) = Some j" using assms(3) by (simp add: authorized_attempt_def)
    from db_le_select_job[OF le ok this] obtain j' where
      "select_job (seen w1) (job_id j) = Some j'" "job_le j j'" by blast
    with that show ?thesis by (simp add: job_le_def)
  qed
  show ?thesis
    unfolding wp_catching finalize_with_def
  proof (rule run_finalize_submission_attempt[OF assms(1,2) _ authorized_known[OF assms(3)] assms(4)])
    fix e w' assume "after P w w1 w'"
    then show "if is_exception e then Q (Inl e) w' else E e w'" using assms(5,6) by simp
  next
    fix w' assume "after P w w1 w'"
    then show "Q (Inr PostSideEffectFailure) w'" by (rule assms(7)) simp
  next
    fix j0 a0 now delay w'
    assume *: "after P w w1 w'" "select_job (seen w1) (job_id j) = Some j0"
      "select_attempt (seen w1) (attempt_id a) = Some a0"
      "recorded (durable w') (job_id j) (final_change ev now delay a0)"
    show "Q (Inr (final_result ev (attempt_number a) now delay j0 a0)) w'"
      using key[OF *(2)] select_job_id[OF *(2)] select_attemptD[OF *(3)] *(4)
      by (intro assms(7)[OF *(1)]) blast
  qed
qed

lemma run_post:
  assumes "unsent (licensed token key bytes) w w1" "sound w" "outcomes_ok (the_env w)"
    and auth: "authorized_attempt (durable w) key bytes token j a"
    and flight: "in_flight token key bytes (durable w1)"
    and E: "\<And>e w'. dispatching (licensed token key bytes) w w' \<Longrightarrow> escapes e \<Longrightarrow>
       (is_exception e \<Longrightarrow> maybe_sent w w') \<Longrightarrow> E e w'"
    and Q: "\<And>out w'. dispatching (licensed token key bytes) w w' \<Longrightarrow> vouched (durable w') (job_id j) out \<Longrightarrow>
       Q (Outcome out, maybe_sent w w') w'"
    and again: "\<And>j' a' w'. dispatched (licensed token key bytes) w 0 w' \<Longrightarrow> job_id j' = job_id j \<Longrightarrow>
       idempotency_key j' = key \<Longrightarrow> completed_at a' \<noteq> None \<Longrightarrow> retry_after_ms a' \<noteq> None \<Longrightarrow>
       Q (RetryEligibleAfterDispatch j' a', maybe_sent w w') w'"
  shows "wp (bind (catching (submit_job (idempotency_key j) bytes)) (\<lambda>http.
         case http of
           Inl _ \<Rightarrow>
             ret (Outcome (job_error Outcome_local_persistence_failure True j SUBMITTING 0), True)
         | Inr http_outcome \<Rightarrow>
             (let ev = classify_submission_outcome http_outcome;
                  sent = (ev_error_category ev \<noteq> Some ''transport_not_sent'')
              in bind (catching (finalize_with j a token ev)) (\<lambda>recorded.
                 case recorded of
                   Inl _ \<Rightarrow>
                     ret (Outcome (job_error Outcome_local_persistence_failure sent j SUBMITTING 0),
                          sent)
                 | Inr result \<Rightarrow> after_finalization j a token digest ev sent result)))) Q E w1"
proof -
  let ?P = "licensed token key bytes"
  let ?w1 = "others_commit w1"
  let ?w = "?w1\<lparr>post_n := Suc (post_n w1), trace := trace w1 @ [Posted key bytes (durable w1) (durable ?w1)]\<rparr>"
  have key: "idempotency_key j = key" using auth by (simp add: authorized_attempt_def)
  have env: "the_env w1 = the_env w" using assms(1) runs_env by (auto simp: unsent_def)
  have run: "runs ?P w w1" using assms(1) by (simp add: unsent_def)
  have "goes_out token key bytes (durable w1) (durable ?w1)"
    using flight others_progress[of w1] sound_runs[OF assms(2) run]
    by (intro in_flight_goes_out) (auto simp: sound_def progress_def)
  then have "runs ?P w ?w"
    using runs_post[OF runs_others[OF run assms(2)]] by (simp add: licensed_def)
  then have w: "dispatched ?P w 0 ?w" using assms(1) by (simp add: dispatched_def unsent_def)
  have ends: "dispatching ?P w w'" if "dispatched ?P w g w'" "0 \<le> g" "g \<le> 3" for g w'
    using that by (auto simp: dispatching_def)
  have later: "dispatched ?P w 0 w'" if "after ?P w ?w w'" for w'
    using w that by (rule dispatched_after)
  show ?thesis
  proof (cases "post_at (the_env w1) (post_n w1)")
    case (Inl e)
    then have "maybe_sent w ?w" using dispatched_maybe[OF w] env assms(1) by (simp add: unsent_def)
    with Inl show ?thesis
      using Q[OF ends[OF w]] E[OF ends[OF w]]
      by (simp add: wp_bind wp_catching wp_submit_job Let_def key wp_ret escapes_def)
  next
    case (Inr out)
    let ?ev = "classify_submission_outcome out"
    define sent where "sent = (ev_error_category ?ev \<noteq> Some ''transport_not_sent'')"
    have flag: "maybe_sent w w' = sent" if "dispatched ?P w g w'" for g w'
      using dispatched_maybe[OF that] Inr env assms(1) unsent_evidence(1)[of out]
      by (simp add: unsent_def sent_def)
    have ok: "evidence_ok ?ev"
      using assms(3) Inr env by (intro classified_evidence_ok) (auto simp: outcomes_ok_def)
    have unsent: "\<not> sent \<Longrightarrow> ?ev = not_sent_evidence"
      using unsent_evidence(1)[of out] unsent_evidence(2) by (auto simp: sent_def)
    have "wp (catching (finalize_with j a token ?ev)) (\<lambda>recorded. wp (case recorded of
                   Inl _ \<Rightarrow>
                     ret (Outcome (job_error Outcome_local_persistence_failure sent j SUBMITTING 0),
                          sent)
                 | Inr result \<Rightarrow> after_finalization j a token digest ?ev sent result) Q E) E ?w"
    proof (rule run_finalize_with[OF dispatched_runs[OF w] assms(2) auth ok])
      fix e w' assume *: "after ?P w ?w w'" "\<not> is_exception e"
      from ends[OF later[OF *(1)]] *(2) show "E e w'" by (intro E) (simp_all add: escapes_def)
    next
      fix e w' assume *: "after ?P w ?w w'"
      from Q[OF ends[OF later[OF *]]] flag[OF later[OF *]]
      show "wp (case Inl e of
                   Inl _ \<Rightarrow>
                     ret (Outcome (job_error Outcome_local_persistence_failure sent j SUBMITTING 0),
                          sent)
                 | Inr result \<Rightarrow> after_finalization j a token digest ?ev sent result) Q E w'"
        by (simp add: wp_ret)
    next
      fix result w'
      assume *: "after ?P w ?w w'" and
        res: "result \<noteq> PostSideEffectFailure \<Longrightarrow>
         \<exists>j0 a0 now delay. job_id j0 = job_id j \<and> idempotency_key j0 = idempotency_key j
           \<and> attempt_id a0 = attempt_id a \<and> recorded (durable w') (job_id j) (final_change ?ev now delay a0)
           \<and> result = final_result ?ev (attempt_number a) now delay j0 a0"
      have "wp (after_finalization j a token digest ?ev sent result) Q E w'"
      proof (rule run_after_finalization[OF later[OF *] assms(2) harmless_licensed assms(3)
            authorized_known[OF auth] ok unsent res])
        fix e g w2 assume e: "dispatched ?P w g w2" "0 \<le> g" "g \<le> 3" "escapes e" "is_exception e \<Longrightarrow> sent"
        show "E e w2" by (rule E[OF ends[OF e(1-3)] e(4)]) (use e(5) flag[OF e(1)] in simp)
      next
        fix o' g w2 assume o: "dispatched ?P w g w2" "0 \<le> g" "g \<le> 3" "vouched (durable w2) (job_id j) o'"
        from Q[OF ends[OF o(1-3)] o(4)] flag[OF o(1)] show "Q (Outcome o', sent) w2" by simp
      next
        fix j' :: job_row and a' :: attempt_row and w2
        assume r: "dispatched ?P w 0 w2" "job_id j' = job_id j" "idempotency_key j' = idempotency_key j"
          "completed_at a' \<noteq> None" "retry_after_ms a' \<noteq> None"
        have "idempotency_key j' = key" using r(3) key by simp
        from again[OF r(1,2) this r(4,5)] flag[OF r(1)]
        show "Q (RetryEligibleAfterDispatch j' a', sent) w2" by simp
      qed
      then show "wp (case Inr result of
                   Inl _ \<Rightarrow>
                     ret (Outcome (job_error Outcome_local_persistence_failure sent j SUBMITTING 0),
                          sent)
                 | Inr result \<Rightarrow> after_finalization j a token digest ?ev sent result) Q E w'"
        by simp
    qed
    with Inr show ?thesis
      by (simp only: wp_bind wp_catching[of "submit_job _ _"] wp_submit_job Let_def key sent_def sum.case)
  qed
qed

lemma run_renewal_before_dispatch:
  assumes "sound w" "\<And>e w'. unsent P w w' \<Longrightarrow> E e w'"
    "\<And>w'. unsent P w w' \<Longrightarrow> Q LeaseLost w'"
    "\<And>t w'. unsent P w w' \<Longrightarrow> (\<And>key bytes. authorized_attempt (durable w) key bytes token j a \<Longrightarrow>
       in_flight token key bytes (durable w')) \<Longrightarrow> Q (LeaseRenewed t) w'"
  shows "wp (renewal_before_dispatch j a token) Q E w"
proof -
  let ?w = "w\<lparr>renew_n := Suc (renew_n w)\<rparr>"
  have w: "runs P w ?w" by simp
  have after: "unsent P w w'" if "after P w ?w w'" for w'
    using that by (auto simp: unsent_def after_def quiet_def)
  have flight: "in_flight token key bytes d'"
    if "owned ?w (job_id j) (attempt_id a) token (fencing_generation a)"
      "update_attempt (attempt_id a) (with_lease t) (seen ?w) = Inr d'"
      "authorized_attempt (durable w) key bytes token j a" for t d' key bytes
    using owned_in_flight[OF that(3) _ _ that(1,2)] sound_seen[OF assms(1) w] assms(1)
    by (simp add: sound_def)
  show ?thesis
    unfolding renewal_before_dispatch_def wp_bind wp_sources wp_catching
    by (rule run_renew_lease[OF w assms(1)])
      (auto simp: wp_raise wp_ret after intro!: assms(2-4) flight)
qed

lemma run_dispatch:
  assumes "sound w" "outcomes_ok (the_env w)"
    and auth: "authorized_attempt (durable w) key bytes token j a"
    and E: "\<And>e w'. dispatching (licensed token key bytes) w w' \<Longrightarrow> escapes e \<Longrightarrow>
       (is_exception e \<Longrightarrow> maybe_sent w w') \<Longrightarrow> E e w'"
    and Q: "\<And>out w'. dispatching (licensed token key bytes) w w' \<Longrightarrow> vouched (durable w') (job_id j) out \<Longrightarrow>
       Q (Outcome out, maybe_sent w w') w'"
    and again: "\<And>j' a' w'. dispatched (licensed token key bytes) w 0 w' \<Longrightarrow> job_id j' = job_id j \<Longrightarrow>
       idempotency_key j' = key \<Longrightarrow> completed_at a' \<noteq> None \<Longrightarrow> retry_after_ms a' \<noteq> None \<Longrightarrow>
       Q (RetryEligibleAfterDispatch j' a', maybe_sent w w') w'"
  shows "wp (dispatch_and_finalize j a bytes digest token) Q E w"
proof -
  let ?P = "licensed token key bytes"
  let ?Q = "\<lambda>renewal. wp (case renewal of
       Inl _ \<Rightarrow>
         ret (Outcome (job_error Outcome_local_persistence_failure False j SUBMITTING 0), False)
     | Inr LeaseLost \<Rightarrow>
         ret (Outcome (job_error Outcome_ownership_lost False j SUBMITTING 0), False)
     | Inr (LeaseRenewed _) \<Rightarrow>
         bind (catching (submit_job (idempotency_key j) bytes)) (\<lambda>http.
         case http of
           Inl _ \<Rightarrow>
             ret (Outcome (job_error Outcome_local_persistence_failure True j SUBMITTING 0), True)
         | Inr http_outcome \<Rightarrow>
             (let ev = classify_submission_outcome http_outcome;
                  sent = (ev_error_category ev \<noteq> Some ''transport_not_sent'')
              in bind (catching (finalize_with j a token ev)) (\<lambda>recorded.
                 case recorded of
                   Inl _ \<Rightarrow>
                     ret (Outcome (job_error Outcome_local_persistence_failure sent j SUBMITTING 0),
                          sent)
                 | Inr result \<Rightarrow> after_finalization j a token digest ev sent result)))) Q E"
  have quiet_end: "Q (Outcome out, False) w'" if "unsent ?P w w'" "vouched (durable w') (job_id j) out" for out w'
    using Q[of w' out] that by (simp add: dispatching_def unsent_maybe)
  have err: "E e w'" if "unsent ?P w w'" "\<not> is_exception e" for e w'
    using that by (intro E) (simp_all add: dispatching_def escapes_def)
  have cancelled: "wp (thn (catching (finalize_with j a token not_sent_evidence)) (raise CancelledError)) ?Q E w1"
    if w1: "unsent ?P w w1" for w1
    unfolding wp_thn
  proof (rule run_finalize_with[OF _ assms(1) auth])
    show "runs ?P w w1" using w1 by (simp add: unsent_def)
    show "evidence_ok not_sent_evidence" by (simp add: not_sent_evidence_def evidence_ok_def)
  qed (auto simp: wp_raise is_exception_def intro!: err unsent_after[OF w1])
  show ?thesis
    unfolding dispatch_and_finalize_def wp_bind[of "try_except _ _"] wp_try_except
      wp_bind[of "renewal_before_dispatch _ _ _"] wp_ret[of "Inr _"]
  proof (rule run_renewal_before_dispatch[OF assms(1)])
    fix e w' assume w': "unsent ?P w w'"
    show "wp (if e = CancelledError
        then thn (catching (finalize_with j a token not_sent_evidence)) (raise e)
        else if is_exception e then ret (Inl e) else raise e) ?Q E w'"
    proof (cases "e = CancelledError")
      case True
      with cancelled[OF w'] show ?thesis by (simp only: refl if_True)
    next
      case False
      with quiet_end[OF w'] err[OF w'] show ?thesis by (simp add: wp_ret wp_raise)
    qed
  next
    fix w' assume "unsent ?P w w'"
    then show "?Q (Inr LeaseLost) w'" using quiet_end by (simp add: wp_ret)
  next
    fix t w' assume *: "unsent ?P w w'" "\<And>key bytes. authorized_attempt (durable w) key bytes token j a \<Longrightarrow>
       in_flight token key bytes (durable w')"
    show "?Q (Inr (LeaseRenewed t)) w'"
      unfolding sum.case lease_renewal_result.case
      by (rule run_post[OF *(1) assms(1,2) auth *(2)[OF auth]]) (auto intro: E Q again)
  qed
qed

end
