(* ===== verification/Runs.thy ===== *)
theory Runs
  imports Dispatch Bindings
begin

text \<open>
  The submission loop and \<open>run_submit\<close> as a whole: what one pass does after the
  pre-side-effect transaction, and the invariant that carries the loop.
\<close>

section \<open>One pass\<close>

text \<open>At most one POST and at most three GETs.\<close>

definition pass :: "(event \<Rightarrow> bool) \<Rightarrow> world \<Rightarrow> world \<Rightarrow> bool" where
  "pass P w w' \<longleftrightarrow>
     runs P w w' \<and> post_n w \<le> post_n w' \<and> post_n w' \<le> Suc (post_n w)
     \<and> get_n w \<le> get_n w' \<and> get_n w' \<le> get_n w + 3"

lemma pass_refl [simp]: "pass P w w"
  by (simp add: pass_def)

lemma pass_dispatching: "dispatching P w w' \<Longrightarrow> pass P w w'"
  by (auto simp: dispatching_def pass_def unsent_def dispatched_def)

lemma pass_waits: "waits P w w w' \<Longrightarrow> pass P w w'"
  by (auto simp: pass_def waits_def)

lemma pass_recovering: "recovering P w w w' \<Longrightarrow> pass P w w'"
  by (auto simp: pass_def recovering_def)

lemma maybe_sent_same: "post_n w' = post_n w1 \<Longrightarrow> maybe_sent w w' = maybe_sent w w1"
  by (simp add: maybe_sent_def)

lemma maybe_sent_none: "post_n w' = post_n w \<Longrightarrow> \<not> maybe_sent w w'"
  by (simp add: maybe_sent_def)

lemma maybe_sent_trans:
  assumes "post_n w \<le> post_n w1" "post_n w1 \<le> post_n w2" "the_env w1 = the_env w"
  shows "maybe_sent w w2 \<longleftrightarrow> maybe_sent w w1 \<or> maybe_sent w1 w2"
  using assms by (auto simp: maybe_sent_def) (meson le_trans less_le_trans not_le)+

lemma vouched_with_submitted: "vouched d jid (with_submitted sent out) = vouched d jid out"
  by (simp add: vouched_def with_submitted_def attests_def split: submit_outcome.split)

text \<open>
  What a reported success stands for: the durable Job of the key with the submitted payload has
  succeeded, by the attempt, the HTTP status and the remote request id of the report.
\<close>

definition backed :: "string \<Rightarrow> payload \<Rightarrow> database \<Rightarrow> submit_outcome \<Rightarrow> bool" where
  "backed key bytes d out \<longleftrightarrow>
     (case out of
        SubmitSuccess r \<Rightarrow>
          (\<exists>j\<in>set (jobs d). \<exists>a\<in>set (submission_attempts d).
             job_id j = success_job_id r \<and> idempotency_key j = key \<and> payload_canonical j = bytes
             \<and> jstate j = SUCCEEDED \<and> attempt_job_id a = job_id j \<and> attests a r)
      | SubmitError _ \<Rightarrow> True)"

lemma backed_simps [simp]:
  "backed key bytes d (submit_error out sent k s i c)" "backed key bytes d (job_error out sent j s' c)"
  "backed key bytes d (with_history items out') = backed key bytes d out'"
  by (simp_all add: backed_def submit_error_def job_error_def with_history_def attests_def
      split: submit_outcome.split)

lemma shape_succeeded:
  assumes "job_shape j as" "a \<in> set as" "astate a = A_SUCCEEDED"
  shows "jstate j = SUCCEEDED"
proof -
  have ne: "as \<noteq> []" using assms(2) by auto
  then have "a \<in> set (butlast as) \<or> a = last as"
    using assms(2) by (metis append_butlast_last_id in_set_butlastD in_set_conv_decomp rotate1.simps(2)
        set_ConsD set_rotate1)
  with assms(1,3) have "a = last as" by (auto simp: job_shape_def)
  with assms(1,3) ne show ?thesis
    by (auto simp: job_shape_def last_fits_def split: job_state.splits)
qed

lemma admission_completed:
  assumes "admission now expires supplied key bytes token d (AlreadyCompleted j a) d'" "db_ok d"
  shows "success_evidence_ok a" "recorded d' (job_id j) a" "astate a = A_SUCCEEDED"
    "select_job d' (job_id j) = Some j" "idempotency_key j = key" "payload_canonical j = bytes"
proof -
  from assms(1) have l: "find_job_by_key d key = Some j" "payload_canonical j = bytes"
    "find_successful_attempt d (job_id j) = Some a" "success_evidence_ok a" "d' = d"
    by (auto elim!: admissionE routingE elim: authorizationE)
  from l(3) have one: "filter (\<lambda>r. attempt_job_id r = job_id j \<and> astate r = A_SUCCEEDED) (submission_attempts d) = [a]"
    by (auto simp: find_successful_attempt_def split: list.splits)
  have "a \<in> set (filter (\<lambda>r. attempt_job_id r = job_id j \<and> astate r = A_SUCCEEDED) (submission_attempts d))"
    unfolding one by simp
  then show "success_evidence_ok a" "recorded d' (job_id j) a" "astate a = A_SUCCEEDED"
    "select_job d' (job_id j) = Some j" "idempotency_key j = key" "payload_canonical j = bytes"
    using l find_job_by_keyD[OF l(1)] db_okD(2)[OF assms(2)]
    by (auto simp: recorded_def select_job_iff)
qed

lemma recorded_backed:
  assumes "success_job_id r = jid" "recorded d jid a" "attests a r" "db_ok d0" "db_steps d0 d"
    "select_job d0 jid = Some j" "idempotency_key j = key" "payload_canonical j = bytes"
  shows "backed key bytes d (SubmitSuccess r)"
proof -
  have ok: "db_ok d" using assms(5,4) by (rule db_steps_ok)
  from db_le_select_job[OF db_steps_le[OF assms(5,4)] ok assms(6)] obtain j' where
    j': "select_job d jid = Some j'" "job_le j j'" .
  note row = select_jobD[OF j'(1)]
  have "a \<in> set (attempts_of d (job_id j'))" "astate a = A_SUCCEEDED"
    using assms(2,3) row by (auto simp: recorded_def attests_def attempts_of_job)
  then have "jstate j' = SUCCEEDED" using shape_succeeded[OF job_shape_of[OF ok]] row by blast
  with assms(1-3,7,8) j'(2) row show ?thesis
    by (auto simp: backed_def recorded_def job_le_def intro!: bexI[of _ j'] bexI[of _ a])
qed

lemma vouched_backed:
  assumes "vouched d jid out" "db_ok d0" "db_steps d0 d" "select_job d0 jid = Some j"
    "idempotency_key j = key" "payload_canonical j = bytes"
  shows "backed key bytes d out"
proof (cases out)
  case (SubmitSuccess r)
  with assms(1) obtain a where "success_job_id r = jid" "recorded d jid a" "attests a r"
    by (auto simp: vouched_def)
  from recorded_backed[OF this assms(2-6)] SubmitSuccess show ?thesis by simp
qed (simp add: backed_def)

text \<open>What stands behind a success stays: the Job and its attempts are final.\<close>

lemma backed_steps:
  assumes "backed key bytes d out" "db_ok d" "db_steps d d'"
  shows "backed key bytes d' out"
proof (cases out)
  case (SubmitSuccess r)
  with assms(1) obtain j a where j: "j \<in> set (jobs d)" "jstate j = SUCCEEDED"
    and a: "a \<in> set (submission_attempts d)" "attests a r"
    and eq: "job_id j = success_job_id r" "idempotency_key j = key" "payload_canonical j = bytes"
      "attempt_job_id a = job_id j"
    unfolding backed_def by auto
  have le: "db_le d d'" using assms(3,2) by (rule db_steps_le)
  obtain j' where "j' \<in> set (jobs d')" "job_le j j'"
    using le extends_member[of job_le "jobs d" "jobs d'" j] j(1) by (auto simp: db_le_def)
  then have "j \<in> set (jobs d')" using j(2) by (simp add: job_le_def terminal_state_def)
  moreover obtain a' where "a' \<in> set (submission_attempts d')" "attempt_le a a'"
    using le extends_member[of attempt_le "submission_attempts d" "submission_attempts d'" a] a(1)
    by (auto simp: db_le_def)
  then have "a \<in> set (submission_attempts d')" using a(2) by (simp add: attempt_le_def attests_def)
  ultimately show ?thesis
    unfolding SubmitSuccess backed_def submit_outcome.case using j(2) a(2) eq
    by (intro bexI[of _ j] bexI[of _ a] conjI)
qed (simp add: backed_def)

lemma run_handle_dispatched:
  assumes w1: "dispatching (licensed token key bytes) w w1" and sent: "sent = maybe_sent w w1"
    and again: "\<And>j a. step = RetryEligibleAfterDispatch j a \<Longrightarrow>
       dispatched (licensed token key bytes) w 0 w1 \<and> idempotency_key j = key
       \<and> completed_at a \<noteq> None \<and> retry_after_ms a \<noteq> None"
    and vouched: "\<And>out. step = Outcome out \<Longrightarrow> vouched (durable w1) jid out"
    and E: "\<And>e w'. pass (licensed token key bytes) w w' \<Longrightarrow> escapes e \<Longrightarrow> E e w'"
    and Q: "\<And>out w'. pass (licensed token key bytes) w w' \<Longrightarrow>
       flag_of out = (submitted_this_invocation st \<or> maybe_sent w w') \<Longrightarrow>
       vouched (durable w') jid out \<Longrightarrow> Q (Inl out) w'"
    and more: "\<And>st' w'. pass (licensed token key bytes) w w' \<Longrightarrow> get_n w' = get_n w \<Longrightarrow>
       current_key st' = Some key \<Longrightarrow>
       submitted_this_invocation st' = (submitted_this_invocation st \<or> maybe_sent w w') \<Longrightarrow>
       Q (Inr st') w'"
  shows "wp (handle_dispatched st step sent) Q E w1"
proof (cases step)
  case (Outcome out)
  then show ?thesis
    using vouched[OF Outcome]
    by (auto simp: handle_dispatched_def wp_ret sent vouched_with_submitted intro!: Q pass_dispatching[OF w1])
next
  case (RetryEligibleAfterDispatch j a)
  let ?P = "licensed token key bytes"
  from again[OF RetryEligibleAfterDispatch] obtain t ms where
    d: "dispatched ?P w 0 w1" and key: "idempotency_key j = key"
    and a: "completed_at a = Some t" "retry_after_ms a = Some ms" by auto
  have w': "pass ?P w w' \<and> get_n w' = get_n w \<and> maybe_sent w w' = maybe_sent w w1"
    if "waits ?P w w1 w'" for w'
    using that d by (auto simp: waits_def pass_def dispatched_def intro!: maybe_sent_same)
  have wait: "wp (wait_if_it_fits when) Q' E w1"
    if "\<And>r w'. waits ?P w w1 w' \<Longrightarrow> Q' r w'" for "when" Q'
    by (rule run_wait_if_it_fits[OF dispatched_runs[OF d] harmless_licensed])
      (auto simp: escapes_def intro!: that E dest: w')
  have "waits ?P w w1 w1" using d by (simp add: dispatched_def waits_refl)
  note now = w'[OF this]
  have out: "Q (Inl (job_error Outcome_retry_scheduled (submitted_this_invocation st \<or> sent) j
      RETRY_SCHEDULED 0)) w'" if "waits ?P w w1 w'" for w'
    using w'[OF that] sent by (intro Q) simp_all
  have cont: "Q (Inr (st\<lparr>submitted_this_invocation := submitted_this_invocation st \<or> sent,
      current_key := Some (idempotency_key j), known_job_id := Some (job_id j)\<rparr>)) w'"
    if "waits ?P w w1 w'" for w'
    using w'[OF that] sent key by (intro more) simp_all
  show ?thesis
    using now RetryEligibleAfterDispatch a
    by (auto simp: handle_dispatched_def Let_def wp_bind parsed_timestamp_def wp_ret wp_raise escapes_def
        split: option.split intro!: wait out cont E)
qed

section \<open>After the pre-side-effect transaction\<close>

definition already_completed :: "submit_outcome \<Rightarrow> bool" where
  "already_completed out \<longleftrightarrow>
     (case out of SubmitSuccess r \<Rightarrow> success_outcome r = Outcome_already_completed | SubmitError _ \<Rightarrow> False)"

text \<open>The flag an outcome should have; \<open>already_completed\<close> is the one branch that never sets it.\<close>

definition flag_ok :: "bool \<Rightarrow> submit_outcome \<Rightarrow> bool" where
  "flag_ok sent out \<longleftrightarrow> flag_of out = (sent \<and> \<not> already_completed out)"

lemma not_already_completed [simp]:
  "vouched d jid out \<Longrightarrow> \<not> already_completed out"
  "\<not> already_completed (submit_error o' sent k s i c)" "\<not> already_completed (job_error o' sent j s' c)"
  by (simp_all add: already_completed_def vouched_def submit_error_def job_error_def split: submit_outcome.splits)

lemma run_handle_pre_result:
  assumes sound: "sound w" and ok: "outcomes_ok (the_env w)"
    and adm: "admission now expires current key bytes token d r (durable w)" "db_ok d"
    and conflict: "r = IdempotencyConflict \<Longrightarrow> supplied \<noteq> None \<and> \<not> submitted_this_invocation st"
    and E: "\<And>e w'. pass (licensed token key bytes) w w' \<Longrightarrow> escapes e \<Longrightarrow> E e w'"
    and Q: "\<And>out w'. pass (licensed token key bytes) w w' \<Longrightarrow>
       flag_ok (submitted_this_invocation st \<or> maybe_sent w w') out \<Longrightarrow>
       backed key bytes (durable w') out \<Longrightarrow> Q (Inl out) w'"
    and more: "\<And>st' w'. pass (licensed token key bytes) w w' \<Longrightarrow> get_n w' = get_n w \<Longrightarrow>
       current_key st' = Some key \<Longrightarrow> r \<noteq> IdempotencyConflict \<Longrightarrow>
       submitted_this_invocation st' = (submitted_this_invocation st \<or> maybe_sent w w') \<Longrightarrow>
       Q (Inr st') w'"
  shows "wp (handle_pre_result supplied bytes digest token lease st r) Q E w"
proof -
  let ?P = "licensed token key bytes"
  have here: "Q (Inl (submit_error o' (submitted_this_invocation st) k s i c)) w"
    "Q (Inl (job_error o' (submitted_this_invocation st) j s' c)) w" for o' k s i c j s'
    by (intro Q; simp add: flag_ok_def maybe_sent_none)+
  have backed: "backed key bytes (durable w') out"
    if "vouched (durable w') (job_id j) out" "select_job (durable w) (job_id j) = Some j"
      "idempotency_key j = key" "payload_canonical j = bytes" "pass ?P w w'" for out w' j
    using vouched_backed[OF that(1) _ _ that(2-4)] that(5) sound
    by (auto simp: pass_def runs_def progress_def sound_def)
  show ?thesis
  proof (cases r)
    case (ReadyToSubmit j a t)
    have auth: "authorized_attempt (durable w) key bytes token j a"
      using adm ReadyToSubmit by (blast intro: admission_ready)
    let ?st = "st\<lparr>known_job_id := Some (job_id j)\<rparr>"
    have row: "select_job (durable w) (job_id j) = Some j" "idempotency_key j = key" "payload_canonical j = bytes"
      using auth by (simp_all add: authorized_attempt_def)
    have res: "Q (Inl out) w'" if "pass ?P w w'" "vouched (durable w') (job_id j) out"
      "flag_of out = (submitted_this_invocation st \<or> maybe_sent w w')" for out w'
      using backed[OF that(2) row that(1)] that(1,3) not_already_completed(1)[OF that(2)]
      by (intro Q) (simp_all add: flag_ok_def)
    have step: "wp (handle_dispatched ?st step sent) Q E w1"
      if "dispatching ?P w w1" "sent = maybe_sent w w1"
        "\<And>j a. step = RetryEligibleAfterDispatch j a \<Longrightarrow>
           dispatched ?P w 0 w1 \<and> idempotency_key j = key
           \<and> completed_at a \<noteq> None \<and> retry_after_ms a \<noteq> None"
        "\<And>out. step = Outcome out \<Longrightarrow> vouched (durable w1) (job_id j) out" for step sent w1
      using that by (rule run_handle_dispatched)
        (use ReadyToSubmit in \<open>auto intro: E res more\<close>)
    have raised: "Q (Inl (job_error Outcome_local_persistence_failure True j SUBMITTING 0)) w1"
      if "dispatching ?P w w1" "maybe_sent w w1" for w1
      using pass_dispatching[OF that(1)] that(2) by (intro Q) (simp_all add: flag_ok_def)
    show ?thesis
      unfolding handle_pre_result_def Let_def ReadyToSubmit pre_side_effect_result.case
        wp_bind[of "catching _"] wp_catching
      by (rule run_dispatch[OF sound ok auth])
        (auto simp: wp_ret intro!: step raised E intro: pass_dispatching dispatched_dispatching)
  next
    case (AlreadyCompleted j a)
    note fin = admission_completed[OF adm(1)[unfolded AlreadyCompleted] adm(2)]
    have "backed key bytes (durable w) (SubmitSuccess r)" if "success_job_id r = job_id j" "attests a r" for r
      using recorded_backed[OF that(1) fin(2) that(2) _ rtranclp.rtrancl_refl fin(4-6)] sound
      by (simp add: sound_def)
    with fin show ?thesis
      unfolding handle_pre_result_def Let_def AlreadyCompleted pre_side_effect_result.case wp_bind wp_asks
      by (intro run_submit_success)
        (auto simp: wp_ret flag_ok_def flag_of_def already_completed_def intro!: Q)
  next
    case IdempotencyConflict
    then show ?thesis using conflict here by (simp add: handle_pre_result_def wp_thn wp_asserting wp_ret)
  next
    case (NotYetEligible j t)
    have key: "idempotency_key j = key" using adm(1) unfolding NotYetEligible by (rule admission_deferred)
    have end_: "pass ?P w w'" "\<not> maybe_sent w w'" "get_n w' = get_n w" if "waits ?P w w w'" for w'
      using that by (auto simp: pass_waits waits_def maybe_sent_none)
    show ?thesis
      unfolding handle_pre_result_def Let_def NotYetEligible pre_side_effect_result.case wp_bind
      by (rule run_wait_if_it_fits[OF runs_refl harmless_licensed[of token key bytes]])
        (auto simp: wp_ret escapes_def flag_ok_def end_ key NotYetEligible intro!: E Q more)
  next
    case (RecoveryCandidate j a)
    note cand = admission_recovery[OF adm(1)[unfolded RecoveryCandidate] adm(2)]
    have known: "known_attempt (durable w) (job_id j) (attempt_id a) (attempt_number a)"
      using cand by (simp add: known_attempt_def)
    have end_: "pass ?P w w'" "\<not> maybe_sent w w'" if "recovering ?P w w w'" for w'
      using that by (auto simp: pass_recovering recovering_def maybe_sent_none)
    show ?thesis
      unfolding handle_pre_result_def Let_def RecoveryCandidate pre_side_effect_result.case
        wp_bind[of "recover_and_reconcile _ _ _ _"]
      by (rule run_recover[OF runs_refl sound harmless_licensed[of token key bytes] ok known])
        (auto simp: wp_ret wp_bind flag_ok_def end_ cand(1-6) RecoveryCandidate
          intro!: E Q more run_render backed[where j = j])
  qed (auto simp: handle_pre_result_def wp_ret intro!: here)
qed

section \<open>The loop\<close>

text \<open>
  The invariant: the flag is exact, no GET was sent, every POST so far is licensed by the key in
  use, and from the second pass on that key is bound to the submitted payload, so that no later
  pass can meet a conflict.
\<close>

definition looping :: "world \<Rightarrow> string option \<Rightarrow> payload \<Rightarrow> string \<Rightarrow> invocation \<Rightarrow> world \<Rightarrow> bool" where
  "looping w0 supplied bytes token st w \<longleftrightarrow>
     get_n w = get_n w0
     \<and> submitted_this_invocation st = maybe_sent w0 w
     \<and> (\<forall>k. (current_key st = None \<or> current_key st = Some k) \<longrightarrow> runs (licensed token k bytes) w0 w)
     \<and> (supplied \<noteq> None \<longrightarrow> current_key st = supplied)
     \<and> (current_key st = supplied \<and> post_n w = post_n w0
        \<or> (\<exists>k. current_key st = Some k \<and> bound k bytes (durable w)))"

text \<open>How an invocation ends: the events of one key, at most three GETs.\<close>

definition ended :: "world \<Rightarrow> string option \<Rightarrow> payload \<Rightarrow> string \<Rightarrow> world \<Rightarrow> bool" where
  "ended w0 supplied bytes token w' \<longleftrightarrow>
     (\<exists>key. (supplied \<noteq> None \<longrightarrow> supplied = Some key) \<and> runs (licensed token key bytes) w0 w')
     \<and> get_n w' \<le> get_n w0 + 3"

text \<open>The success it may report.\<close>

definition confirmed :: "string option \<Rightarrow> payload \<Rightarrow> world \<Rightarrow> submit_outcome \<Rightarrow> bool" where
  "confirmed supplied bytes w' out \<longleftrightarrow>
     (\<exists>key. (supplied \<noteq> None \<longrightarrow> supplied = Some key) \<and> backed key bytes (durable w') out)"

lemma confirmed_simps [simp]:
  "confirmed supplied bytes w' (submit_error out sent k s i c)"
  "confirmed supplied bytes w' (with_history items out') = confirmed supplied bytes w' out'"
  "confirmed supplied bytes (close_connection w') out' = confirmed supplied bytes w' out'"
  by (auto simp: confirmed_def close_connection_def)

lemma close_durable [simp]: "durable (close_connection w) = durable w"
  by (simp add: close_connection_def)

lemma runs_posts: "runs P w w' \<Longrightarrow> post_n w \<le> post_n w'"
  by (auto simp: runs_def)

lemma looping_ended:
  assumes "looping w0 supplied bytes token st w"
  shows "ended w0 supplied bytes token w"
proof -
  obtain k where k: "current_key st = None \<or> current_key st = Some k" "supplied \<noteq> None \<longrightarrow> supplied = Some k"
    using assms by (cases "current_key st") (auto simp: looping_def)
  with assms have "runs (licensed token k bytes) w0 w" by (auto simp: looping_def)
  with k assms show ?thesis by (auto simp: ended_def looping_def)
qed

lemma run_submission_loop:
  assumes sound: "sound w0" and ok: "outcomes_ok (the_env w0)"
    and "looping w0 supplied bytes token st w"
    and E: "\<And>e w'. ended w0 supplied bytes token w' \<Longrightarrow> escapes e \<Longrightarrow> E e w'"
    and Q: "\<And>out w'. ended w0 supplied bytes token w' \<Longrightarrow> flag_ok (maybe_sent w0 w') out \<Longrightarrow>
       confirmed supplied bytes w' out \<Longrightarrow> Q out w'"
  shows "wp (submission_loop n supplied bytes digest token lease st) Q E w"
  using assms(3)
proof (induction n arbitrary: st w)
  case 0
  then show ?case by (auto simp: wp_raise escapes_def is_exception_def intro!: E looping_ended)
next
  case (Suc n)
  note w = Suc.prems
  have any_run: "\<exists>k. runs (licensed token k bytes) w0 w" using looping_ended[OF w] by (auto simp: ended_def)
  then have sw: "sound w" and posts: "post_n w0 \<le> post_n w" and env: "the_env w = the_env w0"
    using sound_runs[OF sound] runs_posts runs_env by blast+
  have failed: "looping w0 supplied bytes token st w'" if "after (\<lambda>_. False) w w w'" for w'
  proof -
    have r: "runs P w w'" for P using that runs_mono[of "\<lambda>_. False" w w' P] by (auto simp: after_def)
    have "bound k bytes (durable w')" if "bound k bytes (durable w)" for k
      using bound_steps[OF that] r sw by (auto simp: runs_def progress_def sound_def)
    moreover have same: "post_n w' = post_n w" "get_n w' = get_n w"
      using that by (simp_all add: after_def quiet_def)
    moreover have "maybe_sent w0 w' = maybe_sent w0 w" using same(1) by (rule maybe_sent_same)
    ultimately show ?thesis using w runs_trans[OF _ r] unfolding looping_def by metis
  qed
  let ?next = "\<lambda>next. case next of Inl out \<Rightarrow> ret out
      | Inr st' \<Rightarrow> submission_loop n supplied bytes digest token lease st'"
  have handle: "wp (bind (handle_pre_result supplied bytes digest token lease st r) ?next) Q E w1"
    if w1: "after (\<lambda>_. False) w w w1" and adm: "admission now expires (current_key st) key bytes token d r (durable w1)"
      "db_ok d" "db_steps (durable w) d" "current_key st \<noteq> None \<Longrightarrow> current_key st = Some key" for r key d w1 now expires
  proof -
    have r: "runs P w w1" for P using w1 runs_mono[of "\<lambda>_. False" w w1 P] by (auto simp: after_def)
    have s1: "sound w1" using sound_runs[OF sw r] .
    have run: "runs (licensed token key bytes) w0 w1"
      using w adm(4) r by (cases "current_key st") (auto simp: looping_def intro: runs_trans)
    have same: "post_n w1 = post_n w" "get_n w1 = get_n w0" "the_env w1 = the_env w0"
      using w1 w env by (auto simp: after_def quiet_def looping_def)
    have sup: "supplied \<noteq> None \<longrightarrow> supplied = Some key"
      using w adm(4) by (auto simp: looping_def)
    have sent: "maybe_sent w0 w' = (submitted_this_invocation st \<or> maybe_sent w1 w')"
      if "pass P w1 w'" for P w'
      using maybe_sent_trans[of w0 w1 w'] that same posts w maybe_sent_same[of w1 w w0]
      by (simp add: pass_def looping_def)
    have fin: "ended w0 supplied bytes token w'" if "pass (licensed token key bytes) w1 w'" for w'
      using that run sup same(2) by (auto simp: ended_def pass_def intro: runs_trans)
    have conflict: "supplied \<noteq> None \<and> \<not> submitted_this_invocation st" if "r = IdempotencyConflict"
    proof -
      note c = admission_conflict[OF adm(1)[unfolded that] adm(2)]
      have "\<not> (\<exists>k. current_key st = Some k \<and> bound k bytes (durable w))"
        using c(2) adm(3,4) bound_steps sw by (auto simp: sound_def)
      with w c(1) show ?thesis by (auto simp: looping_def maybe_sent_none)
    qed
    show ?thesis
      unfolding wp_bind
    proof (rule run_handle_pre_result[OF s1 _ adm(1,2) conflict])
      show "outcomes_ok (the_env w1)" using ok same by simp
    next
      fix e w' assume "pass (licensed token key bytes) w1 w'" "escapes e"
      then show "E e w'" by (intro E fin)
    next
      fix out w' assume p: "pass (licensed token key bytes) w1 w'"
        "flag_ok (submitted_this_invocation st \<or> maybe_sent w1 w') out" "backed key bytes (durable w') out"
      then have "Q out w'" using sent[OF p(1)] sup by (intro Q fin) (auto simp: confirmed_def)
      then show "wp (?next (Inl out)) Q E w'" by (simp add: wp_ret)
    next
      fix st' :: invocation and w'
      assume p: "pass (licensed token key bytes) w1 w'" "get_n w' = get_n w1" "current_key st' = Some key"
        "r \<noteq> IdempotencyConflict"
        "submitted_this_invocation st' = (submitted_this_invocation st \<or> maybe_sent w1 w')"
      have "bound key bytes (durable w1)" using adm(1,2) p(4) by (rule admission_bound)
      then have "bound key bytes (durable w')"
        using bound_steps p(1) s1 by (auto simp: pass_def runs_def progress_def sound_def)
      then have "looping w0 supplied bytes token st' w'"
        using p sent[OF p(1)] sup same run by (auto simp: looping_def pass_def intro: runs_trans)
      from Suc.IH[OF this] show "wp (?next (Inr st')) Q E w'" by simp
    qed
  qed
  show ?case
    unfolding submission_loop.simps wp_bind[of "catching _"] wp_catching wp_with_fuel
  proof (rule run_pre_side_effect[OF runs_refl sw])
    fix e w' assume "after (\<lambda>_. False) w w w'"
    note l = failed[OF this]
    from Q[OF looping_ended[OF l], of "submit_error Outcome_local_persistence_failure
        (submitted_this_invocation st) (current_key st) None (known_job_id st) 0"] E[OF looping_ended[OF l], of e] l
    show "if is_exception e then wp (case Inl e of Inl _ \<Rightarrow> ret (submit_error
           Outcome_local_persistence_failure (submitted_this_invocation st) (current_key st) None
           (known_job_id st) 0)
         | Inr pre_result \<Rightarrow> bind (handle_pre_result supplied bytes digest token lease st pre_result) ?next) Q E w'
       else E e w'"
      by (simp add: wp_ret escapes_def flag_ok_def looping_def)
  qed (auto intro!: handle)
qed

section \<open>The invocation\<close>

text \<open>
  Reading the history changes nothing and can only fail with an \<open>OperationalError\<close>; between its
  statements the others commit.
\<close>

definition reads :: "world \<Rightarrow> world \<Rightarrow> bool" where
  "reads w w' \<longleftrightarrow> quiet w w' \<and> progress w w'"

lemma reads_refl [simp]: "reads w w"
  by (simp add: reads_def)

lemma reads_trans: "reads w w1 \<Longrightarrow> reads w1 w2 \<Longrightarrow> reads w w2"
  by (auto simp: reads_def intro: quiet_trans progress_trans)

lemma run_select:
  assumes "sound w" "\<And>a w'. reads w w' \<Longrightarrow> Q a w'" "\<And>w'. reads w w' \<Longrightarrow> E OperationalError w'"
  shows "wp (select q) Q E w"
  using assms(2,3) others_progress[OF assms(1)] by (simp add: wp_select reads_def Let_def split: fault.split)

lemma run_history_items:
  assumes "sound w0" "reads w0 w" "\<And>a w'. reads w0 w' \<Longrightarrow> Q a w'" "\<And>w'. reads w0 w' \<Longrightarrow> E OperationalError w'"
  shows "wp (history_items as) Q E w"
  using assms
proof (induction as arbitrary: w Q)
  case Nil
  then show ?case by (simp add: wp_ret)
next
  case (Cons a as)
  have tail: "wp (bind (history_items as) (\<lambda>items. ret (history_item a count final # items))) Q E w1"
    if "reads w0 w1" for count final w1
    unfolding wp_bind wp_ret using Cons.prems(3,4) by (intro Cons.IH[OF Cons.prems(1) that]) auto
  have sel: "wp (select q) Q' E w1" if "reads w0 w1" "\<And>x w'. reads w0 w' \<Longrightarrow> Q' x w'" for q Q' w1
  proof (rule run_select)
    show "sound w1" using sound_progress[OF Cons.prems(1)] that(1) by (simp add: reads_def)
  qed (use that Cons.prems(4) in \<open>auto intro: reads_trans\<close>)
  show ?case
    using tail Cons.prems(2) by (auto simp: wp_bind wp_ret intro!: sel)
qed

lemma run_read_attempt_history:
  assumes "sound w" "\<And>a w'. reads w w' \<Longrightarrow> Q a w'" "\<And>w'. reads w w' \<Longrightarrow> E OperationalError w'"
  shows "wp (read_attempt_history jid) Q E w"
  unfolding read_attempt_history_def wp_bind
  using assms by (intro run_select run_history_items) auto

lemma wp_finally_close [wp_simps]:
  "wp (finally_close p) Q E w =
     wp p (\<lambda>a w'. Q a (close_connection w')) (\<lambda>e w'. E e (close_connection w')) w"
  by (simp add: wp_def finally_close_def split: prod.split)

lemma runs_reads: "runs P w w1 \<Longrightarrow> reads w1 w2 \<Longrightarrow> runs P w w2"
  by (auto simp: reads_def intro: runs_trans runs_quiet)

lemma ended_reads:
  "ended w0 supplied bytes token w1 \<Longrightarrow> reads w1 w2 \<Longrightarrow> ended w0 supplied bytes token w2"
  using runs_reads[of _ w0 w1 w2] by (auto simp: ended_def) (auto simp: reads_def quiet_def)

lemma ended_close: "ended w0 supplied bytes token w1 \<Longrightarrow> ended w0 supplied bytes token (close_connection w1)"
  by (simp add: ended_def close_connection_def)

lemma confirmed_reads:
  assumes "confirmed supplied bytes w1 out" "sound w1" "reads w1 w2"
  shows "confirmed supplied bytes w2 out"
  using assms backed_steps unfolding confirmed_def sound_def reads_def progress_def by metis

lemma maybe_sent_reads: "reads w1 w2 \<Longrightarrow> maybe_sent w w2 = maybe_sent w w1"
  by (rule maybe_sent_same) (simp add: reads_def quiet_def)

lemma close_closed [simp]: "open_tx (close_connection w) = None"
  by (simp add: close_connection_def)

lemma maybe_sent_close [simp]: "maybe_sent w (close_connection w1) = maybe_sent w w1"
  by (simp add: maybe_sent_def close_connection_def)

lemma flag_ok_history [simp]: "flag_ok sent (with_history items out) = flag_ok sent out"
  by (simp add: flag_ok_def already_completed_def with_history_def flag_of_def split: submit_outcome.split)

definition invocation_token :: "world \<Rightarrow> string" where
  "invocation_token w = id_at (the_env w) (id_n w)"

lemma run_submit_wp:
  assumes "sound w" "outcomes_ok (the_env w)"
  shows "wp (run_submit supplied bytes)
    (\<lambda>out w'. ended w supplied bytes (invocation_token w) w' \<and> open_tx w' = None
       \<and> flag_ok (maybe_sent w w') out \<and> confirmed supplied bytes w' out)
    (\<lambda>e w'. ended w supplied bytes (invocation_token w) w' \<and> open_tx w' = None \<and> escapes e) w"
    (is "wp _ ?Q ?E w")
proof -
  let ?st = "\<lparr>current_key = supplied, known_job_id = None, submitted_this_invocation = False\<rparr>"
  let ?w = "w\<lparr>id_n := Suc (id_n w)\<rparr>"
  let ?R = "\<lambda>out w'. ?Q out (close_connection w')" and ?F = "\<lambda>e w'. ?E e (close_connection w')"
  have start: "looping w supplied bytes (invocation_token w) ?st ?w"
    by (simp add: looping_def maybe_sent_def)
  have out: "wp (case outcome_job_id out of
        None \<Rightarrow> ret out
      | Some jid \<Rightarrow>
          except_exception
            (bind (read_attempt_history jid) (\<lambda>items. ret (with_history items out)))
            (ret out)) ?R ?F w1"
    if w1: "ended w supplied bytes (invocation_token w) w1" "flag_ok (maybe_sent w w1) out"
      "confirmed supplied bytes w1 out" for out w1
  proof -
    have s1: "sound w1" using w1(1) sound_runs[OF assms(1)] by (auto simp: ended_def)
    have res: "?R out w2" "?R (with_history items out) w2" if "reads w1 w2" for items w2
      using ended_close[OF ended_reads[OF w1(1) that]] confirmed_reads[OF w1(3) s1 that] w1(2)
        maybe_sent_reads[OF that]
      by simp_all
    show ?thesis
    proof (cases "outcome_job_id out")
      case None
      with reads_refl[of w1] res(1) show ?thesis by (simp add: wp_ret)
    next
      case (Some jid)
      then show ?thesis
        unfolding Some option.case wp_except_exception wp_bind wp_ret
        by (intro run_read_attempt_history[OF s1] res(2)) (auto simp: is_exception_def dest: res(1))
    qed
  qed
  show ?thesis
    unfolding run_submit_def run_with_connection_def wp_finally_close wp_bind wp_asks wp_sources wp_with_fuel
      invocation_token_def[symmetric]
  proof (rule run_submission_loop[OF assms start])
    fix e w' assume "ended w supplied bytes (invocation_token w) w'" "escapes e"
    then show "?F e w'" by (auto intro: ended_close)
  qed (rule out)
qed

section \<open>What an invocation leaves\<close>

text \<open>
  The environment an invocation is placed in: other processes move the database by the same
  steps, and the HTTP adapters keep their promises (\<open>Outcomes\<close>).
\<close>

definition fair_start :: "world \<Rightarrow> bool" where
  "fair_start w \<longleftrightarrow> cooperative (the_env w) \<and> db_ok (durable w) \<and> outcomes_ok (the_env w)"

text \<open>The events of a run from \<open>w\<close> to \<open>w'\<close>.\<close>

definition events_between :: "world \<Rightarrow> world \<Rightarrow> event list" where
  "events_between w w' = drop (length (trace w)) (trace w')"

lemma invocation_ends:
  assumes "fair_start w" "run_submit supplied bytes w = (res, w')"
  shows "ended w supplied bytes (invocation_token w) w'" "open_tx w' = None"
    "res = Inr out \<Longrightarrow> flag_ok (maybe_sent w w') out" "res = Inl e \<Longrightarrow> escapes e"
    "res = Inr out \<Longrightarrow> confirmed supplied bytes w' out"
  using run_submit_wp[of w supplied bytes] assms
  by (auto simp: wp_def sound_def fair_start_def split: sum.splits)

lemma events_runs:
  "runs P w w' \<Longrightarrow> list_all P (events_between w w')
     \<and> get_n w' = get_n w + length (filter is_got (events_between w w'))"
  by (auto simp: runs_def events_between_def)

end
