(* ===== verification/Cli.thy ===== *)
theory Cli
  imports Runs Job_Entry Url Schema
begin

text \<open>
  \<open>cli.py\<close> and the head of \<open>run_submit\<close>: the checks of the service URL, the database path, the Job
  Entry and the Idempotency Key, the opening of the connection, the JSON document that is printed
  and the exit code.

  Arguments of the model: \<open>ipaddress.ip_address\<close> (\<open>None\<close> is its \<open>ValueError\<close>, otherwise whether the
  address is loopback), what \<open>pathlib\<close> makes of a path (\<open>Inl\<close> is the text of a \<open>ValueError\<close> or
  \<open>OSError\<close>), the message texts of error outcomes, and the file system and SQLite behind
  \<open>open_connection\<close>, a driver for every path (\<open>Schema\<close>) with the state \<open>files\<close> it works on.  Of
  \<open>argparse\<close> only the parsed arguments appear; its own exits with code 2 come before all this.
  A printed document is the value that is given to \<open>json.dumps\<close>.
\<close>

section \<open>The service URL\<close>

text \<open>A \<open>_CommandInputError\<close> with code and message, or the \<open>ValueError\<close> of \<open>urlsplit\<close>.\<close>

datatype command_error = Command_input_error string string | Uncaught_ValueError

definition invalid_service_url :: "string \<Rightarrow> command_error + 'a" where
  "invalid_service_url message = Inl (Command_input_error ''invalid_service_url'' message)"

definition parse_service_url ::
  "(string \<Rightarrow> bool) \<Rightarrow> (string \<Rightarrow> bool option) \<Rightarrow> string \<Rightarrow> command_error + string \<times> int" where
  "parse_service_url authority_ok ip_address raw =
     (case urlsplit authority_ok raw of
        None \<Rightarrow> Inl Uncaught_ValueError
      | Some parts \<Rightarrow>
          if url_scheme parts \<noteq> ''http'' then invalid_service_url ''--service-url must use the http scheme''
          else if has_userinfo (url_netloc parts)
          then invalid_service_url ''--service-url must not contain credentials''
          else if url_query parts \<noteq> [] \<or> url_fragment parts \<noteq> []
          then invalid_service_url ''--service-url must not contain a query or fragment''
          else if url_path parts \<notin> {[], ''/''}
          then invalid_service_url ''--service-url must not contain a non-root path''
          else (case url_port (url_netloc parts) of
              Inl _ \<Rightarrow> invalid_service_url ''--service-url host or port is malformed''
            | Inr port \<Rightarrow>
                (case url_hostname (url_netloc parts) of
                   None \<Rightarrow> invalid_service_url ''--service-url must include a host''
                 | Some hostname \<Rightarrow>
                     (case ip_address hostname of
                        None \<Rightarrow> invalid_service_url
                          ''--service-url host must be a loopback IP literal, not a hostname''
                      | Some loopback \<Rightarrow>
                          if \<not> loopback
                          then invalid_service_url ''--service-url host must be a loopback IP literal''
                          else Inr (hostname, case port of None \<Rightarrow> 80 | Some p \<Rightarrow> p)))))"

section \<open>The database path\<close>

definition DEFAULT_DATABASE_RELATIVE :: string where
  "DEFAULT_DATABASE_RELATIVE = ''.boolean-maybe/boolean-maybe.sqlite3''"

record paths =
  working_directory :: string
  is_absolute :: "string \<Rightarrow> bool"
  join_path :: "string \<Rightarrow> string \<Rightarrow> string"
  resolve_path :: "string \<Rightarrow> string + string"

definition resolve_database_path :: "paths \<Rightarrow> string option \<Rightarrow> command_error + string" where
  "resolve_database_path os raw =
     (case resolve_path os
        (case raw of
           None \<Rightarrow> join_path os (working_directory os) DEFAULT_DATABASE_RELATIVE
         | Some p \<Rightarrow> if is_absolute os p then p else join_path os (working_directory os) p) of
        Inl reason \<Rightarrow>
          Inl (Command_input_error ''invalid_database_path'' (''--database is not a usable path: '' @ reason))
      | Inr path \<Rightarrow> Inr path)"

section \<open>The head of \<open>run_submit\<close>\<close>

text \<open>
  \<open>ValidationError\<close>, an exception of the validation that is none (\<open>UnicodeEncodeError\<close> of a lone
  surrogate in the argument, \<open>RecursionError\<close>), or what escapes the invocation.
\<close>

datatype request_error = Validation_error ustr | Validation_crash | Escaped exn

definition validate_job_entry ::
  "nat \<Rightarrow> nat \<Rightarrow> (json \<Rightarrow> payload option) \<Rightarrow> (ustr \<Rightarrow> ustr) \<Rightarrow> ustr \<Rightarrow> request_error + payload" where
  "validate_job_entry limit frames rfc8785 reason raw =
     (case encode_utf8 raw of
        None \<Rightarrow> Inl Validation_crash
      | Some raw_bytes \<Rightarrow>
          if int (length raw_bytes) > MAX_JOB_ENTRY_BYTES
          then Inl (Validation_error (ascii ''Job Entry exceeds the 1 MiB size limit''))
          else (case parse_job_entry limit frames raw_bytes of
              Inl JobEntryValidationError \<Rightarrow> Inl (Validation_error (reason raw))
            | Inl Entry_RecursionError \<Rightarrow> Inl Validation_crash
            | Inr entry \<Rightarrow>
                (case canonicalize rfc8785 entry of
                   Inl _ \<Rightarrow> Inl (Validation_error (reason raw))
                 | Inr bytes \<Rightarrow> Inr bytes)))"

text \<open>
  The library calls of the validation and the texts of messages.
\<close>

record libraries =
  scanner_limit :: nat
  frame_limit :: nat
  rfc8785_dumps :: "json \<Rightarrow> payload option"
  entry_reason :: "ustr \<Rightarrow> ustr"
  error_message :: "error_report \<Rightarrow> ustr"
  authority_check :: "string \<Rightarrow> bool"
  ip_address_of :: "string \<Rightarrow> bool option"
  os_paths :: paths

text \<open>
  The connection is opened after both checks and before anything else; the database of the world
  stands for the tables of the file it was opened on.
\<close>

definition submit_request ::
  "libraries \<Rightarrow> (string \<Rightarrow> 's driver) \<Rightarrow> ustr \<Rightarrow> string option \<Rightarrow> string \<Rightarrow> 's \<Rightarrow> world
   \<Rightarrow> (request_error + submit_outcome) \<times> 's \<times> world" where
  "submit_request lib sqlite job_entry_raw supplied_key database_path files w =
     (case validate_job_entry (scanner_limit lib) (frame_limit lib) (rfc8785_dumps lib) (entry_reason lib) job_entry_raw of
        Inl e \<Rightarrow> (Inl e, files, w)
      | Inr bytes \<Rightarrow>
          if (case supplied_key of None \<Rightarrow> False | Some key \<Rightarrow> \<not> is_accepted_key key)
          then (Inl (Validation_error (ascii ''Idempotency Key does not match the accepted grammar'')), files, w)
          else (case open_connection (sqlite database_path) files of
              (Inl _, files') \<Rightarrow>
                (Inr (submit_error Outcome_local_persistence_failure False supplied_key None None 0), files', w)
            | (Inr _, files') \<Rightarrow>
                (case run_submit supplied_key bytes w of
                   (Inl e, w') \<Rightarrow> (Inl (Escaped e), files', w')
                 | (Inr out, w') \<Rightarrow> (Inr out, files', w'))))"

section \<open>The printed document\<close>

definition null_or :: "('a \<Rightarrow> json) \<Rightarrow> 'a option \<Rightarrow> json" where
  "null_or f v = (case v of None \<Rightarrow> JNull | Some a \<Rightarrow> f a)"

text \<open>A text of the durable part, from its UTF-8 octets.\<close>

definition json_text :: "string \<Rightarrow> json" where
  "json_text s = JStr (case decode_utf8 s of Some u \<Rightarrow> u | None \<Rightarrow> ascii s)"

definition member :: "string \<Rightarrow> json \<Rightarrow> ustr \<times> json" where
  "member name v = (ascii name, v)"

definition job_state_name :: "job_state \<Rightarrow> string" where
  "job_state_name s = (case s of PENDING \<Rightarrow> ''PENDING'' | SUBMITTING \<Rightarrow> ''SUBMITTING''
     | RETRY_SCHEDULED \<Rightarrow> ''RETRY_SCHEDULED'' | SUCCEEDED \<Rightarrow> ''SUCCEEDED''
     | FAILED_PERMANENT \<Rightarrow> ''FAILED_PERMANENT'' | AMBIGUOUS \<Rightarrow> ''AMBIGUOUS'')"

definition attempt_state_name :: "attempt_state \<Rightarrow> string" where
  "attempt_state_name s = (case s of A_STARTED \<Rightarrow> ''STARTED'' | A_SUCCEEDED \<Rightarrow> ''SUCCEEDED''
     | A_RETRYABLE_FAILURE \<Rightarrow> ''RETRYABLE_FAILURE'' | A_PERMANENT_FAILURE \<Rightarrow> ''PERMANENT_FAILURE''
     | A_AMBIGUOUS \<Rightarrow> ''AMBIGUOUS'')"

definition success_name :: "success_outcome \<Rightarrow> string" where
  "success_name s = (case s of Outcome_succeeded \<Rightarrow> ''succeeded'' | Outcome_already_completed \<Rightarrow> ''already_completed'')"

definition error_name :: "error_outcome \<Rightarrow> string" where
  "error_name s = (case s of Outcome_idempotency_conflict \<Rightarrow> ''idempotency_conflict''
     | Outcome_job_in_progress \<Rightarrow> ''job_in_progress'' | Outcome_failed_permanent \<Rightarrow> ''failed_permanent''
     | Outcome_retry_exhausted \<Rightarrow> ''retry_exhausted'' | Outcome_ambiguous \<Rightarrow> ''ambiguous''
     | Outcome_submission_deferred \<Rightarrow> ''submission_deferred'' | Outcome_retry_scheduled \<Rightarrow> ''retry_scheduled''
     | Outcome_ownership_lost \<Rightarrow> ''ownership_lost''
     | Outcome_local_persistence_failure \<Rightarrow> ''local_persistence_failure'')"

definition error_object :: "string \<Rightarrow> ustr \<Rightarrow> json" where
  "error_object code message = JObj [member ''code'' (json_text code), member ''message'' (JStr message)]"

definition emit_command_input_error :: "string \<Rightarrow> string \<Rightarrow> json" where
  "emit_command_input_error code message = JObj [
     member ''outcome'' (json_text code), member ''submitted'' (JBool False),
     member ''error'' (error_object code (ascii message))]"

definition emit_validation_error :: "ustr \<Rightarrow> json" where
  "emit_validation_error message = JObj [
     member ''outcome'' (json_text ''invalid_input''), member ''submitted'' (JBool False),
     member ''error'' (error_object ''invalid_input'' message)]"

definition emit_unexpected_failure :: json where
  "emit_unexpected_failure = JObj [
     member ''outcome'' (json_text ''local_persistence_failure''), member ''submitted'' (JBool True),
     member ''idempotency_key'' JNull, member ''state'' JNull,
     member ''error'' (error_object ''local_persistence_failure'' (ascii ''an unexpected internal error occurred''))]"

definition history_item_json :: "attempt_history_item \<Rightarrow> json" where
  "history_item_json item = JObj [
     member ''attempt_id'' (json_text (item_attempt_id item)),
     member ''attempt_number'' (JInt (item_attempt_number item)),
     member ''state'' (json_text (attempt_state_name (item_state item))),
     member ''started_at'' (json_text (item_started_at item)),
     member ''completed_at'' (null_or json_text (item_completed_at item)),
     member ''http_status'' (null_or JInt (item_http_status item)),
     member ''remote_request_id'' (null_or json_text (item_remote_request_id item)),
     member ''error_category'' (null_or json_text (item_error_category item)),
     member ''retry_after_ms'' (null_or JInt (item_retry_after_ms item)),
     member ''reconciliation'' (JObj [
       member ''request_count'' (JInt (item_request_count item)),
       member ''final_category'' (null_or json_text (item_final_category item))])]"

definition attempt_history_json :: "attempt_history_item list option \<Rightarrow> json option" where
  "attempt_history_json items = map_option (\<lambda>is. JArr (map history_item_json is)) items"

definition success_json :: "success_report \<Rightarrow> json" where
  "success_json r = JObj [
     member ''outcome'' (json_text (success_name (success_outcome r))),
     member ''submitted'' (JBool (success_submitted r)),
     member ''job_id'' (json_text (success_job_id r)),
     member ''idempotency_key'' (json_text (success_key r)),
     member ''state'' (json_text (job_state_name (success_state r))),
     member ''attempt'' (JObj [
       member ''attempt_id'' (json_text (success_attempt_id r)),
       member ''attempt_number'' (JInt (success_attempt_number r)),
       member ''http_status'' (JInt (success_http_status r)),
       member ''remote_request_id'' (json_text (success_remote_request_id r))]),
     member ''result'' (JObj [
       member ''status'' (json_text ''processed''),
       member ''payload_digest'' (json_text (success_payload_digest r)),
       member ''remote_request_id'' (json_text (success_remote_request_id r))]),
     member ''reconciliation_requests'' (JInt (success_reconciliation_requests r)),
     member ''attempt_history'' (case attempt_history_json (success_history r) of
        Some (JArr items) \<Rightarrow> JArr items | _ \<Rightarrow> JArr [])]"

definition error_json :: "(error_report \<Rightarrow> ustr) \<Rightarrow> error_report \<Rightarrow> json" where
  "error_json message r = JObj ([
     member ''outcome'' (json_text (error_name (error_outcome r))),
     member ''submitted'' (JBool (error_submitted r)),
     member ''idempotency_key'' (null_or json_text (error_key r)),
     member ''state'' (null_or (\<lambda>s. json_text (job_state_name s)) (error_state r)),
     member ''reconciliation_requests'' (JInt (error_reconciliation_requests r)),
     member ''error'' (error_object (error_name (error_outcome r)) (message r))]
     @ (case error_job_id r of None \<Rightarrow> [] | Some jid \<Rightarrow> [member ''job_id'' (json_text jid)])
     @ (case attempt_history_json (error_history r) of None \<Rightarrow> [] | Some h \<Rightarrow> [member ''attempt_history'' h]))"

text \<open>The document with the exit code.\<close>

definition emit_outcome :: "(error_report \<Rightarrow> ustr) \<Rightarrow> submit_outcome \<Rightarrow> json \<times> int" where
  "emit_outcome message out =
     (case out of
        SubmitSuccess r \<Rightarrow> (success_json r, 0)
      | SubmitError r \<Rightarrow> (error_json message r, 1))"

section \<open>\<open>main\<close>\<close>

record submit_args =
  arg_job_entry :: ustr
  arg_idempotency_key :: "string option"
  arg_database :: "string option"
  arg_service_url :: string

text \<open>\<open>None\<close> is the command line without a command.\<close>

type_synonym command_line = "submit_args option"

text \<open>
  The help text, or a document, with an exit code; or the exception that ends the process: the
  \<open>ValueError\<close> of \<open>urlsplit\<close>, or one that \<open>except Exception\<close> lets through.
\<close>

datatype process_end = Help int | Printed json int | Traceback exn

definition cli_main ::
  "libraries \<Rightarrow> (string \<Rightarrow> 's driver) \<Rightarrow> command_line \<Rightarrow> 's \<Rightarrow> world \<Rightarrow> process_end \<times> 's \<times> world" where
  "cli_main lib sqlite args files w =
     (case args of
        None \<Rightarrow> (Help 0, files, w)
      | Some a \<Rightarrow>
          (case parse_service_url (authority_check lib) (ip_address_of lib) (arg_service_url a) of
             Inl (Command_input_error code message) \<Rightarrow> (Printed (emit_command_input_error code message) 2, files, w)
           | Inl Uncaught_ValueError \<Rightarrow> (Traceback ValueError, files, w)
           | Inr _ \<Rightarrow>
               (case resolve_database_path (os_paths lib) (arg_database a) of
                  Inl (Command_input_error code message) \<Rightarrow> (Printed (emit_command_input_error code message) 2, files, w)
                | Inl Uncaught_ValueError \<Rightarrow> (Traceback ValueError, files, w)
                | Inr path \<Rightarrow>
                    (case submit_request lib sqlite (arg_job_entry a) (arg_idempotency_key a) path files w of
                       (Inl (Validation_error message), files', w') \<Rightarrow>
                         (Printed (emit_validation_error message) 2, files', w')
                     | (Inl Validation_crash, files', w') \<Rightarrow> (Printed emit_unexpected_failure 1, files', w')
                     | (Inl (Escaped e), files', w') \<Rightarrow>
                         if is_exception e then (Printed emit_unexpected_failure 1, files', w')
                         else (Traceback e, files', w')
                     | (Inr out, files', w') \<Rightarrow>
                         (case emit_outcome (error_message lib) out of
                            (body, code) \<Rightarrow> (Printed body code, files', w'))))))"

end
