(* ===== verification/Demonstration.thy ===== *)
theory Demonstration
  imports Runs Samples
begin

text \<open>
  One invocation evaluated from start to end: a new key against a service that accepts the Job.
  It sends one POST and reports a success.  A second one loses its attempt to another process just
  before its POST goes out, and is cancelled.  The theorems about whole invocations are applied to them.
\<close>

lemma sample_run_evaluated:
  "case run_submit (Some ''k1'') ''{}'' (initial_world accepting_env empty_database) of
     (Inr (SubmitSuccess r), w') \<Rightarrow>
       success_submitted r \<and> list_ex (\<lambda>e. case e of Posted k b d0 d \<Rightarrow> True | _ \<Rightarrow> False) (trace w')
   | _ \<Rightarrow> False"
  by code_simp

lemma sample_run:
  obtains r w' k b d0 d where
    "run_submit (Some ''k1'') ''{}'' (initial_world accepting_env empty_database) = (Inr (SubmitSuccess r), w')"
    "success_submitted r" "Posted k b d0 d \<in> set (trace w')"
proof -
  obtain res w' where
    run: "run_submit (Some ''k1'') ''{}'' (initial_world accepting_env empty_database) = (res, w')"
    by fastforce
  with sample_run_evaluated obtain r where r: "res = Inr (SubmitSuccess r)" "success_submitted r"
    and "list_ex (\<lambda>e. case e of Posted k b d0 d \<Rightarrow> True | _ \<Rightarrow> False) (trace w')"
    by (auto split: sum.splits submit_outcome.splits)
  then obtain e where "e \<in> set (trace w')" "case e of Posted k b d0 d \<Rightarrow> True | _ \<Rightarrow> False"
    by (auto simp: list_ex_iff)
  with run r show thesis by (cases e) (auto intro: that)
qed

lemma sample_fair: "fair_start (initial_world accepting_env empty_database)"
  by (simp add: fair_start_def initial_world_def accepting_env_def sample_env_def cooperative_def
      outcomes_ok_def empty_database_ok)

text \<open>
  The same invocation, overtaken: another process claims the attempt after the renewal of the lease
  and before the request goes out, and cancellation arrives while the answer is awaited.
\<close>

definition rescue :: "database \<Rightarrow> database" where
  "rescue d =
     (case submission_attempts d of
        [] \<Rightarrow> d
      | a # _ \<Rightarrow>
          if astate a = A_STARTED
          then (case update_attempt (attempt_id a) (with_claim ''rescuer'' (fencing_generation a + 1) ''9'') d of
              Inl _ \<Rightarrow> d | Inr d' \<Rightarrow> d')
          else d)"

definition rescued_env :: env where
  "rescued_env = accepting_env
     \<lparr>others_at := (\<lambda>n d. if n = 2 then rescue d else d), post_at := (\<lambda>n. Inl CancelledError)\<rparr>"

lemma rescue_steps:
  assumes "db_ok d"
  shows "db_steps d (rescue d)"
proof (cases "submission_attempts d")
  case (Cons a as)
  then have "select_attempt d (attempt_id a) = Some a"
    by (simp add: select_attempt_iff[OF db_okD(2)[OF assms]])
  with Cons show ?thesis
    by (auto simp: rescue_def split: sum.split intro: r_into_rtranclp step_claim)
qed (simp add: rescue_def)

lemma rescued_fair: "fair_start (initial_world rescued_env empty_database)"
  using sample_fair rescue_steps
  by (simp add: fair_start_def initial_world_def rescued_env_def cooperative_def outcomes_ok_def)

definition overtaken :: "event \<Rightarrow> bool" where
  "overtaken e \<longleftrightarrow>
     (case e of
        Posted k b d0 d \<Rightarrow> map owner_token (submission_attempts d) = [Some ''rescuer'']
          \<and> map fencing_generation (submission_attempts d0) = [1]
          \<and> map fencing_generation (submission_attempts d) = [2]
      | _ \<Rightarrow> False)"

lemma overtakenE:
  assumes "overtaken e"
  obtains k b d0 d where "e = Posted k b d0 d" "map owner_token (submission_attempts d) = [Some ''rescuer'']"
    "map fencing_generation (submission_attempts d0) = [1]" "map fencing_generation (submission_attempts d) = [2]"
  using assms by (cases e) (auto simp: overtaken_def)

lemma overtaken_run_evaluated:
  "case run_submit (Some ''k1'') ''{}'' (initial_world rescued_env empty_database) of
     (Inl e, w') \<Rightarrow> e = CancelledError \<and> list_ex overtaken (trace w')
   | _ \<Rightarrow> False"
  by code_simp

lemma overtaken_run:
  obtains w' e where
    "run_submit (Some ''k1'') ''{}'' (initial_world rescued_env empty_database) = (Inl CancelledError, w')"
    "e \<in> set (trace w')" "overtaken e"
proof -
  obtain res w' where
    run: "run_submit (Some ''k1'') ''{}'' (initial_world rescued_env empty_database) = (res, w')"
    by fastforce
  with overtaken_run_evaluated have "res = Inl CancelledError" "list_ex overtaken (trace w')"
    by (auto split: sum.splits)
  with run show thesis by (auto simp: list_ex_iff intro: that)
qed

end
