(* ===== verification/Command_Line.thy ===== *)
theory Command_Line
  imports Cli Demonstration Opening
begin

text \<open>
  What the command line promises: which service URLs it accepts, what its exit code and the
  \<open>submitted\<close> member of its document mean.
\<close>

section \<open>The service URL\<close>

lemma partition_at_join:
  "partition_at c s = (a, found, b) \<Longrightarrow> s = (if found then a @ c # b else a) \<and> (\<not> found \<longrightarrow> b = []) \<and> c \<notin> set a"
proof (induction s arbitrary: a)
  case Nil
  then show ?case by (auto simp: partition_at_def)
next
  case (Cons x s)
  show ?case
  proof (cases "x = c")
    case True
    with Cons.prems show ?thesis by (auto simp: partition_at_def)
  next
    case False
    with Cons.prems obtain a' where "a = x # a'" "partition_at c s = (a', found, b)"
      by (auto simp: partition_at_def)
    with Cons.IH False show ?thesis by auto
  qed
qed

lemma partition_at_append: "c \<notin> set a \<Longrightarrow> partition_at c (a @ c # b) = (a, True, b)"
  by (induction a) (auto simp: partition_at_def)

lemma rpartition_at_absent: "c \<notin> set s \<Longrightarrow> rpartition_at c s = ([], False, s)"
proof -
  assume "c \<notin> set s"
  then have "\<forall>d\<in>set (rev s). d \<noteq> c" by auto
  then have parts: "takeWhile (\<lambda>d. d \<noteq> c) (rev s) = rev s" "dropWhile (\<lambda>d. d \<noteq> c) (rev s) = []"
    by (subst takeWhile_eq_all_conv dropWhile_eq_Nil_conv, assumption)+
  show ?thesis unfolding rpartition_at_def parts using \<open>c \<notin> set s\<close> by simp
qed

lemma urlsplit_text:
  assumes "urlsplit authority_ok raw = Some u" "url_scheme u \<noteq> []" "url_netloc u \<noteq> []"
    "url_query u = []" "url_fragment u = []"
  shows "\<exists>s q f. clean_url raw = s @ ''://'' @ url_netloc u @ url_path u @ q @ f
    \<and> map lower s = url_scheme u \<and> q \<in> {[], ''?''} \<and> f \<in> {[], ''#''}"
proof -
  obtain sch rest where s: "split_scheme (clean_url raw) = (sch, rest)" by fastforce
  obtain loc rest' where l: "split_netloc rest = (loc, rest')" by fastforce
  obtain r1 b1 frag where f: "partition_at (CHR ''#'') rest' = (r1, b1, frag)" by (metis prod_cases3)
  obtain pth b2 qry where q: "partition_at (CHR ''?'') r1 = (pth, b2, qry)" by (metis prod_cases3)
  have u: "u = \<lparr>url_scheme = sch, url_netloc = loc, url_path = pth, url_query = qry, url_fragment = frag\<rparr>"
    using assms(1) s l f q by (auto simp: urlsplit_def Let_def split: if_splits)
  obtain before found after where p: "partition_at (CHR '':'') (clean_url raw) = (before, found, after)"
    by (metis prod_cases3)
  with s u assms(2) have "found" "sch = map lower before" "rest = after"
    by (auto simp: split_scheme_def split: if_splits)
  with partition_at_join[OF p] have clean: "clean_url raw = before @ CHR '':'' # rest" by simp
  from l u assms(3) have "take 2 rest = ''//''" "drop 2 rest = loc @ rest'"
    by (auto simp: split_netloc_def Let_def split: if_splits)
  then have "rest = ''//'' @ loc @ rest'" by (metis append_take_drop_id)
  moreover from partition_at_join[OF f] u assms(5) have "rest' = r1 @ (if b1 then ''#'' else [])" by auto
  moreover from partition_at_join[OF q] u assms(4) have "r1 = pth @ (if b2 then ''?'' else [])" by auto
  ultimately show ?thesis using clean u \<open>sch = map lower before\<close>
    by (intro exI[of _ before] exI[of _ "if b2 then ''?'' else []"] exI[of _ "if b1 then ''#'' else []"]) auto
qed

lemma url_port_bounds: "url_port loc = Inr (Some n) \<Longrightarrow> 0 \<le> n \<and> n \<le> 65535"
  by (auto simp: url_port_def split: option.splits sum.splits if_splits)

text \<open>
  C40. Only loopback services: an accepted service URL is, after the cleaning of controls and white
  space, the scheme \<open>http\<close>, an authority without credentials and no path but the root; its host
  is a loopback address literal and its port a 16-bit number.
\<close>

theorem accepted_service_url_is_loopback:
  assumes "parse_service_url authority_ok ip_address raw = Inr (host, port)"
  shows "ip_address host = Some True \<and> 0 \<le> port \<and> port \<le> 65535
    \<and> (\<exists>s loc rest. clean_url raw = s @ ''://'' @ loc @ rest \<and> map lower s = ''http''
         \<and> url_hostname loc = Some host \<and> CHR ''@'' \<notin> set loc
         \<and> rest \<in> {p @ q @ f | p q f. p \<in> {[], ''/''} \<and> q \<in> {[], ''?''} \<and> f \<in> {[], ''#''}})"
proof -
  obtain u where u: "urlsplit authority_ok raw = Some u" "url_scheme u = ''http''"
    "\<not> has_userinfo (url_netloc u)" "url_query u = []" "url_fragment u = []" "url_path u \<in> {[], ''/''}"
    and host: "url_hostname (url_netloc u) = Some host" "ip_address host = Some True"
    and port: "\<exists>p. url_port (url_netloc u) = Inr p \<and> port = (case p of None \<Rightarrow> 80 | Some p \<Rightarrow> p)"
    using assms unfolding parse_service_url_def invalid_service_url_def
    by (fastforce split: option.splits sum.splits if_splits)
  from host(1) have "url_netloc u \<noteq> []"
    by (auto simp: url_hostname_def hostinfo_def rpartition_at_def partition_at_def)
  from urlsplit_text[OF u(1) _ this u(4,5)] u(2) obtain s q f where
    "clean_url raw = s @ ''://'' @ url_netloc u @ url_path u @ q @ f" "map lower s = url_scheme u"
    "q \<in> {[], ''?''}" "f \<in> {[], ''#''}" by (elim meta_impE) (simp, blast)
  then have whole: "clean_url raw = s @ ''://'' @ url_netloc u @ (url_path u @ q @ f)" "map lower s = ''http''"
    "url_path u @ q @ f \<in> {p @ q @ f | p q f. p \<in> {[], ''/''} \<and> q \<in> {[], ''?''} \<and> f \<in> {[], ''#''}}"
    using u(2,6) by (simp, simp, blast)
  have "CHR ''@'' \<notin> set (url_netloc u)" using u(3) by (simp add: has_userinfo_def)
  with host(1) whole have "\<exists>s loc rest. clean_url raw = s @ ''://'' @ loc @ rest \<and> map lower s = ''http''
     \<and> url_hostname loc = Some host \<and> CHR ''@'' \<notin> set loc
     \<and> rest \<in> {p @ q @ f | p q f. p \<in> {[], ''/''} \<and> q \<in> {[], ''?''} \<and> f \<in> {[], ''#''}}"
    by (intro exI conjI)
  moreover have "0 \<le> port \<and> port \<le> 65535" using port url_port_bounds by (auto split: option.splits)
  ultimately show ?thesis using host(2) by iprover
qed

text \<open>The usual form of an address: digits and dots.\<close>

definition dotted :: "string \<Rightarrow> bool" where
  "dotted h \<longleftrightarrow> h \<noteq> [] \<and> (\<forall>c\<in>set h. is_digit c \<or> c = CHR ''.'')"

definition authority_char :: "char \<Rightarrow> bool" where
  "authority_char c \<longleftrightarrow> is_digit c \<or> c \<in> {CHR ''.'', CHR '':''}"

lemma authority_chars:
  "authority_char c \<Longrightarrow> 32 < (of_char c :: int) \<and> (of_char c :: int) < 128
     \<and> c \<notin> {CHR ''/'', CHR ''?'', CHR ''#'', CHR ''['', CHR '']'', CHR ''@'', CHR ''%''} \<and> lower c = c"
  by (auto simp: authority_char_def is_digit_def lower_def Let_def)

lemma str_int_delta: "0 \<le> n \<Longrightarrow> n \<le> 65535 \<Longrightarrow> is_delta_seconds (str_int n) \<and> int_of_str (str_int n) = Inr n"
proof -
  assume n: "0 \<le> n" "n \<le> 65535"
  have "str_int n \<noteq> []" by (subst str_int.simps) simp
  moreover have "length (str_int n) \<le> 5" using n length_str_int[of n 5] by simp
  ultimately show ?thesis using n str_int_digits read_str_int
    by (auto simp: is_delta_seconds_def int_of_str_def INT_MAX_STR_DIGITS_def)
qed

lemma urlsplit_authority:
  assumes "\<forall>c\<in>set loc. authority_char c"
  shows "urlsplit authority_ok (''http://'' @ loc) = Some
    \<lparr>url_scheme = ''http'', url_netloc = loc, url_path = [], url_query = [], url_fragment = []\<rparr>"
proof -
  have chars: "\<forall>c\<in>set loc. 32 < (of_char c :: int) \<and> (of_char c :: int) < 128
     \<and> c \<notin> {CHR ''/'', CHR ''?'', CHR ''#'', CHR ''['', CHR '']''}"
    using assms authority_chars by blast
  then have "filter (\<lambda>c. (of_char c :: int) \<notin> {9, 10, 13}) loc = loc" unfolding filter_id_conv by fastforce
  then have clean: "clean_url (''http://'' @ loc) = ''http'' @ CHR '':'' # (''//'' @ loc)" by (simp add: clean_url_def)
  have "split_scheme (''http'' @ CHR '':'' # (''//'' @ loc)) = (''http'', ''//'' @ loc)"
    by (subst split_scheme_def, subst partition_at_append)
       (simp_all add: is_scheme_char_def is_alpha_def lower_def)
  moreover have "split_netloc (''//'' @ loc) = (loc, [])"
  proof -
    have "takeWhile (\<lambda>c. c \<notin> {CHR ''/'', CHR ''?'', CHR ''#''}) loc = loc"
      "dropWhile (\<lambda>c. c \<notin> {CHR ''/'', CHR ''?'', CHR ''#''}) loc = []"
      using chars by (subst takeWhile_eq_all_conv dropWhile_eq_Nil_conv, blast)+
    then show ?thesis by (simp add: split_netloc_def Let_def)
  qed
  moreover have "partition_at (CHR ''#'') [] = ([], False, [])" "partition_at (CHR ''?'') [] = ([], False, [])"
    by (simp_all add: partition_at_def)
  moreover have "CHR ''['' \<notin> set loc" "CHR '']'' \<notin> set loc" "\<not> (\<exists>c\<in>set loc. 128 \<le> (of_char c :: int))"
    using chars by fastforce+
  ultimately show ?thesis unfolding urlsplit_def clean by simp
qed

lemma dotted_authority:
  assumes "dotted host" "0 \<le> port" "port \<le> 65535"
  shows "url_hostname host = Some host" "url_port host = Inr None"
    "url_hostname (host @ CHR '':'' # str_int port) = Some host"
    "url_port (host @ CHR '':'' # str_int port) = Inr (Some port)"
proof -
  have host: "\<forall>c\<in>set host. authority_char c \<and> c \<noteq> CHR '':''"
    using assms(1) by (auto simp: dotted_def authority_char_def is_digit_def)
  have port: "\<forall>c\<in>set (str_int port). authority_char c"
    using str_int_digits[OF assms(2)] by (auto simp: authority_char_def)
  have absent: "CHR ''@'' \<notin> set host" "CHR ''['' \<notin> set host" "CHR ''%'' \<notin> set host" "CHR '':'' \<notin> set host"
    "CHR ''@'' \<notin> set (host @ CHR '':'' # str_int port)" "CHR ''['' \<notin> set (host @ CHR '':'' # str_int port)"
    using host port authority_chars by auto
  have "map lower host = host" using host authority_chars by (simp add: map_idI)
  moreover have info: "hostinfo host = (host, None)"
    "hostinfo (host @ CHR '':'' # str_int port) = (host, Some (str_int port))"
    using str_int_delta[OF assms(2,3)]
    by (simp_all only: hostinfo_def Let_def absent(1,5)[THEN rpartition_at_absent]
          absent(2,4,6)[THEN partition_at_absent] absent(4)[THEN partition_at_append] prod.case if_False)
       (simp_all add: is_delta_seconds_def)
  moreover have "host \<noteq> []" using assms(1) by (simp add: dotted_def)
  ultimately show "url_hostname host = Some host" "url_hostname (host @ CHR '':'' # str_int port) = Some host"
    by (simp_all add: url_hostname_def partition_at_absent[OF absent(3)])
  show "url_port host = Inr None" "url_port (host @ CHR '':'' # str_int port) = Inr (Some port)"
    using info str_int_delta[OF assms(2,3)] assms(2,3) by (simp_all add: url_port_def)
qed

text \<open>
  The usual service URLs are read as written: a dotted loopback address with a port is accepted
  with exactly that port, and without one with port 80.
\<close>

lemma plain_service_url_is_accepted:
  assumes "dotted host" "ip_address host = Some True" "0 \<le> port" "port \<le> 65535"
  shows "parse_service_url authority_ok ip_address (''http://'' @ host @ '':'' @ str_int port) = Inr (host, port)
    \<and> parse_service_url authority_ok ip_address (''http://'' @ host) = Inr (host, 80)"
proof -
  have chars: "\<forall>c\<in>set host. authority_char c" "\<forall>c\<in>set (host @ CHR '':'' # str_int port). authority_char c"
    using assms(1) str_int_digits[OF assms(3)] by (auto simp: dotted_def authority_char_def)
  have "\<not> has_userinfo host" "\<not> has_userinfo (host @ CHR '':'' # str_int port)"
    using chars authority_chars unfolding has_userinfo_def by blast+
  moreover have "''http://'' @ host @ '':'' @ str_int port = ''http://'' @ (host @ CHR '':'' # str_int port)" by simp
  ultimately show ?thesis unfolding parse_service_url_def
    using urlsplit_authority[OF chars(1)] urlsplit_authority[OF chars(2)]
      dotted_authority[OF assms(1,3,4)] assms(2) by simp
qed

definition loopback_127 :: "string \<Rightarrow> bool option" where
  "loopback_127 h = (if dotted h then Some (take 4 h = ''127.'') else None)"

lemma sample_service_urls:
  "parse_service_url (\<lambda>_. True) loopback_127 (''http://'' @ ''127.0.0.1'' @ '':'' @ str_int 8080) = Inr (''127.0.0.1'', 8080)
     \<and> parse_service_url (\<lambda>_. True) loopback_127 ''http://127.0.0.1'' = Inr (''127.0.0.1'', 80)"
  using plain_service_url_is_accepted[of "''127.0.0.1''" loopback_127 8080 "\<lambda>_. True"]
  by (simp add: dotted_def is_digit_def loopback_127_def)

lemma witness_accepted_service_url_is_loopback:
  "parse_service_url (\<lambda>_. True) loopback_127 ''HTTP://127.0.0.1:80/'' = Inr (''127.0.0.1'', 80)
     \<and> loopback_127 ''127.0.0.1'' = Some True"
proof -
  have run: "parse_service_url (\<lambda>_. True) loopback_127 ''HTTP://127.0.0.1:80/'' = Inr (''127.0.0.1'', 80)"
    by code_simp
  from accepted_service_url_is_loopback[OF run] run show ?thesis by blast
qed

section \<open>Exit codes and documents\<close>

definition member_of :: "string \<Rightarrow> json \<Rightarrow> json option" where
  "member_of name v = (case v of JObj ms \<Rightarrow> map_of ms (ascii name) | _ \<Rightarrow> None)"

lemma printed_submitted [simp]:
  "member_of ''submitted'' (emit_command_input_error c m) = Some (JBool False)"
  "member_of ''submitted'' (emit_validation_error t) = Some (JBool False)"
  "member_of ''submitted'' emit_unexpected_failure = Some (JBool True)"
  "member_of ''submitted'' (fst (emit_outcome f out)) = Some (JBool (flag_of out))"
  by (auto simp: member_of_def emit_command_input_error_def emit_validation_error_def emit_unexpected_failure_def
      emit_outcome_def success_json_def error_json_def flag_of_def member_def split: submit_outcome.split)

lemma printed_success [simp]:
  "member_of ''job_id'' (success_json r) = Some (json_text (success_job_id r))"
  by (simp add: member_of_def success_json_def member_def)

text \<open>What the command line did when it ended: nothing, or one opening and at most one invocation.\<close>

definition opened_by :: "libraries \<Rightarrow> (string \<Rightarrow> 's driver) \<Rightarrow> submit_args \<Rightarrow> 's \<Rightarrow> 's \<Rightarrow> bool" where
  "opened_by lib sqlite a files files' \<longleftrightarrow>
     (\<exists>path bytes. resolve_database_path (os_paths lib) (arg_database a) = Inr path
        \<and> validate_job_entry (scanner_limit lib) (frame_limit lib) (rfc8785_dumps lib) (entry_reason lib)
            (arg_job_entry a) = Inr bytes
        \<and> (\<forall>key. arg_idempotency_key a = Some key \<longrightarrow> is_accepted_key key)
        \<and> files' = snd (open_connection (sqlite path) files))"

lemma submit_request_cases:
  assumes "submit_request lib sqlite raw key path files w = (res, files', w')"
  obtains (invalid) m where "res = Inl (Validation_error m)" "files' = files" "w' = w"
  | (crash) "res = Inl Validation_crash" "files' = files" "w' = w"
  | (opened) bytes where
      "validate_job_entry (scanner_limit lib) (frame_limit lib) (rfc8785_dumps lib) (entry_reason lib) raw = Inr bytes"
      "\<forall>k. key = Some k \<longrightarrow> is_accepted_key k" "files' = snd (open_connection (sqlite path) files)"
      "res = Inr (submit_error Outcome_local_persistence_failure False key None None 0) \<and> w' = w
       \<or> (\<exists>e. run_submit key bytes w = (Inl e, w') \<and> res = Inl (Escaped e))
       \<or> (\<exists>out. run_submit key bytes w = (Inr out, w') \<and> res = Inr out)"
proof (cases "validate_job_entry (scanner_limit lib) (frame_limit lib) (rfc8785_dumps lib) (entry_reason lib) raw")
  case (Inl e)
  with assms have "res = Inl e" "files' = files" "w' = w" by (simp_all add: submit_request_def)
  moreover from Inl have "(\<exists>m. e = Validation_error m) \<or> e = Validation_crash"
    by (auto simp: validate_job_entry_def split: option.splits sum.splits if_splits entry_error.splits)
  ultimately show thesis using invalid crash by blast
next
  case (Inr bytes)
  show thesis
  proof (cases "\<forall>k. key = Some k \<longrightarrow> is_accepted_key k")
    case False
    with Inr assms show thesis by (intro invalid) (auto simp: submit_request_def)
  next
    case True
    with Inr assms show thesis
      by (intro opened[of bytes])
        (auto simp: submit_request_def split: option.splits prod.splits sum.splits)
  qed
qed

lemma cli_main_cases:
  assumes "cli_main lib sqlite (Some a) files w = (res, files', w')"
  obtains (refused) body where "res = Printed body 2" "files' = files" "w' = w"
      "member_of ''submitted'' body = Some (JBool False)"
  | (malformed) "res = Traceback ValueError" "files' = files" "w' = w"
  | (crashed) "res = Printed emit_unexpected_failure 1" "files' = files" "w' = w"
  | (closed) "opened_by lib sqlite a files files'" "w' = w"
      "res = Printed (fst (emit_outcome (error_message lib)
        (submit_error Outcome_local_persistence_failure False (arg_idempotency_key a) None None 0))) 1"
  | (raised) bytes e where "opened_by lib sqlite a files files'"
      "run_submit (arg_idempotency_key a) bytes w = (Inl e, w')"
      "res = (if is_exception e then Printed emit_unexpected_failure 1 else Traceback e)"
  | (ran) bytes out where "opened_by lib sqlite a files files'"
      "validate_job_entry (scanner_limit lib) (frame_limit lib) (rfc8785_dumps lib) (entry_reason lib) (arg_job_entry a) = Inr bytes"
      "run_submit (arg_idempotency_key a) bytes w = (Inr out, w')"
      "res = Printed (fst (emit_outcome (error_message lib) out)) (snd (emit_outcome (error_message lib) out))"
proof (cases "parse_service_url (authority_check lib) (ip_address_of lib) (arg_service_url a)")
  case (Inl e)
  with assms refused malformed show ?thesis by (cases e) (auto simp: cli_main_def)
next
  case url: (Inr hp)
  show ?thesis
  proof (cases "resolve_database_path (os_paths lib) (arg_database a)")
    case (Inl e)
    with url assms refused malformed show ?thesis by (cases e) (auto simp: cli_main_def)
  next
    case path: (Inr path)
    obtain r files1 w1 where
      s: "submit_request lib sqlite (arg_job_entry a) (arg_idempotency_key a) path files w = (r, files1, w1)"
      by (metis prod_cases3)
    note main = assms[unfolded cli_main_def, simplified url path s option.case sum.case]
    from s show ?thesis
    proof (cases rule: submit_request_cases)
      case (invalid m)
      with main refused show ?thesis by auto
    next
      case crash
      with main crashed show ?thesis by auto
    next
      case (opened bytes)
      have how: "opened_by lib sqlite a files files1"
        using path opened(1-3) unfolding opened_by_def by (intro exI[of _ path] exI[of _ bytes]) simp
      from opened(4) show ?thesis
      proof (elim disjE exE conjE)
        assume "r = Inr (submit_error Outcome_local_persistence_failure False (arg_idempotency_key a) None None 0)"
          "w1 = w"
        with main how closed show ?thesis by (auto simp: emit_outcome_def submit_error_def)
      next
        fix e assume "run_submit (arg_idempotency_key a) bytes w = (Inl e, w1)" "r = Inl (Escaped e)"
        with main how raised[of bytes e] show ?thesis by (auto split: if_splits)
      next
        fix out assume "run_submit (arg_idempotency_key a) bytes w = (Inr out, w1)" "r = Inr out"
        with main how opened(1) ran[of bytes out] show ?thesis by (auto split: prod.splits)
      qed
    qed
  qed
qed

text \<open>
  C14. The exit code: 2 means that no connection was opened and nothing was written or sent; the
  files are touched only by one opening of the database at the resolved path, after the entry and
  the key were found valid; 0 means that the durable database holds the Job of the printed
  identifier, with the canonical form of the given entry and the given key, as \<open>SUCCEEDED\<close>; the
  only other code is 1.
\<close>

theorem exit_code_is_truthful:
  assumes "fair_start w" "cli_main lib sqlite (Some a) files w = (Printed body code, files', w')"
  shows "code \<in> {0, 1, 2} \<and> (code = 2 \<longrightarrow> files' = files \<and> w' = w)
    \<and> (files' = files \<and> w' = w
       \<or> (\<exists>path bytes. resolve_database_path (os_paths lib) (arg_database a) = Inr path
            \<and> validate_job_entry (scanner_limit lib) (frame_limit lib) (rfc8785_dumps lib) (entry_reason lib)
                (arg_job_entry a) = Inr bytes
            \<and> (\<forall>key. arg_idempotency_key a = Some key \<longrightarrow> is_accepted_key key)
            \<and> files' = snd (open_connection (sqlite path) files)))
    \<and> (code = 0 \<longrightarrow> (\<exists>bytes. \<exists>j\<in>set (jobs (durable w')).
         validate_job_entry (scanner_limit lib) (frame_limit lib) (rfc8785_dumps lib) (entry_reason lib)
           (arg_job_entry a) = Inr bytes
         \<and> payload_canonical j = bytes \<and> jstate j = SUCCEEDED
         \<and> (arg_idempotency_key a \<noteq> None \<longrightarrow> arg_idempotency_key a = Some (idempotency_key j))
         \<and> member_of ''job_id'' body = Some (json_text (job_id j))))"
proof -
  let ?durable = "\<exists>bytes. \<exists>j\<in>set (jobs (durable w')).
         validate_job_entry (scanner_limit lib) (frame_limit lib) (rfc8785_dumps lib) (entry_reason lib)
           (arg_job_entry a) = Inr bytes
         \<and> payload_canonical j = bytes \<and> jstate j = SUCCEEDED
         \<and> (arg_idempotency_key a \<noteq> None \<longrightarrow> arg_idempotency_key a = Some (idempotency_key j))
         \<and> member_of ''job_id'' body = Some (json_text (job_id j))"
  have "code \<in> {0, 1, 2} \<and> (code = 2 \<longrightarrow> files' = files \<and> w' = w)
    \<and> (files' = files \<and> w' = w \<or> opened_by lib sqlite a files files') \<and> (code = 0 \<longrightarrow> ?durable)"
    using assms(2)
  proof (cases rule: cli_main_cases)
    case (ran bytes out)
    show ?thesis
    proof (cases out)
      case (SubmitSuccess r)
      from invocation_ends(5)[OF assms(1) ran(3) refl] SubmitSuccess obtain key j where
        "arg_idempotency_key a \<noteq> None \<longrightarrow> arg_idempotency_key a = Some key" "j \<in> set (jobs (durable w'))"
        "job_id j = success_job_id r" "idempotency_key j = key" "payload_canonical j = bytes" "jstate j = SUCCEEDED"
        by (auto simp: confirmed_def backed_def)
      with ran SubmitSuccess have ?durable
        by (intro exI[of _ bytes] bexI[of _ j]) (simp_all add: emit_outcome_def)
      with ran SubmitSuccess show ?thesis by (simp add: emit_outcome_def)
    next
      case (SubmitError r)
      with ran show ?thesis by (simp add: emit_outcome_def)
    qed
  qed (auto split: if_splits)
  then show ?thesis unfolding opened_by_def .
qed

text \<open>
  C15. A printed \<open>"submitted": false\<close> can be relied on: then no POST of the invocation can have
  reached the service, unless the document reports \<open>already_completed\<close>.
\<close>

theorem printed_submitted_false_is_reliable:
  assumes "fair_start w" "cli_main lib sqlite (Some a) files w = (Printed body code, files', w')"
    "member_of ''submitted'' body = Some (JBool False)"
  shows "\<not> maybe_sent w w' \<or> code = 0 \<and> member_of ''outcome'' body = Some (json_text ''already_completed'')"
  using assms(2)
proof (cases rule: cli_main_cases)
  case (ran bytes out)
  from ran(4) assms(3) have "\<not> flag_of out" by auto
  with invocation_ends(3)[OF assms(1) ran(3) refl] have "\<not> maybe_sent w w' \<or> already_completed out"
    by (auto simp: flag_ok_def)
  with ran(4) show ?thesis
    by (cases out) (auto simp: already_completed_def emit_outcome_def success_json_def member_of_def member_def
        success_name_def)
qed (use assms(3) maybe_sent_none in \<open>auto split: if_splits\<close>)

subsection \<open>Two command lines\<close>

definition sample_paths :: paths where
  "sample_paths = \<lparr>working_directory = ''/work'', is_absolute = (\<lambda>p. take 1 p = ''/''),
     join_path = (\<lambda>d p. d @ ''/'' @ p), resolve_path = Inr\<rparr>"

definition sample_libraries :: libraries where
  "sample_libraries = \<lparr>scanner_limit = 5, frame_limit = 5,
     rfc8785_dumps = (\<lambda>v. if v = JObj [] then Some ''{}'' else None), entry_reason = id,
     error_message = (\<lambda>_. []), authority_check = (\<lambda>_. True), ip_address_of = loopback_127, os_paths = sample_paths\<rparr>"

definition sample_args :: submit_args where
  "sample_args = \<lparr>arg_job_entry = ascii '' {} '', arg_idempotency_key = Some ''k1'', arg_database = None,
     arg_service_url = ''http://127.0.0.1:8080''\<rparr>"

lemma sample_validated:
  "validate_job_entry 5 5 (rfc8785_dumps sample_libraries) id (ascii '' {} '') = Inr ''{}''"
  "parse_service_url (\<lambda>_. True) loopback_127 ''http://127.0.0.1:8080'' = Inr (''127.0.0.1'', 8080)"
  "resolve_database_path sample_paths None = Inr ''/work/.boolean-maybe/boolean-maybe.sqlite3''"
  "is_accepted_key ''k1''"
proof -
  have "encode_utf8 (ascii '' {} '') = Some '' {} ''" "decode_utf8 '' {} '' = Some (ascii '' {} '')"
    "loads_strict 5 (ascii '' {} '') = Inr (JObj [])" by code_simp+
  then show "validate_job_entry 5 5 (rfc8785_dumps sample_libraries) id (ascii '' {} '') = Inr ''{}''"
    by (simp add: validate_job_entry_def parse_job_entry_def canonicalize_def sample_libraries_def
        MAX_JOB_ENTRY_BYTES_def numeral_eq_Suc)
  show "parse_service_url (\<lambda>_. True) loopback_127 ''http://127.0.0.1:8080'' = Inr (''127.0.0.1'', 8080)"
    "resolve_database_path sample_paths None = Inr ''/work/.boolean-maybe/boolean-maybe.sqlite3''"
    "is_accepted_key ''k1''" by code_simp+
qed

lemma sample_command:
  obtains r w' where "cli_main sample_libraries (\<lambda>_. sample_driver) (Some sample_args) (sample_file, None)
    (initial_world accepting_env empty_database) = (Printed (success_json r) 0, sample_opened (sample_file, None), w')"
proof -
  obtain r w' k b d0 d where run: "run_submit (Some ''k1'') ''{}'' (initial_world accepting_env empty_database)
      = (Inr (SubmitSuccess r), w')" by (rule sample_run)
  have "rfc8785_dumps sample_libraries (JObj []) = Some ''{}''" by (simp add: sample_libraries_def)
  with run sample_validated sample_opening have "cli_main sample_libraries (\<lambda>_. sample_driver) (Some sample_args)
      (sample_file, None) (initial_world accepting_env empty_database)
    = (Printed (success_json r) 0, sample_opened (sample_file, None), w')"
    by (simp add: cli_main_def submit_request_def sample_args_def emit_outcome_def sample_libraries_def)
  then show thesis by (rule that)
qed

lemma witness_exit_code_is_truthful:
  "\<exists>body w'. cli_main sample_libraries (\<lambda>_. sample_driver) (Some sample_args) (sample_file, None)
      (initial_world accepting_env empty_database) = (Printed body 0, sample_opened (sample_file, None), w')
    \<and> (\<exists>j\<in>set (jobs (durable w')). payload_canonical j = ''{}'' \<and> idempotency_key j = ''k1'' \<and> jstate j = SUCCEEDED
         \<and> member_of ''job_id'' body = Some (json_text (job_id j)))"
proof -
  obtain r w' where run: "cli_main sample_libraries (\<lambda>_. sample_driver) (Some sample_args) (sample_file, None)
      (initial_world accepting_env empty_database) = (Printed (success_json r) 0, sample_opened (sample_file, None), w')"
    by (rule sample_command)
  have valid: "validate_job_entry (scanner_limit sample_libraries) (frame_limit sample_libraries)
      (rfc8785_dumps sample_libraries) (entry_reason sample_libraries) (arg_job_entry sample_args) = Inr ''{}''"
    "arg_idempotency_key sample_args = Some ''k1''"
    using sample_validated(1) by (simp_all add: sample_libraries_def sample_args_def)
  from exit_code_is_truthful[OF sample_fair run] have "\<exists>j\<in>set (jobs (durable w')). payload_canonical j = ''{}''
      \<and> idempotency_key j = ''k1'' \<and> jstate j = SUCCEEDED
      \<and> member_of ''job_id'' (success_json r) = Some (json_text (job_id j))"
    unfolding valid by fastforce
  with run show ?thesis by blast
qed

text \<open>A driver whose directory cannot be created.\<close>

definition no_directory_driver :: "sample_connection driver" where
  "no_directory_driver = sample_driver\<lparr>make_parent_directory := (\<lambda>s. (False, s))\<rparr>"

lemma witness_printed_submitted_false_is_reliable:
  "\<not> maybe_sent (initial_world accepting_env empty_database) (snd (snd (cli_main sample_libraries
      (\<lambda>_. no_directory_driver) (Some sample_args) (sample_file, None) (initial_world accepting_env empty_database))))"
proof -
  let ?out = "submit_error Outcome_local_persistence_failure False (Some ''k1'') None None 0"
  have "rfc8785_dumps sample_libraries (JObj []) = Some ''{}''" by (simp add: sample_libraries_def)
  moreover have "open_connection no_directory_driver (sample_file, None) = (Inl Persistence_failure, (sample_file, None))"
    by (simp add: open_connection_def no_directory_driver_def)
  ultimately have run: "cli_main sample_libraries (\<lambda>_. no_directory_driver) (Some sample_args) (sample_file, None)
     (initial_world accepting_env empty_database) = (Printed (fst (emit_outcome (\<lambda>_. []) ?out)) 1,
       (sample_file, None), initial_world accepting_env empty_database)"
    using sample_validated
    by (simp add: cli_main_def submit_request_def sample_args_def sample_libraries_def emit_outcome_def submit_error_def)
  from printed_submitted_false_is_reliable[OF sample_fair run] show ?thesis by (simp add: run)
qed

end
