(* ===== verification/Spec2Isabelle.thy ===== *)
theory Spec2Isabelle
  imports Transactions Opening Endings Exchange Threads Pool Delivery Command_Line
begin

text \<open>
  A verification development of \<open>boolean_maybe\<close>: a command line client that submits one JSON Job
  Entry to a service over an unreliable network, at most one active attempt per Job across all
  processes, with a durable record in SQLite; and of the simulator of that service.  Paths are
  relative to \<open>src/boolean_maybe\<close>.

  \<^bold>\<open>How the program works.\<close>  \<open>cli.py\<close> checks the arguments and runs \<open>application/submit.py\<close> once.
  The workflow opens the database (\<open>persistence/connection.py\<close>, \<open>schema.py\<close>) and loops: one
  \<open>BEGIN IMMEDIATE\<close> transaction (\<open>persistence/transactions.py\<close>) finds or creates the Job and
  authorizes an attempt with an owner token, a fencing generation and a lease, or says why not; the
  lease is renewed; one POST is sent (\<open>external/client.py\<close> over \<open>_transport.py\<close>); its answer is
  classified (\<open>application/classification.py\<close>) and recorded in a second transaction, fenced by token
  and generation.  Uncertain answers lead to reconciliation GETs (\<open>external/reconcile.py\<close>,
  \<open>application/reconciliation_sequence.py\<close>), expired leases of dead invocations to a recovery claim
  (\<open>recovery.py\<close>), rate limits to the gate all processes share and to bounded waits
  (\<open>waiting.py\<close>).

  \<^bold>\<open>Texts, time, JSON.\<close>  \<open>Calendar\<close>, \<open>Decimal\<close>, \<open>Timestamp\<close>, \<open>Strptime\<close>: \<open>domain/clock.py\<close> on
  instants in microseconds and the \<open>strptime\<close> directives used.  \<open>Policies\<close>: \<open>backoff.py\<close>,
  \<open>retry_after.py\<close> (with the rounding of its binary64 arithmetic), \<open>idempotency_key.py\<close>.
  \<open>Text\<close>: code points and strict UTF-8.  \<open>Json\<close>, \<open>Json_Writing\<close>, \<open>Job_Entry\<close>: the scanner behind
  \<open>canonical_json.loads_strict\<close>, \<open>json.dumps\<close>, the I-JSON walk.  \<open>Url\<close>: \<open>urlsplit\<close> and \<open>quote\<close>.

  \<^bold>\<open>The durable part.\<close>  \<open>Store\<close>: the four tables with every CHECK, UNIQUE and FOREIGN KEY constraint as
  partial functions on a \<open>database\<close>.  \<open>Effects\<close>: the world (environment, durable database, open
  transaction, trace) and the exception and state programs all effects are written in, with their
  weakest preconditions.  \<open>Authorization\<close> and \<open>Recording\<close>: the transactions, one definition per
  function, every statement and every branch.  \<open>Lifecycle\<close>, \<open>Invariant\<close>: the Job and attempt state
  machine as an inductive relation, its invariant and its order (an instance of the \<open>state_machine\<close>
  interface of \<open>Prelude\<close>).  \<open>Refinement\<close>, \<open>Admission\<close>, \<open>Guarantee\<close>: what each transaction
  commits, in terms of that relation.  \<open>Transactions\<close>, \<open>Contracts\<close>, \<open>Bindings\<close>, \<open>Endings\<close>: the
  theorems on transactions: fencing, refinement of the state machine, bounded attempts, finality,
  exclusive claims, routing and authorization against the clock of the pass, exact endings.

  \<^bold>\<open>The workflow.\<close>  \<open>Outcomes\<close>: the outcome unions and their classification.  \<open>Reconciliation\<close>,
  \<open>Submission\<close>: waiting, reconciliation, recovery, history, dispatch and \<open>run_submit\<close>.
  \<open>Workflow\<close>, \<open>Invocation\<close>, \<open>Dispatch\<close>, \<open>Runs\<close> lift the transaction lemmas to runs with
  interference (rely and guarantee): whenever this connection holds no write lock, that is before
  every \<open>BEGIN\<close>, every POST and GET and every reading statement outside a transaction, other
  processes may move the database by any steps of the state machine (\<open>others_commit\<close>); a claim may
  fall between the renewal of a lease and the request it is for.  \<open>Demonstration\<close> evaluates two whole invocations.  This theory states what an
  invocation as a whole guarantees.

  \<^bold>\<open>The edges.\<close>  \<open>Transport\<close>, \<open>Adapters\<close>: \<open>_transport.py\<close>, \<open>client.py\<close> and \<open>reconcile.py\<close> over an
  \<open>exchange\<close> that says what each socket call does and when.  \<open>Schema\<close>, \<open>Opening\<close>: migrations, PRAGMAs
  and schema verification over an arbitrary SQLite driver; \<open>engine_ok\<close> names the laws relied on.
  \<open>Cli\<close>, \<open>Command_Line\<close>: \<open>cli.py\<close> with its documents and exit codes, the
  connection opened by \<open>open_connection\<close> of \<open>Schema\<close> on the files the command line names.

  \<^bold>\<open>The simulator.\<close>  \<open>Scenario\<close>, \<open>Simulator\<close>, \<open>Server\<close>, \<open>Delivery\<close>, \<open>Simulator_Cli\<close>: \<open>simulator/scenario.py\<close>,
  \<open>state.py\<close>, \<open>service.py\<close>, \<open>server.py\<close>, \<open>logs.py\<close>, \<open>idempotency.py\<close>, \<open>cli.py\<close>.  \<open>Threads\<close>: the
  handlers as threads whose accesses to the lock table, the ordinals and the records interleave; they
  are linearizable and do not deadlock.  \<open>Pool\<close>: the bounded server of \<open>server.py\<close>, its accept loop, handler
  threads and \<open>shutdown_and_close\<close> as interleaving actors; the thread bound holds and a shutdown is not
  blocked by busy handlers.  \<open>Exchange\<close> joins
  both sides: every HTTP request is refused or is one service step, and what the service answers is
  what the adapters understand.

  \<^bold>\<open>Bounds.\<close>  Loops the code does not bound (identifier and key collisions, reauthorization) take fuel
  and raise \<open>Out_of_fuel\<close>; nothing is proved by running out.  \<open>insert_job_ends\<close> says how much fuel
  suffices, \<open>oversized_payload_never_returns\<close> shows a loop that never ends.  The JSON scanner takes
  twice the length of its text plus one, which \<open>loads_strict_fuel\<close> shows to be enough; its nesting
  limit and Python's frame limit are arguments, and exceeding them is the \<open>RecursionError\<close>.
  Reconciliation loops run on the bound the code has (three requests).

  \<^bold>\<open>Arguments of the model.\<close>  The clock, identifiers, keys and random numbers (one answer per call),
  which statements fail, what other processes commit, what the network does, \<open>rfc8785.dumps\<close>,
  \<open>hashlib.sha256\<close>, \<open>ipaddress\<close>, \<open>pathlib\<close>, \<open>unicodedata\<close>, the SQLite driver of \<open>Schema\<close>.

  \<^bold>\<open>Not modelled.\<close>  Float durations (whole microseconds instead); message and reason texts of
  outcomes; encoding errors of SQL parameters; \<open>argparse\<close>; the protocols and system
  implementations in \<open>domain/identifiers.py\<close>, \<open>monotonic_clock.py\<close>, \<open>random_source.py\<close> and
  \<open>sleeper.py\<close>, which are inputs here; sockets and the parsing of
  requests by \<open>http.server\<close>; the time handlers take in \<open>Threads\<close> and \<open>Pool\<close>; writing to streams; the re-exports in
  \<open>simulator/strict_json.py\<close> and \<open>canonicalize.py\<close>.
\<close>

section \<open>An invocation as a whole\<close>

lemma invocation_posts:
  assumes "fair_start w" "run_submit supplied bytes w = (res, w')"
  obtains key where "supplied \<noteq> None \<longrightarrow> supplied = Some key"
    "\<forall>k b d0 d. Posted k b d0 d \<in> set (events_between w w') \<longrightarrow>
       k = key \<and> b = bytes \<and> goes_out (invocation_token w) key bytes d0 d"
proof -
  from invocation_ends(1)[OF assms] obtain key where
    key: "supplied \<noteq> None \<longrightarrow> supplied = Some key" "runs (licensed (invocation_token w) key bytes) w w'"
    by (auto simp: ended_def)
  with events_runs have "\<forall>e\<in>set (events_between w w'). licensed (invocation_token w) key bytes e"
    by (auto simp: list_all_iff)
  with key(1) show thesis by (intro that[of key]) (auto simp: licensed_def)
qed

text \<open>
  C1. Authorize before sending, under interference: every POST an invocation sends carries the key
  and the canonical payload of the submission, all of one key (the supplied one if there is one).
  The last transaction before it, the renewal of the lease, left the Job durably \<open>SUBMITTING\<close> with
  an attempt \<open>STARTED\<close> and owned by this invocation's token.  Between that commit and the request
  other processes may commit anything the state machine allows: when the request goes out the Job
  still has the key and the payload and the attempt is the same one, and either the attempt has
  been ended or claimed with a higher fencing generation meanwhile, so that whatever the answer
  is, it is late evidence of a stale owner, or it is still owned by this invocation's token and the
  Job still \<open>SUBMITTING\<close>.
\<close>

theorem posts_are_authorized:
  assumes "fair_start w" "run_submit supplied bytes w = (res, w')"
  shows "\<exists>key. (supplied \<noteq> None \<longrightarrow> supplied = Some key)
    \<and> (\<forall>k b d0 d. Posted k b d0 d \<in> set (events_between w w') \<longrightarrow>
         k = key \<and> b = bytes
         \<and> (\<exists>j\<in>set (jobs d0). \<exists>a\<in>set (submission_attempts d0).
              idempotency_key j = key \<and> payload_canonical j = bytes \<and> jstate j = SUBMITTING
              \<and> attempt_job_id a = job_id j \<and> astate a = A_STARTED
              \<and> owner_token a = Some (invocation_token w)
              \<and> (\<exists>j'\<in>set (jobs d). \<exists>a'\<in>set (submission_attempts d).
                   job_id j' = job_id j \<and> idempotency_key j' = key \<and> payload_canonical j' = bytes
                   \<and> attempt_id a' = attempt_id a \<and> attempt_job_id a' = job_id j
                   \<and> attempt_number a' = attempt_number a
                   \<and> fencing_generation a \<le> fencing_generation a'
                   \<and> (astate a' = A_STARTED \<and> fencing_generation a' = fencing_generation a \<longrightarrow>
                        jstate j' = SUBMITTING \<and> owner_token a' = Some (invocation_token w)))))"
proof -
  obtain key where key: "supplied \<noteq> None \<longrightarrow> supplied = Some key"
    and posts: "\<forall>k b d0 d. Posted k b d0 d \<in> set (events_between w w') \<longrightarrow>
       k = key \<and> b = bytes \<and> goes_out (invocation_token w) key bytes d0 d"
    using assms by (rule invocation_posts)
  show ?thesis by (rule exI[of _ key], rule conjI, rule key) (rule posts[unfolded goes_out_def])
qed

lemma witness_posts_are_authorized:
  "\<exists>w' d0 d. snd (run_submit (Some ''k1'') ''{}'' (initial_world rescued_env empty_database)) = w'
     \<and> Posted ''k1'' ''{}'' d0 d \<in> set (events_between (initial_world rescued_env empty_database) w')
     \<and> (\<exists>j\<in>set (jobs d0). idempotency_key j = ''k1'' \<and> jstate j = SUBMITTING)
     \<and> map owner_token (submission_attempts d) = [Some ''rescuer'']
     \<and> map fencing_generation (submission_attempts d0) = [1] \<and> map fencing_generation (submission_attempts d) = [2]"
proof -
  obtain w' e where run: "run_submit (Some ''k1'') ''{}'' (initial_world rescued_env empty_database)
      = (Inl CancelledError, w')" and e: "e \<in> set (trace w')" "overtaken e" by (rule overtaken_run)
  from e(2) obtain k b d0 d where post: "e = Posted k b d0 d" and
    gens: "map owner_token (submission_attempts d) = [Some ''rescuer'']"
      "map fencing_generation (submission_attempts d0) = [1]" "map fencing_generation (submission_attempts d) = [2]"
    by (rule overtakenE)
  have posted: "Posted k b d0 d \<in> set (events_between (initial_world rescued_env empty_database) w')"
    using e(1) post by (simp add: events_between_def initial_world_def)
  have "k = ''k1'' \<and> b = ''{}'' \<and> (\<exists>j\<in>set (jobs d0). idempotency_key j = ''k1'' \<and> jstate j = SUBMITTING)"
    using posts_are_authorized[OF rescued_fair run]
    apply (elim exE conjE)
    apply (drule spec[of _ k], drule spec[of _ b], drule spec[of _ d0], drule spec[of _ d])
    apply (drule mp, rule posted)
    apply (elim conjE bexE)
    apply (intro conjI bexI)
       apply simp_all
    done
  with posted run gens show ?thesis by (intro exI[of _ w'] exI[of _ d0] exI[of _ d]) simp
qed

text \<open>
  C3. A reported success is durable: the database an invocation leaves holds a Job of the key with
  the submitted payload as \<open>SUCCEEDED\<close>, with the completed attempt, its number, HTTP status and
  remote request id that the outcome reports.
\<close>

theorem reported_success_is_durable:
  assumes "fair_start w" "run_submit supplied bytes w = (Inr (SubmitSuccess r), w')"
  shows "\<exists>j\<in>set (jobs (durable w')). \<exists>a\<in>set (submission_attempts (durable w')).
    (supplied \<noteq> None \<longrightarrow> supplied = Some (idempotency_key j)) \<and> payload_canonical j = bytes
    \<and> jstate j = SUCCEEDED \<and> job_id j = success_job_id r
    \<and> attempt_job_id a = job_id j \<and> astate a = A_SUCCEEDED
    \<and> attempt_id a = success_attempt_id r \<and> attempt_number a = success_attempt_number r
    \<and> http_status a = Some (success_http_status r)
    \<and> remote_request_id a = Some (success_remote_request_id r)"
proof -
  from invocation_ends(5)[OF assms refl] obtain key j a where
    "supplied \<noteq> None \<longrightarrow> supplied = Some key" "j \<in> set (jobs (durable w'))"
    "a \<in> set (submission_attempts (durable w'))" "job_id j = success_job_id r" "idempotency_key j = key"
    "payload_canonical j = bytes" "jstate j = SUCCEEDED" "attempt_job_id a = job_id j" "attests a r"
    by (auto simp: confirmed_def backed_def)
  then show ?thesis unfolding attests_def by (intro bexI[of _ j] bexI[of _ a]) simp_all
qed

lemma witness_reported_success_is_durable:
  "\<exists>r w'. run_submit (Some ''k1'') ''{}'' (initial_world accepting_env empty_database) = (Inr (SubmitSuccess r), w')
     \<and> (\<exists>j\<in>set (jobs (durable w')).
          idempotency_key j = ''k1'' \<and> jstate j = SUCCEEDED \<and> job_id j = success_job_id r)"
proof -
  obtain r w' k b d0 d where run: "run_submit (Some ''k1'') ''{}'' (initial_world accepting_env empty_database)
      = (Inr (SubmitSuccess r), w')" by (rule sample_run)
  from reported_success_is_durable[OF sample_fair run] run show ?thesis by auto
qed

text \<open>
  C4. The \<open>submitted\<close> flag: it is set exactly when some POST of the invocation was not answered by
  a proof that the request was never sent and the outcome is not \<open>already_completed\<close>.  In an
  \<open>already_completed\<close> success it is never set, even if a POST of this invocation was sent before.
\<close>

theorem submitted_flag_is_exact:
  assumes "fair_start w" "run_submit supplied bytes w = (Inr out, w')"
  shows "flag_of out \<longleftrightarrow> maybe_sent w w' \<and> \<not> already_completed out"
  using invocation_ends(3)[OF assms refl] by (simp add: flag_ok_def)

lemma witness_submitted_flag_is_exact:
  "\<exists>out w'. run_submit (Some ''k1'') ''{}'' (initial_world accepting_env empty_database) = (Inr out, w')
     \<and> flag_of out \<and> maybe_sent (initial_world accepting_env empty_database) w'"
proof -
  obtain r w' k b d0 d where run: "run_submit (Some ''k1'') ''{}'' (initial_world accepting_env empty_database)
      = (Inr (SubmitSuccess r), w')" and "success_submitted r" by (rule sample_run)
  with submitted_flag_is_exact[OF sample_fair run] show ?thesis by (auto simp: run flag_of_def)
qed

text \<open>
  C13. An invocation sends at most three reconciliation GETs, however many attempts it makes.
\<close>

theorem at_most_three_gets:
  assumes "fair_start w" "run_submit supplied bytes w = (res, w')"
  shows "length (filter is_got (events_between w w')) \<le> 3"
  using invocation_ends(1)[OF assms] events_runs by (auto simp: ended_def)

lemma witness_at_most_three_gets:
  "length (filter is_got (events_between (initial_world accepting_env empty_database)
     (snd (run_submit None ''{}'' (initial_world accepting_env empty_database))))) \<le> 3"
  using at_most_three_gets[OF sample_fair, of None "''{}''"] by (metis prod.collapse)

text \<open>
  C5. Durability: whatever an invocation returns or raises, its connection ends without an open
  transaction, the database it leaves is well formed, and nothing durable was undone: finished
  Jobs and attempts are untouched, fencing generations and the gate did not go back.
\<close>

theorem database_survives:
  assumes "fair_start w" "run_submit supplied bytes w = (res, w')"
  shows "open_tx w' = None \<and> db_ok (durable w') \<and> db_le (durable w) (durable w')"
proof -
  have "db_steps (durable w) (durable w')"
    using invocation_ends(1)[OF assms] by (auto simp: ended_def runs_def progress_def)
  with assms(1) invocation_ends(2)[OF assms] show ?thesis
    by (auto simp: fair_start_def intro: db_steps_ok db_steps_le)
qed

lemma witness_database_survives:
  "db_ok (durable (snd (run_submit (Some ''k1'') ''{}'' (initial_world accepting_env empty_database))))"
  using database_survives[OF sample_fair, of "Some ''k1''" "''{}''"] by (metis prod.collapse)

text \<open>
  C16. The only exceptions that leave an invocation are cancellation and the \<open>ValueError\<close> of text
  that \<open>parse_retry_after\<close> or \<open>parse_timestamp\<close> cannot read; every assertion, every
  \<open>PersistenceError\<close>, \<open>IntegrityError\<close> and adapter error is turned into an outcome.
\<close>

theorem what_escapes_an_invocation:
  assumes "fair_start w" "run_submit supplied bytes w = (Inl e, w')"
  shows "e \<in> {CancelledError, ValueError, Out_of_fuel}"
  using invocation_ends(4)[OF assms refl] by (cases e) (auto simp: escapes_def is_exception_def)

lemma witness_what_escapes_an_invocation:
  "fst (run_submit (Some ''k1'') ''{}'' (initial_world rescued_env empty_database)) = Inl CancelledError
     \<and> CancelledError \<in> {CancelledError, ValueError, Out_of_fuel}"
proof -
  obtain w' e where run: "run_submit (Some ''k1'') ''{}'' (initial_world rescued_env empty_database)
      = (Inl CancelledError, w')" by (rule overtaken_run)
  from what_escapes_an_invocation[OF rescued_fair run] run show ?thesis by simp
qed

section \<open>An invocation over the HTTP adapters\<close>

text \<open>
  C18. What the guarantees of an invocation ask of its environment is what the HTTP adapters provide:
  if every answer to a POST and a GET is an adapter's result for some exchange with the network,
  however that exchange went, then an invocation that starts among cooperating processes on a well
  formed database starts fairly.
\<close>

theorem adapters_keep_the_promises:
  assumes "cooperative (the_env w)" "db_ok (durable w)"
    and "\<And>n. \<exists>limit x key digest. post_at (the_env w) n = submit_job_http limit x key digest"
    and "\<And>n. \<exists>limit x key digest. get_at (the_env w) n = reconcile_job_http limit x key digest"
  shows "fair_start w"
  unfolding fair_start_def outcomes_ok_def using assms submit_job_http_ok reconcile_job_http_ok by metis

definition wired_env :: env where
  "wired_env = accepting_env
     \<lparr>post_at := (\<lambda>n. submit_job_http 2 (sample_exchange 201 [] (octets (dumps (\<lambda>_. []) success_document))) ''k'' ''d''),
      get_at := (\<lambda>n. reconcile_job_http 2 (sample_exchange 500 [] []) ''k'' ''d'')\<rparr>"

lemma witness_adapters_keep_the_promises: "fair_start (initial_world wired_env empty_database)"
proof (rule adapters_keep_the_promises)
  show "cooperative (the_env (initial_world wired_env empty_database))"
    using sample_fair by (simp add: fair_start_def initial_world_def wired_env_def cooperative_def)
  show "db_ok (durable (initial_world wired_env empty_database))"
    by (simp add: initial_world_def empty_database_ok)
  show "\<exists>limit x key digest. post_at (the_env (initial_world wired_env empty_database)) n
      = submit_job_http limit x key digest" for n
    by (auto simp: initial_world_def wired_env_def)
  show "\<exists>limit x key digest. get_at (the_env (initial_world wired_env empty_database)) n
      = reconcile_job_http limit x key digest" for n
    by (auto simp: initial_world_def wired_env_def)
qed

section \<open>An invocation against the service\<close>

text \<open>A request that is one of the POSTs in a trace.\<close>

definition is_post_of :: "event list \<Rightarrow> request \<Rightarrow> bool" where
  "is_post_of es q \<longleftrightarrow> (\<exists>k b d0 d digest. Posted k b d0 d \<in> set es \<and> q = Submit k b digest)"

text \<open>
  C2. One invocation, one processing: whatever requests of whomever the service handles, in any
  order and under any plan, and however often the invocation had to send its POST, every successful
  reply to one of these POSTs is about one key and carries the one record stored under it, which
  has the invocation's payload; a 201 comes only if no submission of the key succeeded before.
\<close>

theorem invocation_is_processed_once:
  assumes "fair_start w" "run_submit supplied bytes w = (res, w')"
    and "serve_all sha plan qs new_coordinator = (outs, c)"
  shows "\<exists>key. (supplied \<noteq> None \<longrightarrow> supplied = Some key)
    \<and> (\<forall>i<length qs. \<forall>s b. is_post_of (events_between w w') (qs ! i) \<and> success_reply (outs ! i) s b \<longrightarrow>
         request_key (qs ! i) = key
         \<and> (\<exists>r. processed_records c key = Some r \<and> canonical_bytes r = bytes \<and> b = submission_body r (s = 200))
         \<and> (\<forall>j<i. \<forall>bytes' digest' s' b'. qs ! j = Submit key bytes' digest' \<and> success_reply (outs ! j) s' b' \<longrightarrow> s = 200))"
proof -
  obtain key where key: "supplied \<noteq> None \<longrightarrow> supplied = Some key"
    and posts: "\<forall>k b d0 d. Posted k b d0 d \<in> set (events_between w w') \<longrightarrow>
       k = key \<and> b = bytes \<and> goes_out (invocation_token w) key bytes d0 d"
    using assms(1,2) by (rule invocation_posts)
  have outs: "fst (serve_all sha plan qs new_coordinator) = outs" "snd (serve_all sha plan qs new_coordinator) = c"
    by (simp_all add: assms(3))
  have replies: "request_key (qs ! i) = key
      \<and> (\<exists>r. processed_records c key = Some r \<and> canonical_bytes r = bytes \<and> b = submission_body r (s = 200))
      \<and> (\<forall>j<i. \<forall>bytes' digest' s' b'. qs ! j = Submit key bytes' digest' \<and> success_reply (outs ! j) s' b' \<longrightarrow> s = 200)"
    if i: "i < length qs" "is_post_of (events_between w w') (qs ! i)" "success_reply (outs ! i) s b" for i s b
  proof -
    from i(2) posts obtain digest where q: "qs ! i = Submit key bytes digest" by (auto simp: is_post_of_def)
    have later: "s = 200" if "j < i" "qs ! j = Submit key bytes' digest'" "success_reply (outs ! j) s' b'" for j bytes' digest' s' b'
      using serve_all_201_once[OF that(1) i(1) that(2) q, of sha plan new_coordinator s' b' b] that(3) i(3)
      unfolding outs by (auto simp: success_reply_def)
    from serve_all_success[OF i(1) q, of sha plan new_coordinator s b] i(3) obtain r where
      "processed_records c key = Some r" "canonical_bytes r = bytes" "b = submission_body r (s = 200)"
      unfolding outs by blast
    then have "\<exists>r. processed_records c key = Some r \<and> canonical_bytes r = bytes \<and> b = submission_body r (s = 200)"
      by (intro exI[of _ r] conjI)
    moreover have "request_key (qs ! i) = key" by (simp add: q)
    ultimately show ?thesis using later by blast
  qed
  show ?thesis
    by (rule exI[of _ key], rule conjI, rule key, intro allI impI, elim conjE, rule replies)
qed

lemma witness_invocation_is_processed_once:
  "\<exists>w' r. snd (run_submit (Some ''k1'') ''{}'' (initial_world accepting_env empty_database)) = w'
     \<and> is_post_of (events_between (initial_world accepting_env empty_database) w') (Submit ''k1'' ''{}'' ''d'')
     \<and> processed_records (snd (serve_all no_sha EMPTY_PLAN [Submit ''k1'' ''{}'' ''d''] new_coordinator)) ''k1'' = Some r
     \<and> canonical_bytes r = ''{}''"
proof -
  let ?run = "serve_all no_sha EMPTY_PLAN [Submit ''k1'' ''{}'' ''d''] new_coordinator"
  obtain r w' k b d0 d where run: "run_submit (Some ''k1'') ''{}'' (initial_world accepting_env empty_database)
      = (Inr (SubmitSuccess r), w')" and "Posted k b d0 d \<in> set (trace w')" by (rule sample_run)
  then have posted: "Posted k b d0 d \<in> set (events_between (initial_world accepting_env empty_database) w')"
    by (simp add: events_between_def initial_world_def)
  with sample_fair run have "k = ''k1'' \<and> b = ''{}''" by (elim invocation_posts) auto
  with posted have post: "is_post_of (events_between (initial_world accepting_env empty_database) w') (Submit ''k1'' ''{}'' ''d'')"
    by (auto simp: is_post_of_def)
  have reply: "success_reply (fst ?run ! 0) 201 (submission_body (new_record no_sha EMPTY_PLAN ''k1'' ''{}'' ''d'') False)"
    by (simp add: success_reply_def handle_submission_def next_ordinal_def Let_def get_record_def create_record_def
        new_record_def new_coordinator_def resolve_def EMPTY_PLAN_def resolve_action_def SUBMISSION_def)
  from invocation_is_processed_once[OF sample_fair run, of no_sha EMPTY_PLAN "[Submit ''k1'' ''{}'' ''d'']" "fst ?run" "snd ?run"]
  have "\<exists>r. processed_records (snd ?run) ''k1'' = Some r \<and> canonical_bytes r = ''{}''"
    using post reply by fastforce
  with run post show ?thesis by auto
qed

end
